(* ===== verification/Prelude.thy ===== *)
theory Prelude
  imports Main "HOL-Library.Word"
begin

text \<open>
  Shared vocabulary of the development: the machine integers of the C sources, C strings as
  character lists, the printf conversions the sources use, and the generic list and word lemmas
  the component theories rest on.

  A C string is modelled by the characters stored before its terminator; \<open>deref\<close> reads the
  character under a cursor and yields the terminator at the end of the list, so that a loop that
  tests \<open>*cursor\<close> stops both at the end of the list and at an embedded NUL.
  A C \<open>int\<close> is a 32-bit word that is read with \<open>sint\<close> where the source compares it as
  a signed value; converting it to \<open>unsigned int\<close> is then the identity, as in C.
\<close>

named_theorems c_simps \<open>evaluation of C string and integer helpers\<close>

section \<open>Machine integers\<close>

type_synonym u8 = "8 word"
type_synonym u16 = "16 word"
type_synonym u32 = "32 word"
type_synonym u64 = "64 word"
type_synonym i32 = "32 word"
type_synonym i64 = "64 word"

abbreviation neg :: "'a::len word \<Rightarrow> bool" where
  "neg x \<equiv> sint x < 0"

abbreviation INT_MAX :: u32 where
  "INT_MAX \<equiv> 0x7fffffff"

text \<open>A positive signed value is not the zero word; every progress argument uses this.\<close>

lemma sint_pos_unat: "0 < sint (x :: i32) \<Longrightarrow> 0 < unat x"
  by (cases "x = 0") (auto simp: unat_gt_0)

lemma sint_pos_nonzero: "0 < sint (x :: i32) \<Longrightarrow> x \<noteq> 0"
  by auto

lemma sint_nonneg: "0 \<le> sint (x :: 'a::len word) \<Longrightarrow> sint x = int (unat x)"
proof -
  assume "0 \<le> sint x"
  have eq: "sint x = uint x - 2 ^ LENGTH('a) * of_bool (bit (uint x) (LENGTH('a) - 1))"
    by (simp add: sint_uint signed_take_bit_eq_take_bit_minus take_bit_int_eq_self)
  have "uint x < 2 ^ LENGTH('a)" by (rule unsigned_less)
  then have "uint x - 2 ^ LENGTH('a) < 0" by linarith
  show ?thesis
  proof (cases "bit (uint x) (LENGTH('a) - 1)")
    case True
    with eq have "sint x = uint x - 2 ^ LENGTH('a)" by simp
    with \<open>uint x - 2 ^ LENGTH('a) < 0\<close> \<open>0 \<le> sint x\<close> show ?thesis by linarith
  next
    case False
    with eq show ?thesis by simp
  qed
qed

lemma word_diff_unat: "(b :: 'a::len word) \<le> a \<Longrightarrow> unat (a - b) = unat a - unat b"
  by (simp add: unat_sub)

lemma word_add_unat_le:
  fixes a b c :: "'a::len word"
  assumes "a \<le> c" and "b \<le> c - a"
  shows "unat (a + b) = unat a + unat b" and "a + b \<le> c"
proof -
  have b: "unat b \<le> unat c - unat a"
    using assms by (simp add: word_le_nat_alt unat_sub)
  have le: "unat a \<le> unat c" using assms(1) by (simp add: word_le_nat_alt)
  from b le have s: "unat a + unat b \<le> unat c" by simp
  moreover have "unat c < 2 ^ LENGTH('a)" by (rule unsigned_less)
  ultimately have "unat a + unat b < 2 ^ LENGTH('a)" by (rule order_le_less_trans)
  then show eq: "unat (a + b) = unat a + unat b"
    by (simp add: unat_word_ariths)
  from eq s show "a + b \<le> c" by (simp add: word_le_nat_alt)
qed

lemma unat_u32_less: "unat (x :: u32) < 2 ^ 32"
  using unsigned_less [of x] by simp

lemma unat_u64_less: "unat (x :: u64) < 2 ^ 64"
  using unsigned_less [of x] by simp

lemma unat_ucast_up: "unat (ucast (x :: u32) :: u64) = unat x"
proof -
  have "unat x < 2 ^ 32" using unsigned_less [of x] by simp
  then show ?thesis by (simp add: unsigned_ucast_eq take_bit_nat_eq_self)
qed

section \<open>Characters and C strings\<close>

abbreviation NUL :: char where "NUL \<equiv> CHR 0x00"
abbreviation TAB :: char where "TAB \<equiv> CHR 0x09"
abbreviation LF :: char where "LF \<equiv> CHR 0x0A"
abbreviation CR :: char where "CR \<equiv> CHR 0x0D"
abbreviation SPC :: char where "SPC \<equiv> CHR 0x20"
abbreviation QUOTE :: char where "QUOTE \<equiv> CHR 0x22"

definition EOL :: string where
  "EOL = [CR, LF]"

definition deref :: "string \<Rightarrow> char" where
  "deref s = (case s of [] \<Rightarrow> NUL | c # _ \<Rightarrow> c)"

definition cstr :: "string \<Rightarrow> string" where
  "cstr = takeWhile (\<lambda>c. c \<noteq> NUL)"

lemma deref_simps [simp]: "deref [] = NUL" "deref (c # s) = c"
  by (simp_all add: deref_def)

lemma deref_not_NUL: "deref s \<noteq> NUL \<Longrightarrow> s \<noteq> []"
  by auto

lemma cstr_simps [simp]:
  "cstr [] = []" "cstr (c # s) = (if c = NUL then [] else c # cstr s)"
  by (simp_all add: cstr_def)

lemma cstr_no_NUL [simp]: "NUL \<notin> set (cstr s)"
  by (induction s) auto

lemma cstr_id: "NUL \<notin> set s \<Longrightarrow> cstr s = s"
  by (induction s) auto

lemma cstr_append_NUL: "NUL \<notin> set s \<Longrightarrow> cstr (s @ NUL # t) = s"
  by (induction s) auto

text \<open>\<open>snprintf (buf, n, ...)\<close> keeps at most \<open>n - 1\<close> characters of the formatted text.\<close>

definition snprintf :: "nat \<Rightarrow> string \<Rightarrow> string" where
  "snprintf n text = take (n - 1) text"

lemma length_snprintf: "0 < n \<Longrightarrow> length (snprintf n t) < n"
  by (simp add: snprintf_def)

lemma snprintf_fits: "length t < n \<Longrightarrow> snprintf n t = t"
  by (simp add: snprintf_def)

lemma set_snprintf: "set (snprintf n t) \<subseteq> set t"
  by (simp add: snprintf_def set_take_subset)

section \<open>Decimal and hexadecimal conversions\<close>

definition digit_val :: "char \<Rightarrow> nat" where
  "digit_val c = of_char c - 48"

definition is_digit :: "char \<Rightarrow> bool" where
  "is_digit c \<longleftrightarrow> 48 \<le> (of_char c :: nat) \<and> (of_char c :: nat) \<le> 57"

definition digit_chr :: "nat \<Rightarrow> char" where
  "digit_chr d = char_of (48 + d)"

definition dec_value :: "string \<Rightarrow> nat" where
  "dec_value = foldl (\<lambda>v c. v * 10 + digit_val c) 0"

fun dec_nat :: "nat \<Rightarrow> string" where
  "dec_nat n = (if n < 10 then [digit_chr n] else dec_nat (n div 10) @ [digit_chr (n mod 10)])"

declare dec_nat.simps [simp del]

lemma is_digit_digit_chr [simp]: "d < 10 \<Longrightarrow> is_digit (digit_chr d)"
  by (simp add: is_digit_def digit_chr_def of_char_of)

lemma digit_val_digit_chr [simp]: "d < 10 \<Longrightarrow> digit_val (digit_chr d) = d"
  by (simp add: digit_val_def digit_chr_def of_char_of)

lemma digit_val_less: "is_digit c \<Longrightarrow> digit_val c < 10"
  unfolding is_digit_def digit_val_def by linarith

lemma dec_value_snoc [simp]: "dec_value (s @ [c]) = dec_value s * 10 + digit_val c"
  by (simp add: dec_value_def)

lemma dec_value_Nil [simp]: "dec_value [] = 0"
  by (simp add: dec_value_def)

lemma dec_nat_not_Nil [simp]: "dec_nat n \<noteq> []"
  by (subst dec_nat.simps) simp

lemma dec_nat_digits: "list_all is_digit (dec_nat n)"
proof (induction n rule: dec_nat.induct)
  case (1 n)
  show ?case
    using "1" by (subst dec_nat.simps) auto
qed

lemma dec_value_dec_nat [simp]: "dec_value (dec_nat n) = n"
proof (induction n rule: dec_nat.induct)
  case (1 n)
  show ?case
  proof (cases "n < 10")
    case True
    then show ?thesis by (subst dec_nat.simps) (simp add: dec_value_def)
  next
    case False
    with "1" show ?thesis by (subst dec_nat.simps) simp
  qed
qed

lemma is_digit_facts:
  "is_digit c \<Longrightarrow> c \<noteq> NUL" "is_digit c \<Longrightarrow> c \<noteq> SPC" "is_digit c \<Longrightarrow> c \<noteq> TAB"
  "is_digit c \<Longrightarrow> c \<noteq> CR" "is_digit c \<Longrightarrow> c \<noteq> LF" "is_digit c \<Longrightarrow> c \<noteq> CHR '',''"
  by (auto simp: is_digit_def)

text \<open>
  The printf conversions of the sources: \<open>%u\<close> and \<open>%llu\<close> are \<open>dec_nat\<close> of the unsigned value,
  \<open>%d\<close>, \<open>%i\<close> and \<open>%lld\<close> are \<open>dec_int\<close> of the signed value, \<open>%08X\<close> is \<open>hex8\<close>; \<open>zero_pad\<close> and
  \<open>blank_pad\<close> are the minimum field widths of \<open>%0nd\<close> and \<open>%-nd\<close>.
\<close>

definition dec_int :: "int \<Rightarrow> string" where
  "dec_int i = (if i < 0 then CHR ''-'' # dec_nat (nat (- i)) else dec_nat (nat i))"

definition hex_chr :: "nat \<Rightarrow> char" where
  "hex_chr d = (if d < 10 then digit_chr d else char_of (55 + d))"

definition hex8 :: "u32 \<Rightarrow> string" where
  "hex8 w = map (\<lambda>i. hex_chr (unat w div 16 ^ (7 - i) mod 16)) [0 ..< 8]"

definition zero_pad :: "nat \<Rightarrow> string \<Rightarrow> string" where
  "zero_pad n s = replicate (n - length s) (CHR ''0'') @ s"

definition blank_pad :: "nat \<Rightarrow> string \<Rightarrow> string" where
  "blank_pad n s = s @ replicate (n - length s) SPC"

lemma length_hex8 [simp]: "length (hex8 w) = 8"
  by (simp add: hex8_def)

lemma length_dec_nat: "n < 10 ^ k \<Longrightarrow> 0 < k \<Longrightarrow> length (dec_nat n) \<le> k"
proof (induction n arbitrary: k rule: dec_nat.induct)
  case (1 n)
  show ?case
  proof (cases "n < 10")
    case True
    with "1.prems" show ?thesis by (subst dec_nat.simps) simp
  next
    case False
    with "1.prems" obtain j where k: "k = Suc j" "0 < j"
      by (cases k; cases "k - 1") auto
    moreover from "1.prems"(1) k have "n div 10 < 10 ^ j" by (simp add: less_mult_imp_div_less mult.commute)
    ultimately have "length (dec_nat (n div 10)) \<le> j" using "1.IH" False by simp
    with False k show ?thesis by (subst dec_nat.simps) simp
  qed
qed

lemma length_dec_int: "\<bar>i\<bar> < 10 ^ k \<Longrightarrow> 0 < k \<Longrightarrow> length (dec_int i) \<le> Suc k"
proof -
  assume "\<bar>i\<bar> < 10 ^ k" "0 < k"
  then have "nat \<bar>i\<bar> < 10 ^ k" by (simp add: nat_less_iff)
  with \<open>0 < k\<close> have "length (dec_nat (nat \<bar>i\<bar>)) \<le> k" by (rule length_dec_nat [rotated])
  then show ?thesis by (auto simp: dec_int_def abs_if le_SucI split: if_splits)
qed

section \<open>Lists\<close>

lemma takeWhile_all_append:
  "list_all P xs \<Longrightarrow> (ys = [] \<or> \<not> P (hd ys)) \<Longrightarrow> takeWhile P (xs @ ys) = xs"
  by (induction xs) (cases ys; auto)+

lemma dropWhile_all_append:
  "list_all P xs \<Longrightarrow> (ys = [] \<or> \<not> P (hd ys)) \<Longrightarrow> dropWhile P (xs @ ys) = ys"
  by (induction xs) (cases ys; auto)+

end
