(* ===== verification/Sys.thy ===== *)
theory Sys
  imports Prelude
begin

text \<open>
  The interface of the plugin to the system: the calls of the Vita SDK and of the C library that
  have an effect. None of that code is part of the repository, so it is a parameter: an
  environment \<open>E\<close> whose field \<open>sys\<close> answers a call in a world of arbitrary type, together with
  the SDK constants and conversions the sources use.

  A call is recorded with its answer in the \<open>trace\<close> of the state. The trace is the observable
  behaviour of the model: what was sent, which file was opened in which mode, which descriptor was
  closed. It is append-only, as \<open>syscall\<close> is the only operation that touches it, and resource
  ownership is read off it by \<open>balance\<close>.
\<close>

section \<open>The data the calls exchange\<close>

datatype address_family = AF_UNSPEC | SCE_NET_AF_INET

record SceNetSockaddrIn =
  sin_family :: address_family
  sin_port :: u16
  sin_addr :: u32

record SceDateTime =
  year :: u16
  month :: u16
  day :: u16
  hour :: u16
  minute :: u16

record SceIoStat =
  st_mode :: u32
  st_size :: i64
  st_mtime :: SceDateTime

datatype open_flag = SCE_O_RDONLY | SCE_O_WRONLY | SCE_O_RDWR | SCE_O_CREAT | SCE_O_TRUNC | SCE_O_APPEND

datatype seek = SCE_SEEK_SET | SCE_SEEK_END

datatype socket_option = SCE_NET_SO_SNDTIMEO | SCE_NET_SO_RCVTIMEO

datatype abort_flag = SCE_NET_SOCKET_ABORT_FLAG_RCV_PRESERVATION | SCE_NET_SOCKET_ABORT_FLAG_SND_PRESERVATION

text \<open>A path argument is a pointer: \<open>None\<close> is the NULL that \<open>get_vita_path\<close> may return.\<close>

type_synonym path = "string option"

datatype net_call =
    sceNetSend i32 string
  | sceNetRecv i32 u32
  | sceNetSocket string
  | sceNetSocketClose i32
  | sceNetSocketAbort i32 "abort_flag list"
  | sceNetSetsockopt i32 socket_option i32
  | sceNetBind i32 SceNetSockaddrIn
  | sceNetListen i32 i32
  | sceNetGetsockname i32
  | sceNetAccept i32
  | sceNetConnect i32 SceNetSockaddrIn
  | sceNetShowNetstat
  | sceNetInit u32
  | sceNetTerm
  | sceNetCtlInit
  | sceNetCtlTerm
  | sceNetCtlInetGetInfo
  | sceNetCtlInetGetState
  | sceNetCtlInetRegisterCallback
  | sceNetCtlInetUnregisterCallback i32
  | sceNetCtlCheckCallback

datatype io_call =
    sceIoOpen path "open_flag list"
  | sceIoRead i32 u32
  | sceIoWrite i32 string
  | sceIoLseek i32 i64 seek
  | sceIoClose i32
  | sceIoDopen path
  | sceIoDread i32
  | sceIoDclose i32
  | sceIoGetstat path
  | sceIoRemove path
  | sceIoRmdir path
  | sceIoMkdir path
  | sceIoRename string path

datatype kernel_call =
    sceKernelCreateThread string
  | sceKernelStartThread i32
  | sceKernelWaitThreadEnd i32
  | sceKernelDeleteThread i32
  | sceKernelDelayThread nat
  | sceKernelExitThread
  | sceKernelExitDeleteThread i32
  | sceKernelCreateMutex string
  | sceKernelDeleteMutex i32
  | sceKernelLockMutex i32
  | sceKernelUnlockMutex i32
  | malloc u32
  | free u32
  | sceRtcGetCurrentClockLocalTime
  | taipool_init u32
  | taipool_term

datatype sysmodule = SCE_SYSMODULE_INTERNAL_PAF | SCE_SYSMODULE_INTERNAL_PROMOTER_UTIL

datatype app_call =
    sceAppMgrDestroyAppByName string
  | sceAppMgrDestroyOtherApp
  | sceAppMgrGetAppIdByAppId i32
  | sceAppMgrGetProcessIdByAppIdForShell i32
  | sceAppMgrGetNameById i32
  | sceAppMgrLaunchAppByUri u32 string
  | scePowerRequestColdReset
  | scePowerRequestDisplayOn
  | scePowerRequestDisplayOff
  | scePowerGetBatteryLifePercent
  | scePowerIsBatteryCharging
  | taiGetModuleInfo string
  | sceKernelGetModuleInfo i32
  | call_shellShot u32
  | load_module sysmodule
  | unload_module sysmodule
  | scePromoterUtilityInit
  | scePromoterUtilityPromotePkgWithRif string
  | scePromoterUtilityExit

text \<open>
  The calls of zlib that have a state. A call of \<open>inflate\<close> is given the input that is left in the buffer
  and the size of the output buffer.
\<close>

datatype zlib_call =
    inflateInit2
  | inflate string u32
  | inflateEnd

datatype call = Net net_call | Io io_call | Kernel kernel_call | App app_call | Zlib zlib_call

text \<open>
  What a call returns: its C result (\<open>rc\<close>; for \<open>malloc\<close> the 32-bit address, 0 for NULL), the
  64-bit result of a seek, what it stored through its pointer arguments (\<open>out\<close> for the words), and the
  value that \<open>*sceNetErrnoLoc()\<close> has right after it. The thread that \<open>sceKernelExitDeleteThread\<close> ends and
  deletes is the calling one; the model names it as an argument.
\<close>

record ret =
  rc :: i32
  off :: i64
  mem :: "nat \<Rightarrow> char"
  stat :: SceIoStat
  d_name :: string
  sockaddr :: SceNetSockaddrIn
  datetime :: SceDateTime
  errno :: i32
  out :: "nat \<Rightarrow> u32"

record 'w env =
  sys :: "call \<Rightarrow> 'w \<Rightarrow> ret \<times> 'w"
  PATH_MAX :: nat
  sceNetHtons :: "u16 \<Rightarrow> u16"
  sceNetHtonl :: "u32 \<Rightarrow> u32"
  sceNetInetPton :: "string \<Rightarrow> u32"
  SCE_S_ISDIR :: "u32 \<Rightarrow> bool"
  SCE_APPMGR_MAX_APP_NAME_LENGTH :: nat
  SCE_APPMGR_ERROR_INVALID :: i32
  SCE_NET_ERROR_ENOTINIT :: i32
  sizeof_client :: u32
  crc32 :: "u32 \<Rightarrow> string \<Rightarrow> u32"

section \<open>Calls\<close>

type_synonym event = "call \<times> ret"

record 'w sysst =
  world :: 'w
  trace :: "event list"

definition syscall :: "'w env \<Rightarrow> call \<Rightarrow> ('w, 'z) sysst_scheme \<Rightarrow> ret \<times> ('w, 'z) sysst_scheme" where
  "syscall E c s = (case sys E c (world s) of (r, w) \<Rightarrow> (r, s\<lparr>world := w, trace := trace s @ [(c, r)]\<rparr>))"

text \<open>A call whose result the source ignores.\<close>

definition exec :: "'w env \<Rightarrow> call \<Rightarrow> ('w, 'z) sysst_scheme \<Rightarrow> ('w, 'z) sysst_scheme" where
  "exec E c s = snd (syscall E c s)"

text \<open>The bytes a receiving call stored into a buffer of which it was given \<open>n\<close> bytes.\<close>

definition stored :: "ret \<Rightarrow> u32 \<Rightarrow> string" where
  "stored r n = (if neg (rc r) then [] else map (mem r) [0 ..< min (unat (rc r)) (unat n)])"

definition fill :: "ret \<Rightarrow> u32 \<Rightarrow> string \<Rightarrow> string" where
  "fill r n buffer = stored r n @ drop (length (stored r n)) buffer"

lemma syscall_trace: "syscall E c s = (r, s') \<Longrightarrow> trace s' = trace s @ [(c, r)]"
  by (auto simp: syscall_def split: prod.splits)

lemma trace_snd_syscall [simp]: "trace (snd (syscall E c s)) = trace s @ [(c, fst (syscall E c s))]"
  by (simp add: syscall_def split: prod.splits)

lemma trace_exec [simp]: "trace (exec E c s) = trace s @ [(c, fst (syscall E c s))]"
  by (simp add: exec_def)

lemma exec_iff: "exec E c s = u \<longleftrightarrow> (\<exists>r. syscall E c s = (r, u))"
  by (cases "syscall E c s") (simp add: exec_def)

lemma length_stored: "length (stored r n) \<le> unat n"
  by (simp add: stored_def)

lemma length_fill [simp]: "unat n \<le> length buffer \<Longrightarrow> length (fill r n buffer) = length buffer"
  using length_stored [of r n] by (simp add: fill_def)

lemma stored_good: "0 < sint (rc r) \<Longrightarrow> rc r \<le> n \<Longrightarrow> stored r n = map (mem r) [0 ..< unat (rc r)]"
  by (simp add: stored_def word_le_nat_alt min_absorb1)

lemma take_fill_good:
  "0 < sint (rc r) \<Longrightarrow> rc r \<le> n \<Longrightarrow> take (unat (rc r)) (fill r n buffer) = map (mem r) [0 ..< unat (rc r)]"
  by (simp add: fill_def stored_good)

section \<open>Resources\<close>

datatype resource =
    Sock i32 | File i32 | Dir i32 | Mem u32 | Thread i32 | Mutex i32
  | NetLib | NetCtl | Callback u32 | Pool | Sysmodule sysmodule | Promoter | Inflate

fun acquired :: "call \<Rightarrow> ret \<Rightarrow> resource option" where
  "acquired (Net (sceNetSocket _)) r = (if neg (rc r) then None else Some (Sock (rc r)))"
| "acquired (Net (sceNetAccept _)) r = (if neg (rc r) then None else Some (Sock (rc r)))"
| "acquired (Io (sceIoOpen _ _)) r = (if neg (rc r) then None else Some (File (rc r)))"
| "acquired (Io (sceIoDopen _)) r = (if neg (rc r) then None else Some (Dir (rc r)))"
| "acquired (Kernel (malloc _)) r = (if rc r = 0 then None else Some (Mem (rc r)))"
| "acquired (Kernel (sceKernelCreateThread _)) r = (if neg (rc r) then None else Some (Thread (rc r)))"
| "acquired (Kernel (sceKernelCreateMutex _)) r = (if neg (rc r) then None else Some (Mutex (rc r)))"
| "acquired (Net (sceNetInit _)) r = (if rc r = 0 then Some NetLib else None)"
| "acquired (Net sceNetCtlInit) r = (if rc r = 0 then Some NetCtl else None)"
| "acquired (Net sceNetCtlInetRegisterCallback) r = (if neg (rc r) then None else Some (Callback (out r 0)))"
| "acquired (Kernel (taipool_init _)) r = (if neg (rc r) then None else Some Pool)"
| "acquired (App (load_module m)) r = (if neg (rc r) then None else Some (Sysmodule m))"
| "acquired (App scePromoterUtilityInit) r = (if neg (rc r) then None else Some Promoter)"
| "acquired (Zlib inflateInit2) r = (if rc r = 0 then Some Inflate else None)"
| "acquired _ _ = None"

fun released :: "call \<Rightarrow> resource option" where
  "released (Net (sceNetSocketClose fd)) = Some (Sock fd)"
| "released (Io (sceIoClose fd)) = Some (File fd)"
| "released (Io (sceIoDclose fd)) = Some (Dir fd)"
| "released (Kernel (free p)) = (if p = 0 then None else Some (Mem p))"
| "released (Kernel (sceKernelDeleteThread t)) = Some (Thread t)"
| "released (Kernel (sceKernelDeleteMutex m)) = Some (Mutex m)"
| "released (Kernel (sceKernelExitDeleteThread t)) = Some (Thread t)"
| "released (Net sceNetTerm) = Some NetLib"
| "released (Net sceNetCtlTerm) = Some NetCtl"
| "released (Net (sceNetCtlInetUnregisterCallback i)) = Some (Callback i)"
| "released (Kernel taipool_term) = Some Pool"
| "released (App (unload_module m)) = Some (Sysmodule m)"
| "released (App scePromoterUtilityExit) = Some Promoter"
| "released (Zlib inflateEnd) = Some Inflate"
| "released _ = None"

text \<open>The times a resource was acquired in a trace, less the times it was released.\<close>

definition delta :: "event \<Rightarrow> resource \<Rightarrow> int" where
  "delta e x = of_bool (acquired (fst e) (snd e) = Some x) - of_bool (released (fst e) = Some x)"

definition balance :: "event list \<Rightarrow> resource \<Rightarrow> int" where
  "balance tr x = sum_list (map (\<lambda>e. delta e x) tr)"

lemma balance_Nil [simp]: "balance [] x = 0"
  by (simp add: balance_def)

lemma balance_append [simp]: "balance (tr @ tr') x = balance tr x + balance tr' x"
  by (simp add: balance_def)

lemma balance_Cons [simp]: "balance (e # tr) x = delta e x + balance tr x"
  by (simp add: balance_def)

definition neutral :: "call \<Rightarrow> bool" where
  "neutral c \<longleftrightarrow> released c = None \<and> (\<forall>r. acquired c r = None)"

lemma neutral_delta [simp]: "neutral c \<Longrightarrow> delta (c, r) x = 0"
  by (simp add: neutral_def delta_def)

lemma neutral_calls [simp]:
  "neutral (Net (sceNetSend fd bs))" "neutral (Net (sceNetRecv fd n))"
  "neutral (Net (sceNetSetsockopt fd opt v))" "neutral (Net (sceNetBind fd a))"
  "neutral (Net (sceNetListen fd n))" "neutral (Net (sceNetGetsockname fd))"
  "neutral (Net (sceNetConnect fd a))" "neutral (Net (sceNetSocketAbort fd fl))"
  "neutral (Io (sceIoRead fd n))" "neutral (Io (sceIoWrite fd bs))" "neutral (Io (sceIoLseek fd pos w))"
  "neutral (Io (sceIoDread fd))" "neutral (Io (sceIoGetstat p))" "neutral (Io (sceIoRemove p))"
  "neutral (Io (sceIoRmdir p))" "neutral (Io (sceIoMkdir p))" "neutral (Io (sceIoRename q p))"
  "neutral (Kernel sceRtcGetCurrentClockLocalTime)" "neutral (Kernel (sceKernelDelayThread d))"
  "neutral (Kernel (sceKernelLockMutex m))" "neutral (Kernel (sceKernelUnlockMutex m))"
  "neutral (Kernel (sceKernelStartThread m))" "neutral (Kernel (sceKernelWaitThreadEnd m))"
  "neutral (Kernel sceKernelExitThread)" "neutral (Net sceNetShowNetstat)" "neutral (Net sceNetCtlInetGetInfo)"
  "neutral (Net sceNetCtlInetGetState)" "neutral (Net sceNetCtlCheckCallback)" "neutral (Zlib (inflate bs n))"
  by (simp_all add: neutral_def)

lemma neutral_app_calls [simp]:
  "neutral (App (sceAppMgrDestroyAppByName a))" "neutral (App sceAppMgrDestroyOtherApp)"
  "neutral (App (sceAppMgrGetAppIdByAppId i))" "neutral (App (sceAppMgrGetProcessIdByAppIdForShell i))"
  "neutral (App (sceAppMgrGetNameById i))" "neutral (App (sceAppMgrLaunchAppByUri f u))"
  "neutral (App scePowerRequestColdReset)" "neutral (App scePowerRequestDisplayOn)"
  "neutral (App scePowerRequestDisplayOff)" "neutral (App scePowerGetBatteryLifePercent)"
  "neutral (App scePowerIsBatteryCharging)" "neutral (App (taiGetModuleInfo m))"
  "neutral (App (sceKernelGetModuleInfo i))" "neutral (App (call_shellShot q))"
  "neutral (App (scePromoterUtilityPromotePkgWithRif u))"
  by (simp_all add: neutral_def)

end
