(* ===== verification/Ftp_State.thy ===== *)
theory Ftp_State
  imports Sys
begin

text \<open>
  The data of \<^verbatim>\<open>libftpvita/ftpvita.c\<close>: the client record of \<^verbatim>\<open>ftpvita.h\<close>, the file-scope
  variables, and the accounting of the sockets a client holds.

  A command runs on one client; \<open>cl\<close> is the record its thread works on. Flags that only ever hold
  0 and 1 are Booleans, pointers are 32-bit addresses with 0 for NULL, and a fixed character array
  is the string stored in it. \<open>recv_cmd_args\<close> points into \<open>recv_buffer\<close>; it is the suffix it points
  to. The log callbacks are NULL in the plugin's build, so INFO and DEBUG are without effect.
\<close>

section \<open>Client records\<close>

datatype DataConnectionType =
  FTP_DATA_CONNECTION_NONE | FTP_DATA_CONNECTION_ACTIVE | FTP_DATA_CONNECTION_PASSIVE

record ftpvita_client_info =
  num :: i32
  thid :: i32
  ctrl_sockfd :: i32
  data_sockfd :: i32
  data_con_type :: DataConnectionType
  data_sockaddr :: SceNetSockaddrIn
  pasv_sockaddr :: SceNetSockaddrIn
  pasv_sockfd :: i32
  client_addr :: SceNetSockaddrIn
  n_recv :: i32
  recv_buffer :: string
  recv_cmd_args :: "string option"
  cur_path :: string
  rename_path :: string
  next_client :: u32
  prev_client :: u32
  in_client_list :: bool
  quit_requested :: bool
  restore_point :: u32

section \<open>File-scope variables\<close>

record device =
  device_name :: string
  device_valid :: bool

text \<open>
  A slot of \<open>custom_command_dispatchers\<close>; the name is a pointer (\<open>None\<close> before the first
  registration), the handler a code address.
\<close>

record custom_command =
  custom_cmd :: "string option"
  custom_func :: u32
  custom_valid :: bool

record 'w ftp = "'w sysst" +
  device_list :: "device list"
  custom_command_dispatchers :: "custom_command list"
  net_memory :: u32
  ftp_initialized :: bool
  file_buf_size :: u32
  vita_addr :: u32
  server_thid :: i32
  server_sockfd :: i32
  server_start_status :: i32
  number_clients :: i32
  next_client_num :: u32
  client_list :: u32
  client_list_mtx :: i32
  transfer_active :: i32
  reboot_quiesce_requested :: i32
  socket_timeout_config_failures :: i32
  netctl_init :: i32
  net_init :: i32
  client_heap :: "u32 \<Rightarrow> ftpvita_client_info option"
  cl :: ftpvita_client_info

abbreviation set_cl :: "(ftpvita_client_info \<Rightarrow> ftpvita_client_info) \<Rightarrow> 'w ftp \<Rightarrow> 'w ftp" where
  "set_cl f s \<equiv> s\<lparr>cl := f (cl s)\<rparr>"

section \<open>Sockets held by a client\<close>

definition holds :: "i32 \<Rightarrow> resource \<Rightarrow> int" where
  "holds fd x = of_bool (\<not> neg fd \<and> x = Sock fd)"

definition held :: "ftpvita_client_info \<Rightarrow> resource \<Rightarrow> int" where
  "held c x = holds (ctrl_sockfd c) x + holds (data_sockfd c) x + holds (pasv_sockfd c) x"

text \<open>
  What the trace says is open beyond what the client record accounts for. A handler that leaves
  this unchanged neither leaks a descriptor, a directory handle or a buffer, nor closes one that it
  does not own or closes one twice.
\<close>

definition unaccounted :: "'w ftp \<Rightarrow> resource \<Rightarrow> int" where
  "unaccounted s x = balance (trace s) x - held (cl s) x"

lemma unaccounted_flags [simp]:
  "unaccounted (s\<lparr>transfer_active := i\<rparr>) = unaccounted s"
  "unaccounted (s\<lparr>socket_timeout_config_failures := i\<rparr>) = unaccounted s"
  by (auto simp: unaccounted_def)

lemma holds_neg [simp]: "neg fd \<Longrightarrow> holds fd x = 0"
  by (simp add: holds_def)

lemma holds_minus_one [simp]: "holds (- 1) x = 0"
  by (simp add: holds_def)

text \<open>
  The state of a client between two commands: no accepted data connection is left over, and a
  data socket exists exactly when a PASV or PORT command announced one.
\<close>

definition client_idle :: "ftpvita_client_info \<Rightarrow> bool" where
  "client_idle c \<longleftrightarrow> neg (pasv_sockfd c) \<and> (data_con_type c = FTP_DATA_CONNECTION_NONE \<longleftrightarrow> neg (data_sockfd c))"

lemma held_simps [simp]:
  "held (c\<lparr>data_con_type := t\<rparr>) = held c" "held (c\<lparr>data_sockaddr := a\<rparr>) = held c"
  "held (c\<lparr>pasv_sockaddr := a\<rparr>) = held c" "held (c\<lparr>cur_path := p\<rparr>) = held c"
  "held (c\<lparr>rename_path := p\<rparr>) = held c" "held (c\<lparr>restore_point := n\<rparr>) = held c"
  "held (c\<lparr>quit_requested := b\<rparr>) = held c" "held (c\<lparr>recv_buffer := m\<rparr>) = held c"
  "held (c\<lparr>recv_cmd_args := q\<rparr>) = held c" "held (c\<lparr>n_recv := i\<rparr>) = held c"
  by (auto simp: held_def)

text \<open>The fields of a client record that no command handler touches.\<close>

definition ident :: "ftpvita_client_info \<Rightarrow> i32 \<times> i32 \<times> i32 \<times> u32 \<times> u32 \<times> bool \<times> SceNetSockaddrIn" where
  "ident c = (num c, thid c, ctrl_sockfd c, next_client c, prev_client c, in_client_list c, client_addr c)"

lemma ident_simps [simp]:
  "ident (c\<lparr>data_con_type := t\<rparr>) = ident c" "ident (c\<lparr>data_sockaddr := a\<rparr>) = ident c"
  "ident (c\<lparr>pasv_sockaddr := a\<rparr>) = ident c" "ident (c\<lparr>cur_path := p\<rparr>) = ident c"
  "ident (c\<lparr>rename_path := p\<rparr>) = ident c" "ident (c\<lparr>restore_point := n\<rparr>) = ident c"
  "ident (c\<lparr>quit_requested := b\<rparr>) = ident c" "ident (c\<lparr>recv_buffer := m\<rparr>) = ident c"
  "ident (c\<lparr>recv_cmd_args := q\<rparr>) = ident c" "ident (c\<lparr>n_recv := i\<rparr>) = ident c"
  "ident (c\<lparr>data_sockfd := fd\<rparr>) = ident c" "ident (c\<lparr>pasv_sockfd := fd\<rparr>) = ident c"
  by (auto simp: ident_def)

text \<open>What no command handler touches: the client's identity and the server's globals.\<close>

definition same_server :: "'w ftp \<Rightarrow> 'w ftp \<Rightarrow> bool" where
  "same_server s s' \<longleftrightarrow>
     ident (cl s') = ident (cl s) \<and>
     device_list s' = device_list s \<and> custom_command_dispatchers s' = custom_command_dispatchers s \<and>
     net_memory s' = net_memory s \<and> ftp_initialized s' = ftp_initialized s \<and>
     file_buf_size s' = file_buf_size s \<and> vita_addr s' = vita_addr s \<and> server_thid s' = server_thid s \<and>
     server_sockfd s' = server_sockfd s \<and> server_start_status s' = server_start_status s \<and>
     number_clients s' = number_clients s \<and> next_client_num s' = next_client_num s \<and>
     client_list s' = client_list s \<and> client_list_mtx s' = client_list_mtx s \<and>
     reboot_quiesce_requested s' = reboot_quiesce_requested s \<and>
     netctl_init s' = netctl_init s \<and> net_init s' = net_init s \<and> client_heap s' = client_heap s"

lemma same_server_refl [simp]: "same_server s s"
  by (simp add: same_server_def)

lemma same_server_trans: "same_server s t \<Longrightarrow> same_server t u \<Longrightarrow> same_server s u"
  by (simp add: same_server_def)

text \<open>
  The contract of a sequence of steps of a handler: nothing of the server is touched, the trace only
  grows, and what is unaccounted for changes by \<open>D\<close>, the resources that the handler itself holds
  meanwhile. A handler that \<open>conserves\<close> leaves nothing behind: it neither leaks a descriptor, a
  directory handle or a buffer, nor closes one twice or one that it does not own.
\<close>

definition owes :: "'w ftp \<Rightarrow> (resource \<Rightarrow> int) \<Rightarrow> 'w ftp \<Rightarrow> bool" where
  "owes s D t \<longleftrightarrow> same_server s t \<and> (\<forall>x. unaccounted t x = unaccounted s x + D x) \<and> (\<exists>tr. trace t = trace s @ tr)"

abbreviation conserves :: "'w ftp \<Rightarrow> 'w ftp \<Rightarrow> bool" where
  "conserves s t \<equiv> owes s (\<lambda>_. 0) t"

lemma owes_refl: "(\<And>x. D x = 0) \<Longrightarrow> owes s D s"
  by (simp add: owes_def)

lemma owes_eq: "owes s D t \<Longrightarrow> (\<And>x. D' x = D x) \<Longrightarrow> owes s D' t"
  by (simp add: owes_def)

lemma owes_conserves: "owes s D t \<Longrightarrow> conserves t u \<Longrightarrow> owes s D u"
  by (auto simp: owes_def intro: same_server_trans)

lemma conserves_refl [simp, intro]: "conserves s s"
  by (simp add: owes_refl)

lemma conserves_trans [trans]: "conserves s t \<Longrightarrow> conserves t u \<Longrightarrow> conserves s u"
  by (rule owes_conserves)

lemma conserves_preorder: "reflp (conserves :: 'w ftp \<Rightarrow> _)" "transp (conserves :: 'w ftp \<Rightarrow> _)"
  by (auto intro: reflpI transpI conserves_trans)

section \<open>Calls and client records\<close>

lemma syscall_ftp [simp]:
  "cl (snd (syscall E c s)) = cl s" "transfer_active (snd (syscall E c s)) = transfer_active (s :: 'w ftp)"
  "file_buf_size (snd (syscall E c s)) = file_buf_size (s :: 'w ftp)"
  "same_server s (snd (syscall E c s))"
  by (simp_all add: syscall_def same_server_def split: prod.splits)

lemma exec_ftp [simp]:
  "cl (exec E c s) = cl s" "transfer_active (exec E c s) = transfer_active (s :: 'w ftp)"
  "file_buf_size (exec E c s) = file_buf_size (s :: 'w ftp)"
  "same_server s (exec E c s)"
  by (simp_all add: exec_def)

lemma unaccounted_snd_syscall:
  "unaccounted (snd (syscall E c s)) x = unaccounted s x + delta (c, fst (syscall E c s)) x"
  by (simp add: unaccounted_def)

lemma unaccounted_exec:
  "unaccounted (exec E c s) x = unaccounted s x + delta (c, fst (syscall E c s)) x"
  by (simp add: exec_def unaccounted_snd_syscall)

text \<open>
  A handler meets its contract \<open>ends s Q\<close> if each of its branches conserves the resources and ends in
  a state that satisfies \<open>Q\<close>. The rules of \<open>walks\<close> lead to the ends of the branches. A branch is
  accounted for from its last step backwards: a rule of \<open>pushes\<close> strips the last
  operation off the final state; a rule of \<open>pulls\<close> does so for an operation that returned a result,
  which the equation in its first premise names, and the rules of \<open>swaps\<close>, tried first, do so for the
  operations that leave the account as it is.
\<close>

named_theorems walks \<open>rules that walk through the control flow of a handler\<close>
named_theorems pushes \<open>owes rules for operations that return a state\<close>
named_theorems pulls \<open>owes rules for operations that return a result and a state\<close>
named_theorems swaps \<open>owes rules for operations after which nothing more is owed\<close>

lemma owes_syscall [pulls]:
  assumes "syscall E c t = (r, u)" and "owes s (\<lambda>x. D x - delta (c, r) x) t"
  shows "owes s D u"
proof -
  have "same_server t u" "unaccounted u x = unaccounted t x + delta (c, r) x" for x
    using assms(1) syscall_ftp(4) [of t E c] unaccounted_snd_syscall [of E c t] by simp_all
  with assms(2) syscall_trace [OF assms(1)] show ?thesis
    by (auto simp: owes_def intro: same_server_trans)
qed

lemma owes_neutral: "neutral c \<Longrightarrow> syscall E c t = (r, u) \<Longrightarrow> owes s D t \<Longrightarrow> owes s D u"
  using owes_syscall [of E c t r u s D] by (simp add: neutral_def delta_def)

lemmas owes_neutral_calls [swaps] = neutral_calls [THEN owes_neutral]

lemma owes_exec [pushes]:
  assumes "\<And>r. owes s (\<lambda>x. D x - delta (c, r) x) t"
  shows "owes s D (exec E c t)"
  unfolding exec_def by (rule owes_syscall [OF _ assms]) (rule prod.collapse [symmetric])

lemma owes_set_cl [pushes]:
  assumes "owes s (\<lambda>x. D x + held c' x - held (cl t) x) t" and "ident c' = ident (cl t)"
  shows "owes s D (t\<lparr>cl := c'\<rparr>)"
proof -
  have "same_server t (t\<lparr>cl := c'\<rparr>)" using assms(2) by (simp add: same_server_def)
  with assms(1) show ?thesis
    by (auto simp: owes_def unaccounted_def intro: same_server_trans)
qed

lemma owes_transfer_active [pushes]: "owes s D t \<Longrightarrow> owes s D (t\<lparr>transfer_active := i\<rparr>)"
  by (simp add: owes_def same_server_def)

lemmas owes_refl [pushes]

lemma syscall_ftpD:
  "syscall E c s = (r, s') \<Longrightarrow>
     cl s' = cl (s :: 'w ftp) \<and> transfer_active s' = transfer_active s \<and>
     reboot_quiesce_requested s' = reboot_quiesce_requested s \<and> file_buf_size s' = file_buf_size s \<and>
     vita_addr s' = vita_addr s \<and> device_list s' = device_list s \<and>
     custom_command_dispatchers s' = custom_command_dispatchers s"
  by (auto simp: syscall_def split: prod.splits)

definition ends :: "'w ftp \<Rightarrow> ('w ftp \<Rightarrow> bool) \<Rightarrow> 'w ftp \<Rightarrow> bool" where
  "ends s Q t \<longleftrightarrow> conserves s t \<and> Q t"

lemma endsI: "conserves s t \<Longrightarrow> Q t \<Longrightarrow> ends s Q t"
  by (simp add: ends_def)

lemma ends_case_prod [walks]: "(\<And>r u. m = (r, u) \<Longrightarrow> ends s Q (f r u)) \<Longrightarrow> ends s Q (case m of (r, u) \<Rightarrow> f r u)"
  by (simp split: prod.split)

lemma ends_let [walks]: "ends s Q (f x) \<Longrightarrow> ends s Q (let v = x in f v)"
  by (simp add: Let_def)

lemma ends_if [walks]: "(b \<Longrightarrow> ends s Q t) \<Longrightarrow> (\<not> b \<Longrightarrow> ends s Q u) \<Longrightarrow> ends s Q (if b then t else u)"
  by simp

lemma ends_option [walks]:
  "(x = None \<Longrightarrow> ends s Q t) \<Longrightarrow> (\<And>v. x = Some v \<Longrightarrow> ends s Q (f v)) \<Longrightarrow>
   ends s Q (case x of None \<Rightarrow> t | Some v \<Rightarrow> f v)"
  by (cases x) simp_all

text \<open>The same for a handler that may not return.\<close>

definition may_end :: "'w ftp \<Rightarrow> ('w ftp \<Rightarrow> bool) \<Rightarrow> 'w ftp option \<Rightarrow> bool" where
  "may_end s Q x \<longleftrightarrow> (\<forall>t. x = Some t \<longrightarrow> ends s Q t)"

lemma may_end_Some [walks]: "ends s Q t \<Longrightarrow> may_end s Q (Some t)"
  by (simp add: may_end_def)

lemma may_end_None [walks]: "may_end s Q None"
  by (simp add: may_end_def)

lemma may_end_case_prod [walks]:
  "(\<And>r u. m = (r, u) \<Longrightarrow> may_end s Q (f r u)) \<Longrightarrow> may_end s Q (case m of (r, u) \<Rightarrow> f r u)"
  by (simp split: prod.split)

lemma may_end_let [walks]: "may_end s Q (f x) \<Longrightarrow> may_end s Q (let v = x in f v)"
  by (simp add: Let_def)

lemma may_end_if [walks]:
  "(b \<Longrightarrow> may_end s Q t) \<Longrightarrow> (\<not> b \<Longrightarrow> may_end s Q u) \<Longrightarrow> may_end s Q (if b then t else u)"
  by simp

lemma may_end_option [walks]:
  "(x = None \<Longrightarrow> may_end s Q t) \<Longrightarrow> (\<And>v. x = Some v \<Longrightarrow> may_end s Q (f v)) \<Longrightarrow>
   may_end s Q (case x of None \<Rightarrow> t | Some v \<Rightarrow> f v)"
  by (cases x) simp_all

end
