(* ===== verification/Ftp_Parse.thy ===== *)
theory Ftp_Parse
  imports Prelude
begin

text \<open>
  The bounded parsers of \<^verbatim>\<open>libftpvita/ftpvita_parse.h\<close>: splitting a control line into command and
  arguments, copying one argument, the \<open>REST\<close> offset and the \<open>PORT\<close> tuple. A pointer
  that may be NULL is an \<open>option\<close>; an out-parameter is part of the result, which is
  \<open>None\<close> where the C function returns 0. Each parser is then characterised completely: for
  which texts it succeeds and with which value.
\<close>

section \<open>Definitions\<close>

definition is_blank :: "char \<Rightarrow> bool" where
  "is_blank c \<longleftrightarrow> c = SPC \<or> c = TAB"

definition skip_blanks :: "string \<Rightarrow> string" where
  "skip_blanks = dropWhile is_blank"

text \<open>The loop that copies the command word, one character at a time, within its buffer.\<close>

definition command_char :: "char \<Rightarrow> bool" where
  "command_char c \<longleftrightarrow> c \<noteq> NUL \<and> c \<noteq> SPC \<and> c \<noteq> TAB \<and> c \<noteq> CR \<and> c \<noteq> LF"

function command_loop :: "nat \<Rightarrow> string \<Rightarrow> string \<Rightarrow> (string \<times> string) option" where
  "command_loop command_size command cursor =
     (if command_char (deref cursor)
      then if length command + 1 \<ge> command_size then None
           else command_loop command_size (command @ [deref cursor]) (tl cursor)
      else Some (command, cursor))"
  by pat_completeness auto
termination
  by (relation "measure (\<lambda>(n, c, s). length s)") (auto simp: command_char_def neq_Nil_conv dest!: deref_not_NUL)

declare command_loop.simps [simp del]

definition ftpvita_parse_command_line :: "string option \<Rightarrow> nat \<Rightarrow> (string \<times> string) option" where
  "ftpvita_parse_command_line line command_size =
     (case line of
        None \<Rightarrow> None
      | Some cursor \<Rightarrow>
          if command_size < 2 then None
          else case command_loop command_size [] (skip_blanks cursor) of
                 None \<Rightarrow> None
               | Some (command, cursor) \<Rightarrow>
                   if length command = 0 then None
                   else Some (command, skip_blanks cursor))"

definition argument_char :: "char \<Rightarrow> bool" where
  "argument_char c \<longleftrightarrow> c \<noteq> NUL \<and> c \<noteq> CR \<and> c \<noteq> LF \<and> c \<noteq> TAB"

function argument_loop :: "nat \<Rightarrow> string \<Rightarrow> string \<Rightarrow> string option" where
  "argument_loop output_size output arguments =
     (if argument_char (deref arguments)
      then if length output + 1 \<ge> output_size then None
           else argument_loop output_size (output @ [deref arguments]) (tl arguments)
      else Some output)"
  by pat_completeness auto
termination
  by (relation "measure (\<lambda>(n, c, s). length s)") (auto simp: argument_char_def neq_Nil_conv dest!: deref_not_NUL)

declare argument_loop.simps [simp del]

definition ftpvita_copy_command_argument :: "string option \<Rightarrow> nat \<Rightarrow> string option" where
  "ftpvita_copy_command_argument arguments output_size =
     (case arguments of
        None \<Rightarrow> None
      | Some arguments \<Rightarrow>
          if output_size = 0 then None
          else case argument_loop output_size [] arguments of
                 None \<Rightarrow> None
               | Some output \<Rightarrow> if length output = 0 then None else Some output)"

text \<open>The digits of a \<open>REST\<close> offset, accumulated in an \<open>unsigned int\<close>.\<close>

definition digit_u32 :: "char \<Rightarrow> u32" where
  "digit_u32 c = word_of_nat (digit_val c)"

function rest_loop :: "u32 \<Rightarrow> string \<Rightarrow> (u32 \<times> string) option" where
  "rest_loop val cursor =
     (if is_digit (deref cursor)
      then let digit = digit_u32 (deref cursor) in
           if (0x7fffffff - digit) div 10 < val then None
           else rest_loop (val * 10 + digit) (tl cursor)
      else Some (val, cursor))"
  by pat_completeness auto
termination
  by (relation "measure (\<lambda>(v, s). length s)") (auto simp: neq_Nil_conv dest!: is_digit_facts(1) deref_not_NUL)

declare rest_loop.simps [simp del]

definition at_line_end :: "string \<Rightarrow> bool" where
  "at_line_end cursor \<longleftrightarrow> deref cursor = NUL \<or> deref cursor = CR \<or> deref cursor = LF"

definition ftpvita_parse_rest_offset :: "string option \<Rightarrow> u32 option" where
  "ftpvita_parse_rest_offset arguments =
     (case arguments of
        None \<Rightarrow> None
      | Some cursor \<Rightarrow>
          let cursor = skip_blanks cursor in
          if \<not> is_digit (deref cursor) then None
          else case rest_loop 0 cursor of
                 None \<Rightarrow> None
               | Some (val, cursor) \<Rightarrow>
                   if at_line_end (skip_blanks cursor) then Some val else None)"

text \<open>One number of the \<open>PORT\<close> tuple: value, number of digits and the rest of the text.\<close>

function port_digits :: "u32 \<Rightarrow> u32 \<Rightarrow> string \<Rightarrow> (u32 \<times> u32 \<times> string) option" where
  "port_digits val digits cursor =
     (if is_digit (deref cursor)
      then let val' = val * 10 + digit_u32 (deref cursor) in
           if 255 < val' then None else port_digits val' (digits + 1) (tl cursor)
      else Some (val, digits, cursor))"
  by pat_completeness auto
termination
  by (relation "measure (\<lambda>(v, d, s). length s)") (auto simp: neq_Nil_conv dest!: is_digit_facts(1) deref_not_NUL)

declare port_digits.simps [simp del]

fun port_loop :: "nat \<Rightarrow> u32 list \<Rightarrow> string \<Rightarrow> (u32 list \<times> string) option" where
  "port_loop 0 values cursor = Some (values, cursor)"
| "port_loop (Suc left) values cursor =
     (case port_digits 0 0 cursor of
        None \<Rightarrow> None
      | Some (val, digits, cursor) \<Rightarrow>
          if digits = 0 then None
          else if left \<noteq> 0
            then if deref cursor \<noteq> CHR '','' then None
                 else port_loop left (values @ [val]) (tl cursor)
            else port_loop left (values @ [val]) cursor)"

definition ftpvita_parse_port_tuple :: "string option \<Rightarrow> u32 list option" where
  "ftpvita_parse_port_tuple arguments =
     (case arguments of
        None \<Rightarrow> None
      | Some cursor \<Rightarrow>
          (case port_loop 6 [] cursor of
             None \<Rightarrow> None
           | Some (values, cursor) \<Rightarrow>
               if at_line_end (skip_blanks cursor) then Some values else None))"

section \<open>Command line and argument\<close>

lemma command_char_deref: "command_char (deref s) \<Longrightarrow> \<exists>c t. s = c # t \<and> command_char c"
  by (cases s) (auto simp: command_char_def)

lemma command_loop_eq:
  "command_loop n acc s =
     (let w = takeWhile command_char s in
      if w = [] \<or> length acc + length w < n then Some (acc @ w, dropWhile command_char s) else None)"
proof (induction n acc s rule: command_loop.induct)
  case (1 n acc s)
  show ?case
  proof (cases "command_char (deref s)")
    case True
    then obtain c t where s: "s = c # t" "command_char c"
      using command_char_deref by blast
    show ?thesis
      using "1" s True by (subst command_loop.simps) (auto simp: Let_def)
  next
    case False
    then have "takeWhile command_char s = []" "dropWhile command_char s = s"
      by (cases s; auto)+
    with False show ?thesis by (subst command_loop.simps) simp
  qed
qed

lemma parse_command_line_eq:
  "ftpvita_parse_command_line (Some line) n =
     (let t = dropWhile is_blank line; w = takeWhile command_char t in
      if w \<noteq> [] \<and> length w < n then Some (w, dropWhile is_blank (dropWhile command_char t)) else None)"
  by (auto simp: ftpvita_parse_command_line_def command_loop_eq skip_blanks_def Let_def
      length_greater_0_conv split: if_splits)
     (metis One_nat_def Suc_lessI Suc_1 length_greater_0_conv less_2_cases_iff less_trans not_less_eq)+

lemma argument_loop_eq:
  "argument_loop n acc s =
     (let w = takeWhile argument_char s in
      if w = [] \<or> length acc + length w < n then Some (acc @ w) else None)"
proof (induction n acc s rule: argument_loop.induct)
  case (1 n acc s)
  show ?case
  proof (cases "argument_char (deref s)")
    case True
    then obtain c t where s: "s = c # t" "argument_char c"
      by (cases s) (auto simp: argument_char_def)
    show ?thesis
      using "1" s True by (subst argument_loop.simps) (auto simp: Let_def)
  next
    case False
    then have "takeWhile argument_char s = []" by (cases s) auto
    with False show ?thesis by (subst argument_loop.simps) simp
  qed
qed

lemma copy_command_argument_eq:
  "ftpvita_copy_command_argument (Some s) n =
     (let w = takeWhile argument_char s in if w \<noteq> [] \<and> length w < n then Some w else None)"
  by (auto simp: ftpvita_copy_command_argument_def argument_loop_eq Let_def)

lemma copy_command_argument_SomeD:
  assumes "ftpvita_copy_command_argument a n = Some w"
  shows "w \<noteq> []" "length w < n" "list_all argument_char w" "NUL \<notin> set w"
proof -
  obtain s where a: "a = Some s"
    using assms by (cases a) (auto simp: ftpvita_copy_command_argument_def)
  have w: "w = takeWhile argument_char s" "w \<noteq> []" "length w < n"
    using assms a by (auto simp: copy_command_argument_eq Let_def split: if_splits)
  then show "w \<noteq> []" "length w < n" by simp_all
  show all: "list_all argument_char w"
    using w(1) by (auto simp: list_all_iff dest: set_takeWhileD)
  then show "NUL \<notin> set w"
    by (auto simp: list_all_iff argument_char_def)
qed

section \<open>REST offset\<close>

abbreviation digits_from :: "nat \<Rightarrow> string \<Rightarrow> nat" where
  "digits_from \<equiv> foldl (\<lambda>v c. v * 10 + digit_val c)"

lemma digits_from_ge: "v \<le> digits_from v w"
proof (induction w arbitrary: v)
  case (Cons c w)
  have "v \<le> v * 10 + digit_val c" by simp
  also have "\<dots> \<le> digits_from (v * 10 + digit_val c) w" by (rule Cons.IH)
  finally show ?case by simp
qed simp

lemma unat_digit_u32: "is_digit c \<Longrightarrow> unat (digit_u32 c) = digit_val c"
  using digit_val_less [of c]
  by (simp add: digit_u32_def unat_of_nat take_bit_nat_eq_self)

text \<open>The guard of the loop is exact: it fires if and only if the next value would pass the maximum.\<close>

lemma rest_guard_iff:
  assumes "is_digit c"
  shows "(0x7fffffff - digit_u32 c) div 10 < val \<longleftrightarrow> 0x7fffffff < unat val * 10 + digit_val c"
proof -
  have d: "digit_val c < 10" using assms by (rule digit_val_less)
  have "digit_u32 c \<le> 0x7fffffff"
    using d assms by (simp add: word_le_nat_alt unat_digit_u32)
  then have "unat ((0x7fffffff - digit_u32 c) div 10) = (0x7fffffff - digit_val c) div 10"
    using assms by (simp add: unat_div unat_sub unat_digit_u32)
  then have "(0x7fffffff - digit_u32 c) div 10 < val \<longleftrightarrow> (0x7fffffff - digit_val c) div 10 < unat val"
    by (simp add: word_less_nat_alt)
  also have "\<dots> \<longleftrightarrow> 0x7fffffff < unat val * 10 + digit_val c"
    using d by (auto simp: div_less_iff_less_mult less_diff_conv)
  finally show ?thesis .
qed

lemma rest_step_unat:
  assumes "is_digit c" and "unat val * 10 + digit_val c \<le> 0x7fffffff"
  shows "unat (val * 10 + digit_u32 c) = unat val * 10 + digit_val c"
  using assms by (simp add: unat_word_ariths unat_digit_u32)

lemma rest_loop_eq:
  "unat val \<le> 0x7fffffff \<Longrightarrow> rest_loop val s =
     (let v = digits_from (unat val) (takeWhile is_digit s) in
      if v \<le> 0x7fffffff then Some (word_of_nat v, dropWhile is_digit s) else None)"
proof (induction val s rule: rest_loop.induct)
  case (1 val s)
  show ?case
  proof (cases "is_digit (deref s)")
    case True
    then obtain c t where s: "s = c # t" and c: "is_digit c"
      by (cases s) (auto simp: is_digit_def)
    show ?thesis
    proof (cases "unat val * 10 + digit_val c \<le> 0x7fffffff")
      case fits: True
      with "1.IH" s c have
        "rest_loop (val * 10 + digit_u32 c) t =
          (let v = digits_from (unat val * 10 + digit_val c) (takeWhile is_digit t) in
           if v \<le> 0x7fffffff then Some (word_of_nat v, dropWhile is_digit t) else None)"
        by (simp add: rest_guard_iff rest_step_unat not_less Let_def)
      with fits s c show ?thesis
        by (subst rest_loop.simps) (simp add: rest_guard_iff Let_def)
    next
      case over: False
      then have "\<not> digits_from (unat val * 10 + digit_val c) (takeWhile is_digit t) \<le> 0x7fffffff"
        using digits_from_ge order_trans by blast
      with over s c show ?thesis
        by (subst rest_loop.simps) (simp add: rest_guard_iff Let_def)
    qed
  next
    case False
    then have "takeWhile is_digit s = []" "dropWhile is_digit s = s"
      by (cases s; auto)+
    with False "1.prems" show ?thesis by (subst rest_loop.simps) simp
  qed
qed

lemma parse_rest_offset_eq:
  "ftpvita_parse_rest_offset (Some s) =
     (let t = dropWhile is_blank s; w = takeWhile is_digit t in
      if w \<noteq> [] \<and> dec_value w \<le> 0x7fffffff \<and> at_line_end (dropWhile is_blank (dropWhile is_digit t))
      then Some (word_of_nat (dec_value w)) else None)"
proof -
  have "is_digit (deref t) \<longleftrightarrow> takeWhile is_digit t \<noteq> []" for t
    by (cases t) (auto simp: is_digit_def)
  then show ?thesis
    by (auto simp: ftpvita_parse_rest_offset_def rest_loop_eq skip_blanks_def dec_value_def Let_def)
qed

lemma deref_takeWhile_Nil: "\<not> P (deref t) \<Longrightarrow> takeWhile P t = []"
  by (cases t) auto

text \<open>A printed decimal number followed by a line end is read back by the digit scans.\<close>

lemma scan_dec_nat:
  assumes "t = [] \<or> \<not> is_digit (hd t)"
  shows "dropWhile is_blank (dec_nat n @ t) = dec_nat n @ t"
    and "takeWhile is_digit (dec_nat n @ t) = dec_nat n"
    and "dropWhile is_digit (dec_nat n @ t) = t"
proof -
  obtain c w where w: "dec_nat n = c # w" by (cases "dec_nat n") auto
  then have "is_digit c" using dec_nat_digits [of n] by simp
  with w show "dropWhile is_blank (dec_nat n @ t) = dec_nat n @ t"
    by (simp add: is_blank_def is_digit_facts)
qed (use assms dec_nat_digits in \<open>simp_all add: takeWhile_all_append dropWhile_all_append\<close>)

section \<open>PORT tuple\<close>

lemma port_digits_SomeD:
  "port_digits val digits s = Some (v, d, t) \<Longrightarrow> unat val \<le> 255 \<Longrightarrow> unat v \<le> 255"
proof (induction val digits s rule: port_digits.induct)
  case (1 val digits s)
  then show ?case
    by (subst (asm) (2) port_digits.simps)
       (auto simp: Let_def word_le_nat_alt not_less split: if_splits)
qed

lemma port_digits_eq:
  "unat val \<le> 255 \<Longrightarrow> digits_from (unat val) w \<le> 255 \<Longrightarrow> list_all is_digit w \<Longrightarrow>
   \<not> is_digit (deref t) \<Longrightarrow>
   port_digits val digits (w @ t) = Some (word_of_nat (digits_from (unat val) w), digits + of_nat (length w), t)"
proof (induction w arbitrary: val digits)
  case Nil
  then show ?case by (subst port_digits.simps) simp
next
  case (Cons c w)
  let ?v = "val * 10 + digit_u32 c"
  have small: "unat val * 10 + digit_val c \<le> 255"
    using Cons.prems(2) digits_from_ge [of "unat val * 10 + digit_val c" w] by simp
  with Cons.prems have v: "unat ?v = unat val * 10 + digit_val c"
    by (simp add: rest_step_unat)
  with small have "\<not> 255 < ?v" by (simp add: word_less_nat_alt)
  with Cons v small show ?case
    by (subst port_digits.simps) (simp add: Let_def algebra_simps)
qed

lemma port_loop_bounds:
  "port_loop k vs s = Some (us, t) \<Longrightarrow> list_all (\<lambda>v. unat v \<le> 255) vs \<Longrightarrow>
   length us = length vs + k \<and> list_all (\<lambda>v. unat v \<le> 255) us"
proof (induction k vs s rule: port_loop.induct)
  case (2 left vs s)
  from "2.prems"(1) obtain v d c where pd: "port_digits 0 0 s = Some (v, d, c)"
    by (auto split: option.splits)
  then have "unat v \<le> 255" using port_digits_SomeD [of 0 0 s v d c] by simp
  with "2" pd show ?case by (auto split: if_splits)
qed simp

text \<open>The text of a tuple, as a client prints it.\<close>

fun port_text :: "nat list \<Rightarrow> string" where
  "port_text [] = []"
| "port_text [n] = dec_nat n"
| "port_text (n # ns) = dec_nat n @ CHR '','' # port_text ns"

lemma port_digits_dec_nat:
  assumes "n \<le> 255" and "\<not> is_digit (deref t)"
  shows "\<exists>d. port_digits 0 0 (dec_nat n @ t) = Some (word_of_nat n, of_nat d, t) \<and> d = length (dec_nat n)"
  using port_digits_eq [of 0 "dec_nat n" t 0] assms dec_nat_digits [of n] dec_value_dec_nat [of n]
  by (simp add: dec_value_def)

lemma length_dec_nat_le: "n < 1000 \<Longrightarrow> 0 < length (dec_nat n) \<and> length (dec_nat n) \<le> 3"
  by (subst dec_nat.simps, subst dec_nat.simps, subst dec_nat.simps) auto

lemma port_digits_count_nonzero: "n \<le> 255 \<Longrightarrow> (of_nat (length (dec_nat n)) :: u32) \<noteq> 0"
proof -
  assume "n \<le> 255"
  then have "0 < length (dec_nat n)" "length (dec_nat n) \<le> 3" using length_dec_nat_le [of n] by simp_all
  then have "unat (of_nat (length (dec_nat n)) :: u32) \<noteq> 0" by (simp add: unat_of_nat take_bit_nat_eq_self)
  then show ?thesis by (metis unsigned_0)
qed

lemma port_loop_text:
  "list_all (\<lambda>n. n \<le> 255) ns \<Longrightarrow> ns \<noteq> [] \<Longrightarrow> \<not> is_digit (deref t) \<Longrightarrow>
   port_loop (length ns) vs (port_text ns @ t) = Some (vs @ map word_of_nat ns, t)"
proof (induction ns arbitrary: vs rule: port_text.induct)
  case (2 n)
  then show ?case
    using port_digits_dec_nat [of n t] port_digits_count_nonzero [of n] by auto
next
  case (3 n m ns)
  have "\<not> is_digit (deref (CHR '','' # port_text (m # ns) @ t))"
    by (simp add: is_digit_def)
  with 3 show ?case
    using port_digits_dec_nat [of n "CHR '','' # port_text (m # ns) @ t"] port_digits_count_nonzero [of n]
    by auto
qed simp

section \<open>Properties\<close>

lemma takeWhile_split_unique:
  "list_all P xs \<Longrightarrow> \<not> P (deref ys) \<Longrightarrow> takeWhile P (xs @ ys) = xs \<and> dropWhile P (xs @ ys) = ys"
  by (induction xs) (cases ys; auto)+

lemma dropWhile_stops: "\<not> P NUL \<Longrightarrow> \<not> P (deref (dropWhile P s))"
  by (induction s) auto

lemma takeWhile_list_all: "list_all P (takeWhile P s)"
  by (auto simp: list_all_iff dest: set_takeWhileD)

lemmas scan_ends = dropWhile_stops takeWhile_list_all takeWhile_split_unique

text \<open>C25: the grammar of the REST offset. The parser accepts exactly the texts that consist of
  optional blanks, a non-empty run of digits, optional blanks and a line end, whose value is at
  most 0x7fffffff, and it returns that value, with no wrap-around in the 32-bit accumulator.\<close>

theorem parse_rest_offset_grammar:
  "ftpvita_parse_rest_offset (Some s) = Some v \<longleftrightarrow>
     (\<exists>pre w post t. s = pre @ w @ post @ t \<and> list_all is_blank pre \<and> list_all is_digit w \<and> w \<noteq> [] \<and>
        list_all is_blank post \<and> at_line_end t \<and> dec_value w \<le> 0x7fffffff \<and> unat v = dec_value w)"
  (is "?parse \<longleftrightarrow> ?text")
proof
  assume ?parse
  let ?t = "dropWhile is_blank s"
  let ?u = "dropWhile is_digit ?t"
  have w: "takeWhile is_digit ?t \<noteq> []" "dec_value (takeWhile is_digit ?t) \<le> 0x7fffffff"
    "at_line_end (dropWhile is_blank ?u)" "v = word_of_nat (dec_value (takeWhile is_digit ?t))"
    using \<open>?parse\<close> by (auto simp: parse_rest_offset_eq Let_def split: if_splits)
  have "s = takeWhile is_blank s @ takeWhile is_digit ?t @ takeWhile is_blank ?u @ dropWhile is_blank ?u"
    by simp
  moreover have "unat v = dec_value (takeWhile is_digit ?t)"
    using w(2,4) by (simp add: unat_of_nat take_bit_nat_eq_self)
  ultimately show ?text using w takeWhile_list_all by blast
next
  assume ?text
  then obtain pre w post t where s: "s = pre @ w @ post @ t" and
    p: "list_all is_blank pre" "list_all is_digit w" "w \<noteq> []" "list_all is_blank post" "at_line_end t"
       "dec_value w \<le> 0x7fffffff" "unat v = dec_value w"
    by blast
  have "\<not> is_blank (deref (w @ post @ t))"
    using p(2,3) by (cases w) (auto simp: is_blank_def is_digit_facts)
  moreover have "\<not> is_blank (deref t)" "\<not> is_digit (deref t)"
    using p(5) by (auto simp: at_line_end_def is_blank_def is_digit_def)
  moreover have "\<not> is_digit (deref (post @ t))"
    using p(4) calculation(3) by (cases post) (auto simp: is_blank_def is_digit_def)
  moreover have "v = word_of_nat (dec_value w)"
    by (simp flip: p(7))
  ultimately show ?parse
    using s p by (simp add: parse_rest_offset_eq Let_def takeWhile_split_unique)
qed

text \<open>C28: splitting a control line. Rendering a command word and its arguments as one line and
  parsing it gives the word and the arguments back, and a word that does not fit the command buffer
  with its terminator is refused instead of truncated.\<close>

theorem parse_command_line_roundtrip:
  assumes "list_all is_blank pad" and "list_all command_char c" and "c \<noteq> []" and "\<not> is_blank (deref a)"
  shows "ftpvita_parse_command_line (Some (pad @ c @ SPC # a)) n = (if length c < n then Some (c, a) else None)"
proof -
  have "\<not> is_blank (deref (c @ SPC # a))"
    using assms(2,3) by (cases c) (auto simp: is_blank_def command_char_def)
  then have "dropWhile is_blank (pad @ c @ SPC # a) = c @ SPC # a"
    using takeWhile_split_unique assms(1) by blast
  moreover have "\<not> command_char (deref (SPC # a))" by (simp add: command_char_def)
  then have "takeWhile command_char (c @ SPC # a) = c" "dropWhile command_char (c @ SPC # a) = SPC # a"
    using takeWhile_split_unique assms(2) by blast+
  moreover have "dropWhile is_blank (SPC # a) = a"
    using assms(4) by (cases a) (auto simp: is_blank_def)
  ultimately show ?thesis using assms(3) by (simp add: parse_command_line_eq Let_def)
qed

theorem parse_command_line_roundtrip_witness:
  "ftpvita_parse_command_line (Some ('' '' @ ''REST'' @ SPC # ''1091'' @ EOL)) 16 = Some (''REST'', ''1091'' @ EOL)"
  using parse_command_line_roundtrip [of "'' ''" "''REST''" "''1091'' @ EOL" 16]
  by (simp add: is_blank_def command_char_def)

lemma port_digits_over:
  "unat val \<le> 255 \<Longrightarrow> 255 < digits_from (unat val) w \<Longrightarrow> list_all is_digit w \<Longrightarrow>
   port_digits val digits (w @ t) = None"
proof (induction w arbitrary: val digits)
  case (Cons c w)
  let ?v = "val * 10 + digit_u32 c"
  have d: "digit_val c < 10" using Cons.prems by (simp add: digit_val_less)
  with Cons.prems have v: "unat ?v = unat val * 10 + digit_val c"
    by (simp add: rest_step_unat)
  have "255 < ?v \<longleftrightarrow> 255 < unat val * 10 + digit_val c"
    using v by (simp add: word_less_nat_alt)
  with Cons v show ?case
    by (subst port_digits.simps) (simp add: Let_def)
qed simp

lemma port_digits_dec_over: "255 < n \<Longrightarrow> port_digits 0 0 (dec_nat n @ t) = None"
  using port_digits_over [of 0 "dec_nat n" 0 t] dec_nat_digits [of n] dec_value_dec_nat [of n]
  by (simp add: dec_value_def)

lemma port_loop_text_over:
  "\<not> list_all (\<lambda>n. n \<le> 255) ns \<Longrightarrow> port_loop (length ns) vs (port_text ns @ t) = None"
proof (induction ns arbitrary: vs rule: port_text.induct)
  case (2 n)
  then show ?case using port_digits_dec_over [of n t] by simp
next
  case (3 n m ns)
  have stop: "\<not> is_digit (deref (CHR '','' # port_text (m # ns) @ t))"
    by (simp add: is_digit_def)
  show ?case
  proof (cases "n \<le> 255")
    case True
    with 3 stop show ?thesis
      using port_digits_dec_nat [of n "CHR '','' # port_text (m # ns) @ t"] port_digits_count_nonzero [of n]
      by auto
  next
    case False
    then show ?thesis
      using port_digits_dec_over [of n "CHR '','' # port_text (m # ns) @ t"] by simp
  qed
qed simp

lemma parse_port_text:
  assumes "length ns = 6"
  shows "ftpvita_parse_port_tuple (Some (port_text ns @ EOL)) =
     (if list_all (\<lambda>n. n \<le> 255) ns then Some (map word_of_nat ns) else None)"
proof (cases "list_all (\<lambda>n. n \<le> 255) ns")
  case True
  moreover have "\<not> is_digit (deref EOL)" "at_line_end (skip_blanks EOL)"
    by (simp_all add: EOL_def is_digit_def at_line_end_def skip_blanks_def is_blank_def)
  moreover have "ns \<noteq> []" using assms by auto
  ultimately have "port_loop 6 [] (port_text ns @ EOL) = Some (map word_of_nat ns, EOL)"
    using port_loop_text [of ns EOL "[]"] assms by (simp del: port_loop.simps)
  with True \<open>at_line_end (skip_blanks EOL)\<close> show ?thesis
    by (simp add: ftpvita_parse_port_tuple_def del: port_loop.simps)
next
  case False
  then show ?thesis
    using port_loop_text_over [of ns "[]" EOL] assms by (simp add: ftpvita_parse_port_tuple_def)
qed

text \<open>C29: the PORT tuple. Six numbers printed with commas and a line end are read back exactly when
  every one of them is a byte; a larger number makes the parser refuse the whole tuple.\<close>

theorem parse_port_tuple_roundtrip:
  assumes "length ns = 6"
  shows "ftpvita_parse_port_tuple (Some (port_text ns @ EOL)) =
     (if list_all (\<lambda>n. n \<le> 255) ns then Some (map word_of_nat ns) else None)"
  using assms by (rule parse_port_text)

theorem parse_port_tuple_roundtrip_witness:
  "ftpvita_parse_port_tuple (Some (port_text [192, 168, 0, 155, 5, 57] @ EOL)) = Some [192, 168, 0, 155, 5, 57] \<and>
   ftpvita_parse_port_tuple (Some (port_text [256, 168, 0, 155, 5, 57] @ EOL)) = None"
  using parse_port_tuple_roundtrip [of "[192, 168, 0, 155, 5, 57]"]
    parse_port_tuple_roundtrip [of "[256, 168, 0, 155, 5, 57]"]
  by simp

end
