(* ===== verification/Ftp_Conn.thy ===== *)
theory Ftp_Conn
  imports Ftp_State Ftp_Parse
begin

text \<open>
  Control messages, data connections and the transfer slot: the helpers at the top of
  \<^verbatim>\<open>libftpvita/ftpvita.c\<close> and the PASV and PORT commands. The lemmas show that each of them conserves
  the client's resources, so that a handler built from them is accounted for step by step.
\<close>

unbundle bit_operations_syntax

section \<open>Sending\<close>

definition client_send_ctrl_msg :: "'w env \<Rightarrow> string \<Rightarrow> 'w ftp \<Rightarrow> 'w ftp" where
  "client_send_ctrl_msg E str s = exec E (Net (sceNetSend (ctrl_sockfd (cl s)) str)) s"

partial_function (option) client_send_all ::
  "'w env \<Rightarrow> i32 \<Rightarrow> string \<Rightarrow> u32 \<Rightarrow> 'w ftp \<Rightarrow> (i32 \<times> 'w ftp) option"
where
  "client_send_all E sockfd cursor remaining s =
     (if 0 < remaining
      then let (r, s) = syscall E (Net (sceNetSend sockfd (take (unat remaining) cursor))) s
           in if sint (rc r) \<le> 0 then Some (if neg (rc r) then rc r else - 1, s)
              else client_send_all E sockfd (drop (unat (rc r)) cursor) (remaining - rc r) s
      else Some (0, s))"

definition data_fd :: "ftpvita_client_info \<Rightarrow> i32" where
  "data_fd c = (if data_con_type c = FTP_DATA_CONNECTION_ACTIVE then data_sockfd c else pasv_sockfd c)"

definition client_send_data_msg :: "'w env \<Rightarrow> string \<Rightarrow> 'w ftp \<Rightarrow> (i32 \<times> 'w ftp) option" where
  "client_send_data_msg E str s = client_send_all E (data_fd (cl s)) str (word_of_nat (length str)) s"

definition client_recv_data_raw :: "'w env \<Rightarrow> string \<Rightarrow> u32 \<Rightarrow> 'w ftp \<Rightarrow> ret \<times> string \<times> 'w ftp" where
  "client_recv_data_raw E buf len s =
     (let (r, s) = syscall E (Net (sceNetRecv (data_fd (cl s)) len)) s in (r, fill r len buf, s))"

section \<open>Paths and existence\<close>

definition get_vita_path :: "string \<Rightarrow> path" where
  "get_vita_path p = (if 1 < length p then Some (tl p) else None)"

definition file_exists :: "'w env \<Rightarrow> path \<Rightarrow> 'w ftp \<Rightarrow> bool \<times> 'w ftp" where
  "file_exists E p s = (let (r, s) = syscall E (Io (sceIoGetstat p)) s in (\<not> neg (rc r), s))"

section \<open>Sockets\<close>

text \<open>\<open>close_socket\<close> returns what it leaves in the variable it is given the address of.\<close>

definition close_socket :: "'w env \<Rightarrow> i32 \<Rightarrow> ('w, 'z) sysst_scheme \<Rightarrow> i32 \<times> ('w, 'z) sysst_scheme" where
  "close_socket E sockfd s =
     (if 0 \<le> sint sockfd then (- 1, exec E (Net (sceNetSocketClose sockfd)) s) else (sockfd, s))"

abbreviation SOCKET_IO_TIMEOUT_US :: i32 where
  "SOCKET_IO_TIMEOUT_US \<equiv> 5 * 1000 * 1000"

definition configure_socket_io_timeout :: "'w env \<Rightarrow> i32 \<Rightarrow> 'w ftp \<Rightarrow> i32 \<times> 'w ftp" where
  "configure_socket_io_timeout E sockfd s =
     (if neg sockfd then (- 1, s)
      else let (send_result, s) = syscall E (Net (sceNetSetsockopt sockfd SCE_NET_SO_SNDTIMEO SOCKET_IO_TIMEOUT_US)) s;
               (receive_result, s) = syscall E (Net (sceNetSetsockopt sockfd SCE_NET_SO_RCVTIMEO SOCKET_IO_TIMEOUT_US)) s
           in if neg (rc send_result) \<or> neg (rc receive_result)
              then (if neg (rc send_result) then rc send_result else rc receive_result,
                    s\<lparr>socket_timeout_config_failures := socket_timeout_config_failures s + 1\<rparr>)
              else (0, s))"

definition close_server_socket :: "'w env \<Rightarrow> 'w ftp \<Rightarrow> 'w ftp" where
  "close_server_socket E s =
     (let sockfd = server_sockfd s; s = s\<lparr>server_sockfd := - 1\<rparr>
      in if 0 \<le> sint sockfd then exec E (Net (sceNetSocketClose sockfd)) s else s)"

definition client_begin_transfer :: "'w ftp \<Rightarrow> bool \<times> 'w ftp" where
  "client_begin_transfer s =
     (if reboot_quiesce_requested s \<noteq> 0 then (False, s)
      else if transfer_active s \<noteq> 0 then (False, s)
      else let s = s\<lparr>transfer_active := 1\<rparr>
           in if reboot_quiesce_requested s \<noteq> 0 then (False, s\<lparr>transfer_active := 0\<rparr>) else (True, s))"

definition client_end_transfer :: "'w ftp \<Rightarrow> 'w ftp" where
  "client_end_transfer s = s\<lparr>transfer_active := 0\<rparr>"

definition client_close_data_connection :: "'w env \<Rightarrow> 'w ftp \<Rightarrow> 'w ftp" where
  "client_close_data_connection E s =
     (let (fd, s) = close_socket E (data_sockfd (cl s)) s;
          s = set_cl (\<lambda>c. c\<lparr>data_sockfd := fd\<rparr>) s;
          (fd, s) = close_socket E (pasv_sockfd (cl s)) s;
          s = set_cl (\<lambda>c. c\<lparr>pasv_sockfd := fd\<rparr>) s
      in set_cl (\<lambda>c. c\<lparr>data_con_type := FTP_DATA_CONNECTION_NONE\<rparr>) s)"

definition client_open_data_connection :: "'w env \<Rightarrow> 'w ftp \<Rightarrow> i32 \<times> 'w ftp" where
  "client_open_data_connection E s =
     (if data_con_type (cl s) = FTP_DATA_CONNECTION_NONE \<or> neg (data_sockfd (cl s)) then (- 1, s)
      else if data_con_type (cl s) = FTP_DATA_CONNECTION_ACTIVE
      then let (r, s) = syscall E (Net (sceNetConnect (data_sockfd (cl s)) (data_sockaddr (cl s)))) s in (rc r, s)
      else let (r, s) = syscall E (Net (sceNetAccept (data_sockfd (cl s)))) s;
               s = set_cl (\<lambda>c. c\<lparr>pasv_sockfd := rc r, pasv_sockaddr := sockaddr r\<rparr>) s;
               (_, s) = configure_socket_io_timeout E (pasv_sockfd (cl s)) s
           in (if neg (pasv_sockfd (cl s)) then pasv_sockfd (cl s) else 0, s))"

section \<open>PASV and PORT\<close>

definition data_socket_name :: "ftpvita_client_info \<Rightarrow> string" where
  "data_socket_name c = ''FTPVita_client_'' @ dec_int (sint (num c)) @ ''_data_socket''"

text \<open>Byte \<open>k\<close> of a word, as \<open>(w >> 8 * k) & 0xFF\<close> is printed with \<open>%hhu\<close>.\<close>

definition byte_text :: "nat \<Rightarrow> 'a::len word \<Rightarrow> string" where
  "byte_text k w = dec_nat (unat (drop_bit (8 * k) w AND 0xFF))"

definition pasv_tuple :: "u32 \<Rightarrow> u16 \<Rightarrow> string" where
  "pasv_tuple a p =
     byte_text 0 a @ '','' @ byte_text 1 a @ '','' @ byte_text 2 a @ '','' @ byte_text 3 a @ '','' @
     byte_text 0 p @ '','' @ byte_text 1 p"

definition cmd_PASV_func :: "'w env \<Rightarrow> 'w ftp \<Rightarrow> 'w ftp" where
  "cmd_PASV_func E s =
     (let s = client_close_data_connection E s;
          (r, s) = syscall E (Net (sceNetSocket (data_socket_name (cl s)))) s;
          s = set_cl (\<lambda>c. c\<lparr>data_sockfd := rc r\<rparr>) s
      in if neg (data_sockfd (cl s))
         then client_send_ctrl_msg E (''425 Can't open passive connection.'' @ EOL) s
         else let (_, s) = configure_socket_io_timeout E (data_sockfd (cl s)) s;
                  s = set_cl (\<lambda>c. c\<lparr>data_sockaddr := \<lparr>sin_family = SCE_NET_AF_INET,
                        sin_port = sceNetHtons E 0, sin_addr = sceNetHtonl E 0\<rparr>\<rparr>) s;
                  (r, s) = syscall E (Net (sceNetBind (data_sockfd (cl s)) (data_sockaddr (cl s)))) s
              in if neg (rc r)
                 then let (fd, s) = close_socket E (data_sockfd (cl s)) s; s = set_cl (\<lambda>c. c\<lparr>data_sockfd := fd\<rparr>) s
                      in client_send_ctrl_msg E (''425 Can't bind passive connection.'' @ EOL) s
                 else let (r, s) = syscall E (Net (sceNetListen (data_sockfd (cl s)) 128)) s
                 in if neg (rc r)
                    then let (fd, s) = close_socket E (data_sockfd (cl s)) s; s = set_cl (\<lambda>c. c\<lparr>data_sockfd := fd\<rparr>) s
                         in client_send_ctrl_msg E (''425 Can't listen for passive connection.'' @ EOL) s
                    else let (r, s) = syscall E (Net (sceNetGetsockname (data_sockfd (cl s)))) s
                    in if neg (rc r)
                       then let (fd, s) = close_socket E (data_sockfd (cl s)) s; s = set_cl (\<lambda>c. c\<lparr>data_sockfd := fd\<rparr>) s
                            in client_send_ctrl_msg E (''425 Can't inspect passive connection.'' @ EOL) s
                       else let s = client_send_ctrl_msg E (''227 Entering Passive Mode ('' @
                                      pasv_tuple (vita_addr s) (sin_port (sockaddr r)) @ '')'' @ EOL) s
                            in set_cl (\<lambda>c. c\<lparr>data_con_type := FTP_DATA_CONNECTION_PASSIVE\<rparr>) s)"

text \<open>The dotted form of the first four numbers of the PORT tuple, and the port of the last two.\<close>

definition port_ip_str :: "u32 list \<Rightarrow> string" where
  "port_ip_str t = dec_int (sint (t ! 0)) @ ''.'' @ dec_int (sint (t ! 1)) @ ''.'' @
     dec_int (sint (t ! 2)) @ ''.'' @ dec_int (sint (t ! 3))"

definition cmd_PORT_func :: "'w env \<Rightarrow> 'w ftp \<Rightarrow> 'w ftp" where
  "cmd_PORT_func E s =
     (case ftpvita_parse_port_tuple (recv_cmd_args (cl s)) of
        None \<Rightarrow> client_send_ctrl_msg E (''501 Invalid PORT parameters.'' @ EOL) s
      | Some tuple \<Rightarrow>
          let porthi = tuple ! 4; portlo = tuple ! 5;
              s = client_close_data_connection E s;
              data_port = (ucast (portlo + porthi * 256) :: u16);
              data_addr = sceNetInetPton E (port_ip_str tuple);
              (r, s) = syscall E (Net (sceNetSocket (data_socket_name (cl s)))) s;
              s = set_cl (\<lambda>c. c\<lparr>data_sockfd := rc r\<rparr>) s
          in if neg (data_sockfd (cl s))
             then client_send_ctrl_msg E (''425 Can't open active connection.'' @ EOL) s
             else let (_, s) = configure_socket_io_timeout E (data_sockfd (cl s)) s;
                      s = set_cl (\<lambda>c. c\<lparr>data_sockaddr := \<lparr>sin_family = SCE_NET_AF_INET,
                            sin_port = sceNetHtons E data_port, sin_addr = data_addr\<rparr>,
                            data_con_type := FTP_DATA_CONNECTION_ACTIVE\<rparr>) s
                  in client_send_ctrl_msg E (''200 PORT command successful!'' @ EOL) s)"

section \<open>What the operations keep\<close>

lemma client_send_ctrl_msg_simps [simp]:
  "cl (client_send_ctrl_msg E m s) = cl s"
  "transfer_active (client_send_ctrl_msg E m s) = transfer_active s"
  "file_buf_size (client_send_ctrl_msg E m s) = file_buf_size s"
  by (simp_all add: client_send_ctrl_msg_def)

lemma owes_ctrl [pushes]: "owes s D t \<Longrightarrow> owes s D (client_send_ctrl_msg E m t)"
  unfolding client_send_ctrl_msg_def by (rule owes_exec) simp

lemma client_end_transfer_simps [simp]:
  "cl (client_end_transfer s) = cl s" "transfer_active (client_end_transfer s) = 0"
  by (simp_all add: client_end_transfer_def)

lemma owes_end_transfer [pushes]: "owes s D t \<Longrightarrow> owes s D (client_end_transfer t)"
  unfolding client_end_transfer_def by (rule owes_transfer_active)

lemma client_begin_transfer_eq:
  "client_begin_transfer s =
     (if reboot_quiesce_requested s \<noteq> 0 \<or> transfer_active s \<noteq> 0 then (False, s)
      else (True, s\<lparr>transfer_active := 1\<rparr>))"
  by (auto simp: client_begin_transfer_def)

lemma close_socket_neg: "close_socket E fd t = (fd', u) \<Longrightarrow> neg fd'"
  by (auto simp: close_socket_def not_le split: if_splits)

lemma close_socket_ftpD:
  "close_socket E fd t = (fd', u) \<Longrightarrow>
     cl u = cl (t :: 'w ftp) \<and> transfer_active u = transfer_active t \<and> neg fd'"
  by (auto simp: close_socket_def not_le split: if_splits)

lemma owes_close_socket [pulls]:
  assumes "close_socket E fd t = (fd', u)" and "owes s (\<lambda>x. D x + holds fd x) t"
  shows "owes s D u"
proof (cases "neg fd")
  case True
  with assms show ?thesis by (simp add: close_socket_def)
next
  case False
  then have "u = exec E (Net (sceNetSocketClose fd)) t" using assms(1) by (simp add: close_socket_def)
  moreover have "owes s D (exec E (Net (sceNetSocketClose fd)) t)"
    by (rule owes_exec, rule owes_eq [OF assms(2)]) (use False in \<open>auto simp: delta_def holds_def\<close>)
  ultimately show ?thesis by simp
qed

text \<open>The record a closed data connection leaves.\<close>

definition closed :: "ftpvita_client_info \<Rightarrow> ftpvita_client_info" where
  "closed c = c\<lparr>data_sockfd := (if neg (data_sockfd c) then data_sockfd c else - 1),
     pasv_sockfd := (if neg (pasv_sockfd c) then pasv_sockfd c else - 1),
     data_con_type := FTP_DATA_CONNECTION_NONE\<rparr>"

lemma closed_simps [simp]:
  "neg (data_sockfd (closed c))" "neg (pasv_sockfd (closed c))"
  "data_con_type (closed c) = FTP_DATA_CONNECTION_NONE" "client_idle (closed c)"
  "ctrl_sockfd (closed c) = ctrl_sockfd c" "cur_path (closed c) = cur_path c"
  "restore_point (closed c) = restore_point c" "rename_path (closed c) = rename_path c"
  "num (closed c) = num c" "recv_cmd_args (closed c) = recv_cmd_args c" "quit_requested (closed c) = quit_requested c"
  by (simp_all add: closed_def client_idle_def)

lemma client_close_data_connection_simps [simp]:
  "cl (client_close_data_connection E s) = closed (cl s)"
  "transfer_active (client_close_data_connection E s) = transfer_active s"
  "file_buf_size (client_close_data_connection E s) = file_buf_size s"
  by (auto simp: client_close_data_connection_def closed_def close_socket_def not_le Let_def)

lemma conserves_close: "conserves t (client_close_data_connection E t)"
proof -
  have "ends t (\<lambda>_. True) (client_close_data_connection E t)"
    unfolding client_close_data_connection_def
    by (rule walks | rule endsI | (rule pulls, assumption) | rule pushes | (auto simp: held_def dest!: close_socket_ftpD; fail))+
  then show ?thesis by (simp add: ends_def)
qed

lemma owes_close [pushes]: "owes s D t \<Longrightarrow> owes s D (client_close_data_connection E t)"
  by (rule owes_conserves [OF _ conserves_close])

text \<open>Data messages and timeouts change nothing of the server's state but the trace.\<close>

definition quiet :: "'w ftp \<Rightarrow> 'w ftp \<Rightarrow> bool" where
  "quiet t u \<longleftrightarrow> conserves t u \<and> cl u = cl t \<and> transfer_active u = transfer_active t"

lemma quiet_refl [simp]: "quiet t t"
  by (simp add: quiet_def)

lemma quiet_trans [trans]: "quiet s t \<Longrightarrow> quiet t u \<Longrightarrow> quiet s u"
  by (auto simp: quiet_def intro: conserves_trans)

lemma quiet_syscall: "syscall E c t = (r, u) \<Longrightarrow> neutral c \<Longrightarrow> quiet t u"
  using owes_syscall [of E c t r u t "\<lambda>_. 0"] syscall_ftpD [of E c t r u] by (simp add: quiet_def)

lemma quietD: "quiet t u \<Longrightarrow> cl u = cl t \<and> transfer_active u = transfer_active t \<and> file_buf_size u = file_buf_size t \<and>
    vita_addr u = vita_addr t \<and> device_list u = device_list t \<and> reboot_quiesce_requested u = reboot_quiesce_requested t"
  by (simp add: quiet_def owes_def same_server_def)

lemma client_send_all_quiet: "client_send_all E fd b n t = Some (r, u) \<Longrightarrow> quiet t u"
proof -
  assume run: "client_send_all E fd b n t = Some (r, u)"
  have "quiet t (snd (r, u))"
  proof (rule client_send_all.raw_induct [where P = "\<lambda>E fd b n t y. quiet t (snd y)", OF _ run])
    fix f E fd b n s y
    assume IH: "\<And>E fd b n s y. f E fd b n s = Some y \<Longrightarrow> quiet s (snd y)"
      and eq: "(if 0 < n then let (r, s) = syscall E (Net (sceNetSend fd (take (unat n) b))) s
         in if sint (rc r) \<le> 0 then Some (if neg (rc r) then rc r else - 1, s)
            else f E fd (drop (unat (rc r)) b) (n - rc r) s
       else Some (0, s)) = Some y"
    obtain r s' where call: "syscall E (Net (sceNetSend fd (take (unat n) b))) s = (r, s')" by fastforce
    then have "quiet s s'" by (rule quiet_syscall) simp
    with eq call IH [of E fd "drop (unat (rc r)) b" "n - rc r" s' y] show "quiet s (snd y)"
      by (auto split: if_splits intro: quiet_trans)
  qed
  then show ?thesis by simp
qed

lemma client_send_data_msg_quiet: "client_send_data_msg E m t = Some (r, u) \<Longrightarrow> quiet t u"
  unfolding client_send_data_msg_def by (rule client_send_all_quiet)

text \<open>
  The sender returns, and tells success from failure, as soon as the network never claims to have
  sent more than it was given, which is the documented contract of \<open>sceNetSend\<close>.
\<close>

definition send_bounded :: "'w env \<Rightarrow> bool" where
  "send_bounded E \<longleftrightarrow> (\<forall>fd bs w. 0 < sint (rc (fst (sys E (Net (sceNetSend fd bs)) w))) \<longrightarrow>
     unat (rc (fst (sys E (Net (sceNetSend fd bs)) w))) \<le> length bs)"

lemma client_send_all_returns:
  assumes "send_bounded E"
  shows "length b = unat n \<Longrightarrow> \<exists>r u. client_send_all E fd b n t = Some (r, u) \<and> (r = 0 \<or> neg r)"
proof (induction "unat n" arbitrary: b n t rule: less_induct)
  case less
  obtain r s where call: "syscall E (Net (sceNetSend fd b)) t = (r, s)" by fastforce
  then have bound: "0 < sint (rc r) \<Longrightarrow> unat (rc r) \<le> length b"
    using assms by (auto simp: send_bounded_def syscall_def split: prod.splits dest!: spec [of _ fd] spec [of _ b] spec [of _ "world t"])
  show ?case
  proof (cases "0 < n \<and> 0 < sint (rc r)")
    case True
    then have "rc r \<le> n" using bound less.prems by (simp add: word_le_nat_alt)
    then have "unat (n - rc r) = unat n - unat (rc r)" by (rule word_diff_unat)
    moreover have "0 < unat (rc r)" using True sint_pos_unat by blast
    ultimately have "\<exists>r' u. client_send_all E fd (drop (unat (rc r)) b) (n - rc r) s = Some (r', u) \<and> (r' = 0 \<or> neg r')"
      using less bound True by (intro less.hyps) auto
    with True call less.prems show ?thesis by (subst client_send_all.simps) simp
  next
    case False
    with call less.prems show ?thesis by (subst client_send_all.simps) auto
  qed
qed

lemma configure_quiet: "configure_socket_io_timeout E fd t = (r, u) \<Longrightarrow> quiet t u"
proof -
  have fail: "quiet s t \<Longrightarrow> quiet s (t\<lparr>socket_timeout_config_failures := n\<rparr>)" for s t :: "'a ftp" and n
    by (simp add: quiet_def owes_def same_server_def)
  assume "configure_socket_io_timeout E fd t = (r, u)"
  then show ?thesis
    by (auto simp: configure_socket_io_timeout_def Let_def split: prod.splits if_splits
        dest!: quiet_syscall intro!: fail intro: quiet_trans)
qed

lemma owes_quiet: "quiet t u \<Longrightarrow> owes s D t \<Longrightarrow> owes s D u"
  using owes_conserves by (auto simp: quiet_def)

lemmas owes_configure [swaps] = owes_quiet [OF configure_quiet]

text \<open>Opening the data connection: an accepted socket becomes the client's.\<close>

lemma owes_open [swaps]:
  assumes "client_open_data_connection E t = (r, u)" and "owes s D t" and "neg (pasv_sockfd (cl t))"
  shows "owes s D u"
proof -
  have accept: "conserves t (u\<lparr>cl := (cl t)\<lparr>pasv_sockfd := rc r, pasv_sockaddr := a\<rparr>\<rparr>)"
    if "syscall E (Net (sceNetAccept fd)) t = (r, u)" for fd r u a
    by (rule owes_set_cl, rule owes_syscall [OF that], rule owes_refl)
       (use assms(3) syscall_ftpD [OF that] in \<open>auto simp: held_def delta_def holds_def\<close>)
  have connect: "conserves t u" if "syscall E (Net (sceNetConnect fd a)) t = (r, u)" for fd a r
    using owes_neutral [OF _ that] by simp
  have "conserves t u"
    using assms(1) by (auto simp: client_open_data_connection_def Let_def syscall_ftpD split: prod.splits if_splits
        elim!: owes_configure intro: accept connect)
  then show ?thesis using assms(2) owes_conserves by blast
qed

lemma client_open_data_connectionD:
  "client_open_data_connection E t = (r, u) \<Longrightarrow>
     transfer_active u = transfer_active t \<and> file_buf_size u = file_buf_size t \<and>
     data_sockfd (cl u) = data_sockfd (cl t) \<and> data_con_type (cl u) = data_con_type (cl t) \<and>
     cur_path (cl u) = cur_path (cl t) \<and> restore_point (cl u) = restore_point (cl t) \<and>
     rename_path (cl u) = rename_path (cl t) \<and> quit_requested (cl u) = quit_requested (cl t) \<and>
     ctrl_sockfd (cl u) = ctrl_sockfd (cl t)"
  by (auto simp: client_open_data_connection_def Let_def split: prod.splits if_splits
      dest!: syscall_ftpD configure_quiet quietD)

text \<open>A new data socket goes to a client that has none, and a closed one goes from its client.\<close>

lemma owes_new_socket [swaps]:
  assumes call: "syscall E (Net (sceNetSocket n)) t = (r, u)" and "owes s D t" and "neg (data_sockfd (cl t))"
  shows "owes s D (u\<lparr>cl := (cl u)\<lparr>data_sockfd := rc r\<rparr>\<rparr>)"
  by (rule owes_set_cl, rule owes_syscall [OF call], rule owes_eq [OF assms(2)])
     (use assms(3) syscall_ftpD [OF call] in \<open>auto simp: held_def delta_def holds_def\<close>)

lemma owes_close_data [swaps]:
  assumes "close_socket E (data_sockfd (cl t)) t = (fd, u)" and "owes s D t"
  shows "owes s D (u\<lparr>cl := (cl u)\<lparr>data_sockfd := fd\<rparr>\<rparr>)"
  by (rule owes_set_cl, rule owes_close_socket [OF assms(1)], rule owes_eq [OF assms(2)])
     (use close_socket_ftpD [OF assms(1)] in \<open>simp_all add: held_def\<close>)

lemmas step_facts = syscall_ftpD quietD [OF configure_quiet] close_socket_ftpD

lemma PASV_ends: "ends s (\<lambda>t. client_idle (cl t) \<and> transfer_active t = transfer_active s \<and>
    cur_path (cl t) = cur_path (cl s)) (cmd_PASV_func E s)"
  unfolding cmd_PASV_func_def
  by (rule walks | rule endsI | (rule swaps, assumption) | rule pushes | (auto simp: client_idle_def dest!: step_facts; fail))+

lemma PORT_ends: "client_idle (cl s) \<Longrightarrow> ends s (\<lambda>t. client_idle (cl t) \<and> transfer_active t = transfer_active s \<and>
    cur_path (cl t) = cur_path (cl s)) (cmd_PORT_func E s)"
  unfolding cmd_PORT_func_def
  by (rule walks | rule endsI | (rule swaps, assumption) | rule pushes | (auto simp: client_idle_def dest!: step_facts; fail))+

section \<open>The announced address\<close>

lemma unat_byte: "unat (drop_bit k w AND 0xFF) = unat (w :: 'a::len word) div 2 ^ k mod 256"
proof -
  have "drop_bit k w AND 0xFF = take_bit 8 (drop_bit k w)"
    using take_bit_eq_mask [of 8 "drop_bit k w"] by (simp add: mask_eq_exp_minus_1)
  then have "unat (drop_bit k w AND 0xFF) = take_bit 8 (drop_bit k (unat w))"
    by (simp only: unsigned_take_bit_eq unat_drop_bit_eq)
  then show ?thesis by (simp add: take_bit_eq_mod drop_bit_eq_div)
qed

definition byte_of :: "nat \<Rightarrow> nat \<Rightarrow> nat" where
  "byte_of k n = n div 2 ^ (8 * k) mod 256"

lemma byte_of_le: "byte_of k n \<le> 255"
  using mod_less_divisor [of 256 "n div 2 ^ (8 * k)"] by (simp add: byte_of_def)

lemma pasv_tuple_text:
  "pasv_tuple a p = port_text [byte_of 0 (unat a), byte_of 1 (unat a), byte_of 2 (unat a), byte_of 3 (unat a),
     byte_of 0 (unat p), byte_of 1 (unat p)]"
  using unat_byte [of 0 a] unat_byte [of 0 p]
  by (simp add: pasv_tuple_def byte_text_def unat_byte byte_of_def)

lemma byte_of_split: "n div 2 ^ (8 * k) = byte_of k n + 256 * (n div 2 ^ (8 * Suc k))"
proof -
  have "n div 2 ^ (8 * Suc k) = n div 2 ^ (8 * k) div 256"
    by (simp add: div_mult2_eq [symmetric] power_add mult.commute)
  then show ?thesis by (simp add: byte_of_def)
qed

lemma bytes_2: "n < 2 ^ 16 \<Longrightarrow> n = byte_of 0 n + 2 ^ 8 * byte_of 1 n"
  using byte_of_split [of n 0] byte_of_split [of n 1] by simp

lemma bytes_4: "n < 2 ^ 32 \<Longrightarrow> n = byte_of 0 n + 2 ^ 8 * byte_of 1 n + 2 ^ 16 * byte_of 2 n + 2 ^ 24 * byte_of 3 n"
  using byte_of_split [of n 0] byte_of_split [of n 1] byte_of_split [of n 2] byte_of_split [of n 3] by simp

text \<open>C27: the address a PASV reply announces. A client that reads the six numbers of the reply with
  the grammar of the PORT command gets six bytes, from which the four address bytes reassemble to
  the server's address and the two port bytes to the port the system picked, both in network byte
  order: nothing is truncated, reordered or sign-extended on the way.\<close>

theorem pasv_reply_roundtrip:
  "\<exists>t. ftpvita_parse_port_tuple (Some (pasv_tuple a p @ EOL)) = Some t \<and>
     unat a = unat (t ! 0) + 2 ^ 8 * unat (t ! 1) + 2 ^ 16 * unat (t ! 2) + 2 ^ 24 * unat (t ! 3) \<and>
     unat p = unat (t ! 4) + 2 ^ 8 * unat (t ! 5)"
proof -
  let ?ns = "[byte_of 0 (unat a), byte_of 1 (unat a), byte_of 2 (unat a), byte_of 3 (unat a),
     byte_of 0 (unat p), byte_of 1 (unat p)]"
  have parse: "ftpvita_parse_port_tuple (Some (pasv_tuple a p @ EOL)) = Some (map word_of_nat ?ns)"
    using parse_port_text [of ?ns] by (simp add: pasv_tuple_text byte_of_le)
  have "unat (word_of_nat (byte_of k n) :: u32) = byte_of k n" for k n
    using byte_of_le [of k n] by (simp add: unat_of_nat take_bit_nat_eq_self)
  moreover have "unat a < 2 ^ 32" "unat p < 2 ^ 16" using unsigned_less [of a] unsigned_less [of p] by simp_all
  ultimately show ?thesis
    using bytes_4 [of "unat a"] bytes_2 [of "unat p"] by (intro exI [of _ "map word_of_nat ?ns"] conjI parse) simp_all
qed

end
