(* ===== verification/Ftp_Script.thy ===== *)
theory Ftp_Script
  imports Ftp_State
begin

text \<open>
  A concrete environment on which the model runs: the world is a script, the list of the answers
  that the system will give, in order; when the script is used up every call fails. The session
  starts with an idle client at the root directory.
\<close>

definition answer :: "i32 \<Rightarrow> ret" where
  "answer r = \<lparr>rc = r, off = 0, mem = (\<lambda>_. NUL),
     stat = \<lparr>st_mode = 0, st_size = 0, st_mtime = \<lparr>year = 2024, month = 1, day = 1, hour = 0, minute = 0\<rparr>\<rparr>,
     d_name = [], sockaddr = \<lparr>sin_family = SCE_NET_AF_INET, sin_port = 0, sin_addr = 0\<rparr>,
     datetime = \<lparr>year = 2024, month = 1, day = 1, hour = 0, minute = 0\<rparr>, errno = 0, out = (\<lambda>_. 0)\<rparr>"

text \<open>An answer that stores a text, and one that returns a 64-bit position.\<close>

definition answer_text :: "string \<Rightarrow> ret" where
  "answer_text t = (answer (word_of_nat (length t)))\<lparr>mem := (\<lambda>i. if i < length t then t ! i else NUL)\<rparr>"

definition answer_off :: "i64 \<Rightarrow> ret" where
  "answer_off p = (answer 0)\<lparr>off := p\<rparr>"

definition script_env :: "ret list env" where
  "script_env = \<lparr>sys = (\<lambda>_ w. case w of [] \<Rightarrow> (answer (- 1), []) | r # w \<Rightarrow> (r, w)), PATH_MAX = 1024,
     sceNetHtons = id, sceNetHtonl = id, sceNetInetPton = (\<lambda>_. 0), SCE_S_ISDIR = (\<lambda>m. m = 1),
     SCE_APPMGR_MAX_APP_NAME_LENGTH = 31, SCE_APPMGR_ERROR_INVALID = - 1,
     SCE_NET_ERROR_ENOTINIT = - 2, sizeof_client = 2800, crc32 = (\<lambda>c b. c + word_of_nat (length b))\<rparr>"

definition idle_client :: ftpvita_client_info where
  "idle_client = \<lparr>num = 0, thid = 1, ctrl_sockfd = 7, data_sockfd = - 1, data_con_type = FTP_DATA_CONNECTION_NONE,
     data_sockaddr = \<lparr>sin_family = AF_UNSPEC, sin_port = 0, sin_addr = 0\<rparr>,
     pasv_sockaddr = \<lparr>sin_family = AF_UNSPEC, sin_port = 0, sin_addr = 0\<rparr>, pasv_sockfd = - 1,
     client_addr = \<lparr>sin_family = SCE_NET_AF_INET, sin_port = 0, sin_addr = 0\<rparr>, n_recv = 0, recv_buffer = [],
     recv_cmd_args = None, cur_path = ''/'', rename_path = [], next_client = 0, prev_client = 0, in_client_list = True,
     quit_requested = False, restore_point = 0\<rparr>"

definition script_ftp :: "ret list \<Rightarrow> ftpvita_client_info \<Rightarrow> ret list ftp" where
  "script_ftp w c = \<lparr>world = w, trace = [], device_list = [], custom_command_dispatchers = [], net_memory = 0,
     ftp_initialized = True, file_buf_size = 4, vita_addr = 0, server_thid = 3, server_sockfd = 5,
     server_start_status = 0, number_clients = 1, next_client_num = 1, client_list = 64, client_list_mtx = 2,
     transfer_active = 0, reboot_quiesce_requested = 0, socket_timeout_config_failures = 0, netctl_init = 0, net_init = - 1,
     client_heap = (\<lambda>_. None), cl = c\<rparr>"

lemma script_simps [simp]:
  "PATH_MAX script_env = 1024" "cl (script_ftp w c) = c" "trace (script_ftp w c) = []"
  "file_buf_size (script_ftp w c) = 4" "transfer_active (script_ftp w c) = 0"
  "reboot_quiesce_requested (script_ftp w c) = 0" "world (script_ftp w c) = w"
  by (simp_all add: script_env_def script_ftp_def)

lemma script_syscall:
  "syscall script_env c s = (case world s of [] \<Rightarrow> (answer (- 1), s\<lparr>world := [], trace := trace s @ [(c, answer (- 1))]\<rparr>)
     | r # w \<Rightarrow> (r, s\<lparr>world := w, trace := trace s @ [(c, r)]\<rparr>))"
  by (simp add: syscall_def script_env_def split: list.split)

text \<open>Each answer other than the failure after the last one shortens the list.\<close>

lemma script_falls: "length (snd (sys script_env c w)) \<le> length w \<and>
    (rc (fst (sys script_env c w)) \<noteq> - 1 \<longrightarrow> length (snd (sys script_env c w)) < length w)"
  by (cases w) (simp_all add: script_env_def answer_def)

end
