(* ===== verification/Ftp_Path.thy ===== *)
theory Ftp_Path
  imports Ftp_Conn Ftp_Script
begin

text \<open>
  Path handling of \<^verbatim>\<open>libftpvita/ftpvita.c\<close>: the parent directory, the path a command argument
  denotes, and the commands that move the current directory. A device path is written as
  \<open>/ux0:/data\<close> towards the client; \<open>get_vita_path\<close> drops the leading slash.

  A handler returns \<open>None\<close> where the C code would dereference a null pointer; the lemmas show that
  the invariant \<open>cwd_ok\<close> of the current directory excludes it.
\<close>

section \<open>Definitions\<close>

definition strrchr :: "string \<Rightarrow> char \<Rightarrow> nat option" where
  "strrchr s c = (if c \<in> set s then Some (length s - Suc (length (takeWhile (\<lambda>x. x \<noteq> c) (rev s)))) else None)"

abbreviation SLASH :: char where "SLASH \<equiv> CHR ''/''"

definition path_is_at_root :: "string \<Rightarrow> bool" where
  "path_is_at_root path = (case strrchr path SLASH of None \<Rightarrow> False | Some i \<Rightarrow> int i = int (length path) - 1)"

definition dir_up :: "string \<Rightarrow> string option" where
  "dir_up path =
     (if length path = 1 then Some ''/''
      else if path_is_at_root path then Some ''/''
      else case strrchr path SLASH of
             None \<Rightarrow> None
           | Some pch \<Rightarrow>
               let path = take pch path
               in Some (if strrchr path SLASH = Some 0 then path @ ''/'' else path))"

definition cmd_CDUP_func :: "'w env \<Rightarrow> 'w ftp \<Rightarrow> 'w ftp option" where
  "cmd_CDUP_func E s =
     (case dir_up (cur_path (cl s)) of
        None \<Rightarrow> None
      | Some p \<Rightarrow> Some (client_send_ctrl_msg E (''200 Command okay.'' @ EOL) (set_cl (\<lambda>c. c\<lparr>cur_path := p\<rparr>) s)))"

text \<open>The path that CWD tries: absolute, or relative to the current directory.\<close>

definition cwd_target :: "'w env \<Rightarrow> string \<Rightarrow> string \<Rightarrow> string" where
  "cwd_target E cur cmd_path =
     (let tmp_path = (if deref cmd_path = SLASH then cmd_path
                      else if path_is_at_root cur then snprintf (PATH_MAX E) (cur @ cmd_path)
                      else snprintf (PATH_MAX E) (cur @ ''/'' @ cmd_path))
      in if strrchr tmp_path SLASH = Some 0 then tmp_path @ ''/'' else tmp_path)"

definition cmd_CWD_func :: "'w env \<Rightarrow> 'w ftp \<Rightarrow> 'w ftp option" where
  "cmd_CWD_func E s =
     (case ftpvita_copy_command_argument (recv_cmd_args (cl s)) (PATH_MAX E) of
        None \<Rightarrow> Some (client_send_ctrl_msg E (''500 Syntax error, command unrecognized.'' @ EOL) s)
      | Some cmd_path \<Rightarrow>
          let done = (\<lambda>s. client_send_ctrl_msg E (''250 Requested file action okay, completed.'' @ EOL) s)
          in if cmd_path = ''/'' then Some (done (set_cl (\<lambda>c. c\<lparr>cur_path := cmd_path\<rparr>) s))
             else if cmd_path = ''..''
             then (case dir_up (cur_path (cl s)) of
                     None \<Rightarrow> None
                   | Some p \<Rightarrow> Some (done (set_cl (\<lambda>c. c\<lparr>cur_path := p\<rparr>) s)))
             else let tmp_path = cwd_target E (cur_path (cl s)) cmd_path
                  in if tmp_path \<noteq> ''/''
                     then let (pd, s) = syscall E (Io (sceIoDopen (get_vita_path tmp_path))) s
                          in if neg (rc pd)
                             then Some (client_send_ctrl_msg E (''550 Invalid directory.'' @ EOL) s)
                             else let s = exec E (Io (sceIoDclose (rc pd))) s
                                  in Some (done (set_cl (\<lambda>c. c\<lparr>cur_path := tmp_path\<rparr>) s))
                     else Some (done (set_cl (\<lambda>c. c\<lparr>cur_path := tmp_path\<rparr>) s)))"

definition cmd_PWD_func :: "'w env \<Rightarrow> 'w ftp \<Rightarrow> 'w ftp" where
  "cmd_PWD_func E s =
     client_send_ctrl_msg E (snprintf (PATH_MAX E)
       (''257 '' @ [QUOTE] @ cur_path (cl s) @ [QUOTE] @ '' is the current directory.'' @ EOL)) s"

definition gen_ftp_fullpath :: "'w env \<Rightarrow> ftpvita_client_info \<Rightarrow> nat \<Rightarrow> string" where
  "gen_ftp_fullpath E client path_size =
     (case ftpvita_copy_command_argument (recv_cmd_args client) (PATH_MAX E) of
        None \<Rightarrow> []
      | Some cmd_path \<Rightarrow>
          if deref cmd_path = SLASH then snprintf path_size cmd_path
          else if 5 \<le> length cmd_path \<and> cmd_path ! 3 = CHR '':'' \<and> cmd_path ! 4 = SLASH
          then snprintf path_size (''/'' @ cmd_path)
          else snprintf path_size (cur_path client @ ''/'' @ cmd_path))"

section \<open>The last slash\<close>

lemma strrchr_None: "strrchr s c = None \<longleftrightarrow> c \<notin> set s"
  by (simp add: strrchr_def)

lemma strrchr_append: "c \<notin> set t \<Longrightarrow> strrchr (s @ c # t) c = Some (length s)"
  by (simp add: strrchr_def takeWhile_append)

lemma strrchr_split: "strrchr s c = Some i \<longleftrightarrow> (\<exists>t. s = take i s @ c # t \<and> c \<notin> set t \<and> i < length s)"
proof
  assume "strrchr s c = Some i"
  then have "c \<in> set s" by (simp add: strrchr_def split: if_splits)
  then obtain u t where s: "s = u @ c # t" "c \<notin> set t" by (metis split_list_last)
  with \<open>strrchr s c = Some i\<close> have "i = length u" by (simp add: strrchr_append)
  with s show "\<exists>t. s = take i s @ c # t \<and> c \<notin> set t \<and> i < length s" by (intro exI [of _ t]) simp
next
  assume "\<exists>t. s = take i s @ c # t \<and> c \<notin> set t \<and> i < length s"
  then obtain t where "s = take i s @ c # t" "c \<notin> set t" "i < length s" by blast
  with strrchr_append [of c t "take i s"] show "strrchr s c = Some i" by simp
qed

lemma path_is_at_root_iff: "path_is_at_root p \<longleftrightarrow> p \<noteq> [] \<and> last p = SLASH"
proof (cases "strrchr p SLASH")
  case None
  then have "SLASH \<notin> set p" by (simp add: strrchr_None)
  then show ?thesis using None by (simp add: path_is_at_root_def) (metis last_in_set)
next
  case (Some i)
  then obtain t where t: "p = take i p @ SLASH # t" "SLASH \<notin> set t" "i < length p"
    unfolding strrchr_split by blast
  then have "length p = i + Suc (length t)" by (metis length_append length_take list.size(4) min_absorb2 less_imp_le_nat add_Suc_right add.right_neutral)
  moreover have "last p = last (SLASH # t)" using t(1) by (metis last_append list.distinct(1))
  moreover have "t \<noteq> [] \<Longrightarrow> last t \<noteq> SLASH" using t(2) last_in_set by metis
  ultimately show ?thesis using Some t by (cases t) (auto simp: path_is_at_root_def)
qed

section \<open>The invariant of the current directory\<close>

text \<open>
  The current directory is absolute, fits its array with its terminator, and has no slash but the
  first only if it is the root: a bare device \<open>/ux0:\<close> always gets its slash.
\<close>

definition cwd_ok :: "'w env \<Rightarrow> string \<Rightarrow> bool" where
  "cwd_ok E p \<longleftrightarrow> p \<noteq> [] \<and> hd p = SLASH \<and> NUL \<notin> set p \<and> length p < PATH_MAX E \<and>
     (strrchr p SLASH = Some 0 \<longrightarrow> p = ''/'')"

lemma cwd_ok_root: "1 < PATH_MAX E \<Longrightarrow> cwd_ok E ''/''"
  by (simp add: cwd_ok_def)

lemma strrchr_snoc [simp]: "strrchr (s @ [c]) c = Some (length s)"
  using strrchr_append [of c "[]" s] by simp

lemma dir_up_cwd_ok:
  assumes "cwd_ok E p"
  shows "\<exists>q. dir_up p = Some q \<and> cwd_ok E q"
proof (cases "length p = 1 \<or> path_is_at_root p")
  case True
  moreover have "1 < PATH_MAX E" using assms by (cases p) (auto simp: cwd_ok_def)
  ultimately show ?thesis using cwd_ok_root [of E] by (auto simp: dir_up_def)
next
  case False
  have p: "p \<noteq> []" "hd p = SLASH" "NUL \<notin> set p" "length p < PATH_MAX E" using assms by (auto simp: cwd_ok_def)
  then obtain i where i: "strrchr p SLASH = Some i"
    by (metis list.set_sel(1) not_None_eq strrchr_None)
  then have "i < length p" by (auto simp: strrchr_split)
  have "0 < i" using assms False i by (cases i) (auto simp: cwd_ok_def)
  have "i + 1 < length p"
    using False i \<open>i < length p\<close> by (simp add: path_is_at_root_def)
  let ?q = "take i p"
  have q: "?q \<noteq> []" "hd ?q = SLASH" "NUL \<notin> set ?q" "length ?q + 1 < PATH_MAX E"
    using p \<open>0 < i\<close> \<open>i + 1 < length p\<close> by (auto dest: in_set_takeD simp: hd_take)
  have "dir_up p = Some (if strrchr ?q SLASH = Some 0 then ?q @ ''/'' else ?q)"
    using False i by (simp add: dir_up_def Let_def)
  then show ?thesis using q p(1) \<open>0 < i\<close> by (auto simp: cwd_ok_def)
qed

lemma snprintf_append_prefix: "length s < n \<Longrightarrow> snprintf n (s @ t) = s @ take (n - 1 - length s) t"
  by (simp add: snprintf_def)

lemma strrchr_ge: "c \<in> set t \<Longrightarrow> \<exists>i. strrchr (s @ t) c = Some i \<and> length s \<le> i"
proof -
  assume "c \<in> set t"
  then obtain u v where "t = u @ c # v" "c \<notin> set v" by (metis split_list_last)
  then show ?thesis using strrchr_append [of c v "s @ u"] by simp
qed

lemma cwd_target_ok:
  assumes cur: "cwd_ok E cur" and cmd: "cmd \<noteq> []" "NUL \<notin> set cmd" "length cmd < 512" and max: "514 \<le> PATH_MAX E"
  shows "cwd_ok E (cwd_target E cur cmd)"
proof -
  define tmp where "tmp = (if deref cmd = SLASH then cmd
    else if path_is_at_root cur then snprintf (PATH_MAX E) (cur @ cmd)
    else snprintf (PATH_MAX E) (cur @ ''/'' @ cmd))"
  have c: "cur \<noteq> []" "hd cur = SLASH" "NUL \<notin> set cur" "length cur < PATH_MAX E"
    "strrchr cur SLASH = Some 0 \<Longrightarrow> cur = ''/''" using cur by (auto simp: cwd_ok_def)
  have "cwd_target E cur cmd = (if strrchr tmp SLASH = Some 0 then tmp @ ''/'' else tmp)"
    by (simp add: cwd_target_def tmp_def Let_def)
  moreover have "tmp \<noteq> []" "hd tmp = SLASH" "NUL \<notin> set tmp" "length tmp < PATH_MAX E"
    using c cmd max by (auto simp: tmp_def snprintf_append_prefix dest: in_set_takeD split: if_splits) (cases cmd; simp)
  moreover have "length tmp + 1 < PATH_MAX E" if "strrchr tmp SLASH = Some 0"
  proof -
    consider "deref cmd = SLASH" | "deref cmd \<noteq> SLASH" "path_is_at_root cur" | "deref cmd \<noteq> SLASH" "\<not> path_is_at_root cur"
      by blast
    then show ?thesis
    proof cases
      case 1
      then show ?thesis using cmd max by (simp add: tmp_def)
    next
      case 2
      then obtain d where d: "cur = d @ [SLASH]" by (metis append_butlast_last_id path_is_at_root_iff)
      then have "tmp = d @ SLASH # take (PATH_MAX E - 1 - length cur) cmd"
        using snprintf_append_prefix [of "d @ [SLASH]" "PATH_MAX E" cmd] 2 c(4) by (simp add: tmp_def)
      moreover have "d = []" using strrchr_ge [of SLASH "SLASH # take (PATH_MAX E - 1 - length cur) cmd" d] that calculation by auto
      ultimately show ?thesis using cmd max d by simp
    next
      case 3
      then have eq: "tmp = cur @ take (PATH_MAX E - 1 - length cur) (''/'' @ cmd)"
        using c(4) by (simp add: tmp_def snprintf_append_prefix)
      then have "PATH_MAX E - 1 - length cur = 0"
        using strrchr_ge [of SLASH "take (PATH_MAX E - 1 - length cur) (''/'' @ cmd)" cur] that c(1) eq
        by (cases "PATH_MAX E - 1 - length cur") auto
      then have "tmp = cur" using eq by simp
      with that c(5) 3 show ?thesis by (simp add: path_is_at_root_iff)
    qed
  qed
  ultimately show ?thesis by (auto simp: cwd_ok_def)
qed

section \<open>The commands\<close>

text \<open>
  What a client record satisfies between two commands, and the contract of every command handler:
  the record is in such a state again, the transfer slot is as it was found, and the resources are
  conserved.
\<close>

definition client_ok :: "'w env \<Rightarrow> ftpvita_client_info \<Rightarrow> bool" where
  "client_ok E c \<longleftrightarrow> client_idle c \<and> cwd_ok E (cur_path c)"

definition command_post :: "'w env \<Rightarrow> 'w ftp \<Rightarrow> 'w ftp \<Rightarrow> bool" where
  "command_post E s t \<longleftrightarrow> client_ok E (cl t) \<and> transfer_active t = transfer_active s"

definition arg_fits :: "ftpvita_client_info \<Rightarrow> bool" where
  "arg_fits c \<longleftrightarrow> (case recv_cmd_args c of None \<Rightarrow> True | Some a \<Rightarrow> length a < 512)"

lemma copy_command_argument_fits:
  "ftpvita_copy_command_argument (recv_cmd_args c) n = Some w \<Longrightarrow> arg_fits c \<Longrightarrow> length w < 512"
  using length_takeWhile_le [of argument_char]
  by (cases "recv_cmd_args c")
     (auto simp: arg_fits_def copy_command_argument_eq Let_def ftpvita_copy_command_argument_def [of None]
       split: if_splits intro: le_less_trans)

lemma client_ok_set_cwd: "client_ok E c \<Longrightarrow> cwd_ok E p \<Longrightarrow> client_ok E (c\<lparr>cur_path := p\<rparr>)"
  by (simp add: client_ok_def client_idle_def)

lemma CDUP_ends:
  assumes "client_ok E (cl s)"
  shows "\<exists>t. cmd_CDUP_func E s = Some t \<and> ends s (command_post E s) t"
proof -
  obtain p where p: "dir_up (cur_path (cl s)) = Some p" "cwd_ok E p"
    using assms dir_up_cwd_ok by (auto simp: client_ok_def)
  have "ends s (command_post E s)
      (client_send_ctrl_msg E (''200 Command okay.'' @ EOL) (set_cl (\<lambda>c. c\<lparr>cur_path := p\<rparr>) s))"
    by (rule endsI, (rule pushes)+) (simp_all add: command_post_def client_ok_set_cwd assms p)
  with p show ?thesis by (simp add: cmd_CDUP_func_def)
qed

lemma CWD_ends:
  assumes "client_ok E (cl s)" and "arg_fits (cl s)" and "514 \<le> PATH_MAX E"
  shows "may_end s (command_post E s) (cmd_CWD_func E s) \<and> cmd_CWD_func E s \<noteq> None"
proof
  have up: "cwd_ok E p" if "dir_up (cur_path (cl s)) = Some p" for p
    using dir_up_cwd_ok [of E "cur_path (cl s)"] assms(1) that by (auto simp: client_ok_def)
  have target: "cwd_ok E (cwd_target E (cur_path (cl s)) a)"
    if "ftpvita_copy_command_argument (recv_cmd_args (cl s)) (PATH_MAX E) = Some a" for a
    using cwd_target_ok [of E "cur_path (cl s)" a] copy_command_argument_SomeD [OF that]
      copy_command_argument_fits [OF that] assms by (auto simp: client_ok_def)
  have root: "cwd_ok E ''/''" using assms(3) by (simp add: cwd_ok_root)
  show "may_end s (command_post E s) (cmd_CWD_func E s)"
    unfolding cmd_CWD_func_def
    by (rule walks | rule endsI | (rule swaps, assumption) | (rule pulls, assumption) | rule pushes
        | (auto simp: delta_def command_post_def assms dest!: syscall_ftpD intro!: client_ok_set_cwd up target root; fail))+
  show "cmd_CWD_func E s \<noteq> None"
    using dir_up_cwd_ok [of E "cur_path (cl s)"] assms(1)
    by (auto simp: cmd_CWD_func_def client_ok_def Let_def split: option.split prod.split)
qed

lemma PWD_ends: "client_ok E (cl s) \<Longrightarrow> ends s (command_post E s) (cmd_PWD_func E s)"
  unfolding cmd_PWD_func_def by (rule endsI) (simp_all add: pushes command_post_def)

section \<open>Properties\<close>

text \<open>C21: changing directories is safe. Whatever the argument, CWD and CDUP return (the null pointer that
  the search for the last slash could give is never used) and leave a current directory that is absolute,
  has its device slash and fits its array with the terminator, also after the appended slash, although the
  relative path is built by truncation and the slash by an unchecked \<open>strcat\<close>.\<close>

theorem cwd_commands_keep_path:
  assumes "client_ok E (cl s)" and "arg_fits (cl s)" and "514 \<le> PATH_MAX E"
  shows "(\<exists>t. cmd_CWD_func E s = Some t \<and> cwd_ok E (cur_path (cl t))) \<and>
     (\<exists>t. cmd_CDUP_func E s = Some t \<and> cwd_ok E (cur_path (cl t)))"
  using CWD_ends [OF assms] CDUP_ends [OF assms(1)]
  by (auto simp: may_end_def ends_def command_post_def client_ok_def)

lemma idle_client_ok: "client_ok script_env idle_client"
  by (simp add: client_ok_def client_idle_def cwd_ok_def idle_client_def)

lemma client_ok_args: "client_ok E (c\<lparr>recv_cmd_args := a\<rparr>) \<longleftrightarrow> client_ok E c"
  by (simp add: client_ok_def client_idle_def)

theorem cwd_commands_keep_path_witness:
  "\<exists>t. cmd_CWD_func script_env (script_ftp [answer 9] (idle_client\<lparr>recv_cmd_args := Some ''ux0:''\<rparr>)) = Some t \<and>
     cwd_ok script_env (cur_path (cl t))"
  using cwd_commands_keep_path [of script_env "script_ftp [answer 9] (idle_client\<lparr>recv_cmd_args := Some ''ux0:''\<rparr>)"]
  by (simp add: idle_client_ok client_ok_args arg_fits_def)



text \<open>Device names of four letters are not recognised. A path on the USB, internal or memory-card device
  given without the leading slash is looked up below the current directory, although the device is in the
  list that the plugin registers, because only the position of the colon of a three-letter name is tested.\<close>

theorem four_letter_device_is_relative:
  "gen_ftp_fullpath script_env (idle_client\<lparr>cur_path := ''/ux0:/data'', recv_cmd_args := Some ''uma0:/f''\<rparr>) 1024
     = ''/ux0:/data/uma0:/f'' \<and>
   gen_ftp_fullpath script_env (idle_client\<lparr>cur_path := ''/ux0:/data'', recv_cmd_args := Some ''ur0:/f''\<rparr>) 1024
     = ''/ur0:/f''"
  by (simp add: gen_ftp_fullpath_def copy_command_argument_eq argument_char_def snprintf_def idle_client_def)

text \<open>The parent of a directory given with a trailing slash. CWD accepts \<open>/ux0:/data/\<close> as it stands; the
  parent directory computed from it is the list of devices, while the parent of \<open>/ux0:/data\<close> is the root of
  the device.\<close>

theorem trailing_slash_parent:
  "dir_up ''/ux0:/data/'' = Some ''/'' \<and> dir_up ''/ux0:/data'' = Some ''/ux0:/'' \<and>
   cwd_target script_env ''/'' ''/ux0:/data/'' = ''/ux0:/data/''"
  by (simp add: dir_up_def path_is_at_root_iff strrchr_def cwd_target_def)

end
