(* ===== verification/Ftp_Retr.thy ===== *)
theory Ftp_Retr
  imports Prelude
begin

text \<open>
  The bounded download loop of \<^verbatim>\<open>libftpvita/ftpvita_retr.h\<close>. The callbacks are parameters, as in
  the C code: a callback takes the context and returns its C result, what it wrote through its
  pointer arguments, and the new context. Counters keep their C widths: \<open>remaining\<close> and the
  byte counts are 64-bit words, \<open>requested\<close>, \<open>position\<close> and \<open>pending\<close> 32-bit words.

  The locale \<open>retr_io\<close> states what the comment of the source calls the byte-count contract of the
  callbacks, with two ghost histories: the bytes the reader produced and the bytes the sender
  accepted. Everything the loop guarantees is proved there once; \<open>Ftp_Transfer\<close> interprets it on
  the callbacks of \<^verbatim>\<open>ftpvita.c\<close>.
\<close>

section \<open>Definitions\<close>

record ftpvita_retr_result =
  retr_stage :: string
  retr_code :: i32
  retr_net_errno :: i32
  retr_bytes_read :: u64
  retr_bytes_sent :: u64

type_synonym ('c, 'b) retr_read_fn = "'c \<Rightarrow> 'b list \<Rightarrow> u32 \<Rightarrow> i32 \<times> 'b list \<times> 'c"
type_synonym ('c, 'b) retr_send_fn = "'c \<Rightarrow> 'b list \<Rightarrow> u32 \<Rightarrow> i32 \<times> i32 \<times> 'c"

text \<open>The inner loop: send the bytes of the buffer from \<open>position\<close> on, until all are sent.\<close>

function retr_send_loop ::
  "('c, 'b) retr_send_fn \<Rightarrow> 'b list \<Rightarrow> u32 \<Rightarrow> u32 \<Rightarrow> ftpvita_retr_result \<Rightarrow> 'c \<Rightarrow> bool \<times> ftpvita_retr_result \<times> 'c"
where
  "retr_send_loop send_data buffer bytes_read position result context =
     (if position < bytes_read
      then let pending = bytes_read - position;
               (sent, net_error, context) = send_data context (drop (unat position) buffer) pending
           in if sint sent \<le> 0 \<or> pending < sent
              then (False, result\<lparr>retr_stage := ''send'', retr_code := sent,
                      retr_net_errno := (if neg sent then net_error else 0)\<rparr>, context)
              else retr_send_loop send_data buffer bytes_read (position + sent)
                     (result\<lparr>retr_bytes_sent := retr_bytes_sent result + ucast sent\<rparr>) context
      else (True, result, context))"
  by pat_completeness auto

lemma position_progress:
  fixes position bytes_read sent :: u32
  assumes "position < bytes_read" and "0 < sint sent" and "sent \<le> bytes_read - position"
  shows "unat (position + sent) = unat position + unat sent" "position + sent \<le> bytes_read"
    "unat bytes_read - unat (position + sent) < unat bytes_read - unat position"
proof -
  show eq: "unat (position + sent) = unat position + unat sent" and le: "position + sent \<le> bytes_read"
    using word_add_unat_le [of position bytes_read sent] assms by simp_all
  from assms(2) have "0 < unat sent" by (rule sint_pos_unat)
  with eq assms(1) show "unat bytes_read - unat (position + sent) < unat bytes_read - unat position"
    by (simp add: word_less_nat_alt)
qed

termination retr_send_loop
  by (relation "measure (\<lambda>(f, b, n, p, r, c). unat n - unat p)")
     (auto intro!: position_progress(3) simp: not_less not_le)

declare retr_send_loop.simps [simp del]

text \<open>The outer loop: read a block, then send it.\<close>

definition retr_requested :: "u64 \<Rightarrow> u32 \<Rightarrow> u32" where
  "retr_requested remaining buffer_size =
     (if remaining < ucast buffer_size then ucast remaining else buffer_size)"

function retr_loop ::
  "('c, 'b) retr_read_fn \<Rightarrow> ('c, 'b) retr_send_fn \<Rightarrow> u32 \<Rightarrow> u64 \<Rightarrow> 'b list \<Rightarrow> ftpvita_retr_result \<Rightarrow> 'c
    \<Rightarrow> ftpvita_retr_result \<times> 'c"
where
  "retr_loop read_file send_data buffer_size remaining buffer result context =
     (if 0 < remaining
      then let requested = retr_requested remaining buffer_size;
               (bytes_read, buffer, context) = read_file context buffer requested
           in if sint bytes_read \<le> 0 \<or> requested < bytes_read
              then (result\<lparr>retr_stage := (if bytes_read = 0 then ''early-eof'' else ''read''),
                      retr_code := bytes_read\<rparr>, context)
              else (case retr_send_loop send_data buffer bytes_read 0
                           (result\<lparr>retr_bytes_read := retr_bytes_read result + ucast bytes_read\<rparr>) context of
                      (all_sent, result, context) \<Rightarrow>
                        if all_sent
                        then retr_loop read_file send_data buffer_size (remaining - ucast bytes_read)
                               buffer result context
                        else (result, context))
      else (result, context))"
  by pat_completeness auto

lemma retr_requested_le: "ucast (retr_requested remaining buffer_size) \<le> remaining"
proof (cases "remaining < ucast buffer_size")
  case True
  then have lt: "unat remaining < unat buffer_size"
    by (simp add: word_less_nat_alt unat_ucast_up)
  also have "\<dots> < 2 ^ 32" using unsigned_less [of buffer_size] by simp
  finally have "unat (ucast remaining :: u32) = unat remaining"
    by (simp add: unsigned_ucast_eq take_bit_nat_eq_self)
  with True show ?thesis by (simp add: retr_requested_def word_le_nat_alt unat_ucast_up)
next
  case False
  then show ?thesis by (simp add: retr_requested_def)
qed

lemma remaining_progress:
  assumes "0 < sint bytes_read" and "bytes_read \<le> retr_requested remaining buffer_size"
  shows "unat (remaining - ucast bytes_read) = unat remaining - unat bytes_read"
    "unat bytes_read \<le> unat remaining" "0 < unat bytes_read"
proof -
  have "unat bytes_read \<le> unat (retr_requested remaining buffer_size)"
    using assms(2) by (simp add: word_le_nat_alt)
  also have "\<dots> \<le> unat remaining"
    using retr_requested_le [of remaining buffer_size] by (simp add: word_le_nat_alt unat_ucast_up)
  finally show le: "unat bytes_read \<le> unat remaining" .
  then show "unat (remaining - ucast bytes_read) = unat remaining - unat bytes_read"
    by (simp add: word_diff_unat word_le_nat_alt unat_ucast_up)
  show "0 < unat bytes_read" using assms(1) by (rule sint_pos_unat)
qed

lemma remaining_decreases:
  "0 < sint bytes_read \<Longrightarrow> bytes_read \<le> retr_requested remaining buffer_size \<Longrightarrow>
   unat (remaining - ucast bytes_read) < unat remaining"
  using remaining_progress [of bytes_read remaining buffer_size] by simp

termination retr_loop
  by (relation "measure (\<lambda>(r, s, n, rem, b, res, c). unat rem)")
     (auto intro!: remaining_decreases simp: not_less not_le)

declare retr_loop.simps [simp del]

definition ftpvita_retr_extent ::
  "('c, 'b) retr_read_fn option \<Rightarrow> ('c, 'b) retr_send_fn option \<Rightarrow> 'b list option \<Rightarrow> u32 \<Rightarrow> u64 \<Rightarrow> u64 \<Rightarrow> 'c
    \<Rightarrow> ftpvita_retr_result \<times> 'c"
where
  "ftpvita_retr_extent read_file send_data buffer buffer_size start extent context =
     (let result = \<lparr>retr_stage = ''complete'', retr_code = 0, retr_net_errno = 0,
                    retr_bytes_read = 0, retr_bytes_sent = 0\<rparr> in
      case (read_file, send_data, buffer) of
        (Some read_file, Some send_data, Some buffer) \<Rightarrow>
          if buffer_size = 0 \<or> INT_MAX < buffer_size \<or> extent < start
          then (result\<lparr>retr_stage := ''range''\<rparr>, context)
          else retr_loop read_file send_data buffer_size (extent - start) buffer result context
      | _ \<Rightarrow> (result\<lparr>retr_stage := ''range''\<rparr>, context))"

section \<open>The contract of the callbacks, and what the loop makes of it\<close>

text \<open>A C byte count that a callback may return for a request of \<open>n\<close> bytes.\<close>

abbreviation good_count :: "i32 \<Rightarrow> u32 \<Rightarrow> bool" where
  "good_count r n \<equiv> 0 < sint r \<and> r \<le> n"

text \<open>
  How the results of the loop account for a transfer of at most \<open>rem\<close> bytes, of which \<open>T\<close>
  were read and \<open>k\<close> delivered; blocks that were read and sent completely compose.
\<close>

definition retr_outcome ::
  "nat \<Rightarrow> ftpvita_retr_result \<Rightarrow> ftpvita_retr_result \<Rightarrow> 'b list \<Rightarrow> nat \<Rightarrow> bool"
where
  "retr_outcome rem result result' T k \<longleftrightarrow>
     k \<le> length T \<and> length T \<le> rem \<and>
     retr_bytes_read result' = retr_bytes_read result + word_of_nat (length T) \<and>
     retr_bytes_sent result' = retr_bytes_sent result + word_of_nat k \<and>
     (retr_stage result' = retr_stage result \<and> length T = rem \<and> k = length T \<or>
      retr_stage result' \<in> {''read'', ''early-eof''} \<and> length T < rem \<and> k = length T \<or>
      retr_stage result' = ''send'' \<and> k < length T)"

lemma retr_outcome_block:
  assumes "retr_outcome (rem - length B) res result' T j" and "length B \<le> rem"
    and "retr_stage res = retr_stage result"
    and "retr_bytes_read res = retr_bytes_read result + word_of_nat (length B)"
    and "retr_bytes_sent res = retr_bytes_sent result + word_of_nat (length B)"
  shows "retr_outcome rem result result' (B @ T) (length B + j)"
  using assms by (auto simp: retr_outcome_def)

lemma retr_requested_le_size: "retr_requested remaining buffer_size \<le> buffer_size"
proof (cases "remaining < ucast buffer_size")
  case True
  then have "unat remaining < unat buffer_size" by (simp add: word_less_nat_alt unat_ucast_up)
  then have "unat (ucast remaining :: u32) \<le> unat buffer_size"
    by (simp add: unsigned_ucast_eq take_bit_nat_def)
  with True show ?thesis by (simp add: retr_requested_def word_le_nat_alt)
qed (simp add: retr_requested_def)

locale retr_io =
  fixes read_file :: "('c, 'b) retr_read_fn"
    and send_data :: "('c, 'b) retr_send_fn"
    and taken :: "'c \<Rightarrow> 'b list"
    and delivered :: "'c \<Rightarrow> 'b list"
  assumes read_law: "read_file c buffer n = (r, buffer', c') \<Longrightarrow> unat n \<le> length buffer \<Longrightarrow>
      length buffer' = length buffer \<and> delivered c' = delivered c \<and>
      taken c' = taken c @ (if good_count r n then take (unat r) buffer' else [])"
    and send_law: "send_data c bytes n = (r, e, c') \<Longrightarrow> unat n \<le> length bytes \<Longrightarrow>
      taken c' = taken c \<and>
      delivered c' = delivered c @ (if good_count r n then take (unat r) bytes else [])"
begin

text \<open>Outcome of the inner loop: \<open>k\<close> bytes from \<open>position\<close> on were delivered, counted once each.\<close>

lemma send_loop_outcome:
  "retr_send_loop send_data buffer bytes_read position result c = (ok, result', c') \<Longrightarrow>
   position \<le> bytes_read \<Longrightarrow> unat bytes_read \<le> length buffer \<Longrightarrow>
   \<exists>k \<le> unat bytes_read - unat position.
     taken c' = taken c \<and> delivered c' = delivered c @ take k (drop (unat position) buffer) \<and>
     retr_bytes_sent result' = retr_bytes_sent result + word_of_nat k \<and>
     retr_bytes_read result' = retr_bytes_read result \<and>
     (if ok then k = unat bytes_read - unat position \<and> retr_stage result' = retr_stage result
      else k < unat bytes_read - unat position \<and> retr_stage result' = ''send'')"
proof (induction "unat bytes_read - unat position" arbitrary: position result c rule: less_induct)
  case less
  show ?case
  proof (cases "position < bytes_read")
    case False
    with less.prems(1,2) show ?thesis
      by (subst (asm) retr_send_loop.simps) (auto intro!: exI [of _ 0] simp: word_le_nat_alt word_less_nat_alt)
  next
    case True
    obtain sent e d where call: "send_data c (drop (unat position) buffer) (bytes_read - position) = (sent, e, d)"
      using prod_cases3 by blast
    have pos: "unat position < unat bytes_read" using True by (simp add: word_less_nat_alt)
    have "unat (bytes_read - position) \<le> length (drop (unat position) buffer)"
      using less.prems(2,3) by (simp add: word_diff_unat)
    note law = send_law [OF call this]
    show ?thesis
    proof (cases "good_count sent (bytes_read - position)")
      case False
      with less.prems(1) True call law pos show ?thesis
        by (subst (asm) retr_send_loop.simps) (auto intro!: exI [of _ 0] simp: not_less not_le split: if_splits)
    next
      case good: True
      note step = position_progress [OF True, of sent]
      let ?r = "result\<lparr>retr_bytes_sent := retr_bytes_sent result + ucast sent\<rparr>"
      have rest: "retr_send_loop send_data buffer bytes_read (position + sent) ?r d = (ok, result', c')"
        using less.prems(1) True call good leD [of sent "bytes_read - position"]
        by (subst (asm) retr_send_loop.simps) simp
      obtain k where k: "k \<le> unat bytes_read - unat (position + sent)"
        "taken c' = taken d" "delivered c' = delivered d @ take k (drop (unat (position + sent)) buffer)"
        "retr_bytes_sent result' = retr_bytes_sent ?r + word_of_nat k"
        "retr_bytes_read result' = retr_bytes_read ?r"
        "if ok then k = unat bytes_read - unat (position + sent) \<and> retr_stage result' = retr_stage ?r
         else k < unat bytes_read - unat (position + sent) \<and> retr_stage result' = ''send''"
        using less.hyps [OF _ rest] step good less.prems(3) by blast
      have sum: "unat (position + sent) = unat position + unat sent" using step good by blast
      have le: "unat position + unat sent \<le> unat bytes_read"
        using step(2) good sum by (simp add: word_le_nat_alt)
      have "take (unat sent) (drop (unat position) buffer) @ take k (drop (unat (position + sent)) buffer)
            = take (unat sent + k) (drop (unat position) buffer)"
        by (simp add: sum take_add add.commute [of "unat sent" "unat position"])
      then show ?thesis
        using k law good sum le by (intro exI [of _ "unat sent + k"]) (auto split: if_splits)
    qed
  qed
qed

text \<open>One block of the outer loop, from a buffer that holds \<open>r\<close> freshly read bytes.\<close>

lemma send_block:
  assumes inner: "retr_send_loop send_data buf r 0
      (result\<lparr>retr_bytes_read := retr_bytes_read result + ucast r\<rparr>) d = (ok, res, e)"
    and rbuf: "unat r \<le> length buf" and good: "good_count r (retr_requested remaining buffer_size)"
  shows "taken e = taken d"
    and "\<not> ok \<Longrightarrow> \<exists>k. retr_outcome (unat remaining) result res (take (unat r) buf) k \<and>
           delivered e = delivered d @ take k (take (unat r) buf)"
    and "ok \<Longrightarrow> delivered e = delivered d @ take (unat r) buf"
    and "ok \<Longrightarrow> retr_outcome (unat (remaining - ucast r)) res result' T j \<Longrightarrow>
           retr_outcome (unat remaining) result result' (take (unat r) buf @ T) (unat r + j)"
proof -
  note step = remaining_progress [of r remaining buffer_size]
  obtain k where k: "k \<le> unat r" "taken e = taken d" "delivered e = delivered d @ take k buf"
    "retr_bytes_sent res = retr_bytes_sent result + word_of_nat k"
    "retr_bytes_read res = retr_bytes_read result + word_of_nat (unat r)"
    "if ok then k = unat r \<and> retr_stage res = retr_stage result else k < unat r \<and> retr_stage res = ''send''"
    using send_loop_outcome [OF inner _ rbuf] by (cases ok) auto
  show "taken e = taken d" by (rule k)
  show "ok \<Longrightarrow> delivered e = delivered d @ take (unat r) buf" using k by simp
  show "\<exists>k. retr_outcome (unat remaining) result res (take (unat r) buf) k \<and>
      delivered e = delivered d @ take k (take (unat r) buf)" if "\<not> ok"
    using that k step good rbuf by (intro exI [of _ k]) (auto simp: retr_outcome_def min_def)
  show "retr_outcome (unat remaining) result result' (take (unat r) buf @ T) (unat r + j)"
    if "ok" "retr_outcome (unat (remaining - ucast r)) res result' T j"
    using retr_outcome_block [of "unat remaining" "take (unat r) buf" res result' T j result] that k step good rbuf
    by (simp add: min_absorb2)
qed

text \<open>
  Outcome of the whole loop: of the bytes \<open>T\<close> that were read the first \<open>k\<close> were delivered,
  and both counters moved by exactly these amounts.
\<close>

lemma retr_loop_outcome:
  "retr_loop read_file send_data buffer_size remaining buffer result c = (result', c') \<Longrightarrow>
   unat buffer_size \<le> length buffer \<Longrightarrow>
   \<exists>T k. retr_outcome (unat remaining) result result' T k \<and>
     taken c' = taken c @ T \<and> delivered c' = delivered c @ take k T"
proof (induction "unat remaining" arbitrary: remaining buffer result c rule: less_induct)
  case less
  show ?case
  proof (cases "0 < remaining")
    case False
    with less.prems(1) show ?thesis
      by (subst (asm) retr_loop.simps) (auto intro!: exI [of _ "[]"] simp: word_gt_0 retr_outcome_def)
  next
    case True
    let ?n = "retr_requested remaining buffer_size"
    obtain r buf d where call: "read_file c buffer ?n = (r, buf, d)"
      using prod_cases3 by blast
    have n: "unat ?n \<le> length buffer"
      using less.prems(2) retr_requested_le_size [of remaining buffer_size] by (simp add: word_le_nat_alt)
    note law = read_law [OF call n]
    show ?thesis
    proof (cases "good_count r ?n")
      case False
      with less.prems(1) True call law show ?thesis
        by (subst (asm) retr_loop.simps)
           (auto intro!: exI [of _ "[]"] simp: word_gt_0 unat_gt_0 retr_outcome_def split: if_splits)
    next
      case good: True
      let ?r = "result\<lparr>retr_bytes_read := retr_bytes_read result + ucast r\<rparr>"
      obtain ok res e where inner: "retr_send_loop send_data buf r 0 ?r d = (ok, res, e)"
        using prod_cases3 by blast
      have rbuf: "unat r \<le> length buf" using good law n by (simp add: word_le_nat_alt)
      note block = send_block [OF inner rbuf, of remaining buffer_size]
      have unfolded: "(if ok then retr_loop read_file send_data buffer_size (remaining - ucast r) buf res e
          else (res, e)) = (result', c')"
        using less.prems(1) True call good inner leD [of r ?n] by (subst (asm) retr_loop.simps) simp
      show ?thesis
      proof (cases ok)
        case False
        with unfolded block law good show ?thesis by fastforce
      next
        case ok: True
        have "unat (remaining - ucast r) < unat remaining" and "unat buffer_size \<le> length buf"
          using good law less.prems(2) by (auto intro!: remaining_decreases)
        from less.hyps [OF this(1) _ this(2), of res e] unfolded ok obtain T j where
          "retr_outcome (unat (remaining - ucast r)) res result' T j"
          "taken c' = taken e @ T" "delivered c' = delivered e @ take j T" by auto
        with block ok good law rbuf show ?thesis
          by (intro exI [of _ "take (unat r) buf @ T"] exI [of _ "unat r + j"]) auto
      qed
    qed
  qed
qed

text \<open>
  The contract of a download: what was delivered is a prefix of what was read, the two counters are
  exact, nothing beyond the extent is read, and \<open>complete\<close> is reported if and only if the whole
  extent was delivered.
\<close>

lemma extent_outcome:
  assumes run: "ftpvita_retr_extent (Some read_file) (Some send_data) (Some buffer) buffer_size start extent c
      = (result, c')"
    and buf: "unat buffer_size \<le> length buffer"
  obtains T where "taken c' = taken c @ T"
    and "delivered c' = delivered c @ take (unat (retr_bytes_sent result)) T"
    and "unat (retr_bytes_read result) = length T"
    and "unat (retr_bytes_sent result) \<le> length T"
    and "length T \<le> unat extent - unat start"
    and "retr_stage result = ''complete'' \<longleftrightarrow>
      buffer_size \<noteq> 0 \<and> buffer_size \<le> INT_MAX \<and> start \<le> extent \<and>
      unat (retr_bytes_sent result) = unat extent - unat start"
proof (cases "buffer_size = 0 \<or> INT_MAX < buffer_size \<or> extent < start")
  case True
  with run have "c' = c" "retr_stage result = ''range''" "retr_bytes_read result = 0" "retr_bytes_sent result = 0"
    by (auto simp: ftpvita_retr_extent_def)
  with True show ?thesis by (intro that [of "[]"]) (auto simp: not_le)
next
  case False
  let ?init = "\<lparr>retr_stage = ''complete'', retr_code = 0, retr_net_errno = 0,
    retr_bytes_read = 0, retr_bytes_sent = 0\<rparr>"
  from False run have loop: "retr_loop read_file send_data buffer_size (extent - start) buffer ?init c = (result, c')"
    by (simp add: ftpvita_retr_extent_def)
  from retr_loop_outcome [OF loop buf] obtain T k where
    o: "retr_outcome (unat (extent - start)) ?init result T k"
    and h: "taken c' = taken c @ T" "delivered c' = delivered c @ take k T"
    by blast
  have rem: "unat (extent - start) = unat extent - unat start"
    using False by (simp add: word_diff_unat not_less)
  have "length T < 2 ^ 64"
    using o unat_u64_less [of "extent - start"] by (auto simp: retr_outcome_def)
  with o have "unat (retr_bytes_read result) = length T" "unat (retr_bytes_sent result) = k"
    by (simp_all add: retr_outcome_def unat_of_nat take_bit_nat_eq_self)
  with o h rem False show ?thesis
    by (intro that [of T]) (auto simp: retr_outcome_def not_less)
qed

end

section \<open>What the callbacks keep, the loop keeps\<close>

lemma retr_send_loop_rel:
  assumes R: "reflp R" "transp R"
    and send: "\<And>c b n r e c'. send_data c b n = (r, e, c') \<Longrightarrow> R c c'"
  shows "retr_send_loop send_data buffer bytes_read position result c = (ok, result', c') \<Longrightarrow> R c c'"
proof (induction "unat bytes_read - unat position" arbitrary: position result c rule: less_induct)
  case less
  obtain sent e d where call: "send_data c (drop (unat position) buffer) (bytes_read - position) = (sent, e, d)"
    using prod_cases3 by blast
  show ?case
  proof (cases "position < bytes_read \<and> good_count sent (bytes_read - position)")
    case True
    with less.prems call have "retr_send_loop send_data buffer bytes_read (position + sent)
        (result\<lparr>retr_bytes_sent := retr_bytes_sent result + ucast sent\<rparr>) d = (ok, result', c')"
      using leD [of sent "bytes_read - position"] by (subst (asm) retr_send_loop.simps) simp
    with less.hyps True have "R d c'" using position_progress(3) by blast
    with send [OF call] R(2) show ?thesis by (meson transpE)
  next
    case False
    with less.prems call send [OF call] R(1) show ?thesis
      by (subst (asm) retr_send_loop.simps) (auto simp: not_le reflpD split: if_splits)
  qed
qed

lemma retr_loop_rel:
  assumes R: "reflp R" "transp R"
    and read: "\<And>c b n r b' c'. read_file c b n = (r, b', c') \<Longrightarrow> R c c'"
    and send: "\<And>c b n r e c'. send_data c b n = (r, e, c') \<Longrightarrow> R c c'"
  shows "retr_loop read_file send_data buffer_size remaining buffer result c = (result', c') \<Longrightarrow> R c c'"
proof (induction "unat remaining" arbitrary: remaining buffer result c rule: less_induct)
  case less
  let ?n = "retr_requested remaining buffer_size"
  obtain r buf d where call: "read_file c buffer ?n = (r, buf, d)" using prod_cases3 by blast
  obtain ok res e where inner: "retr_send_loop send_data buf r 0
      (result\<lparr>retr_bytes_read := retr_bytes_read result + ucast r\<rparr>) d = (ok, res, e)"
    using prod_cases3 by blast
  have "R c d" "R d e"
    using read [OF call] retr_send_loop_rel [where R = R, OF R send inner] by auto
  then have "R c e" using R(2) by (meson transpE)
  show ?case
  proof (cases "0 < remaining \<and> good_count r ?n")
    case True
    then have unfolded: "(if ok then retr_loop read_file send_data buffer_size (remaining - ucast r) buf res e
        else (res, e)) = (result', c')"
      using less.prems call inner leD [of r ?n] by (subst (asm) retr_loop.simps) simp
    have "R e c'"
      using unfolded less.hyps [OF remaining_decreases] True R(1) by (cases ok) (auto simp: reflpD)
    with \<open>R c e\<close> R(2) show ?thesis by (meson transpE)
  next
    case False
    with less.prems call \<open>R c d\<close> R(1) show ?thesis
      by (subst (asm) retr_loop.simps) (auto simp: not_le not_less reflpD split: if_splits)
  qed
qed

lemma retr_extent_rel:
  assumes "reflp R" "transp R"
    and "\<And>c b n r b' c'. read_file c b n = (r, b', c') \<Longrightarrow> R c c'"
    and "\<And>c b n r e c'. send_data c b n = (r, e, c') \<Longrightarrow> R c c'"
    and "ftpvita_retr_extent (Some read_file) (Some send_data) (Some buffer) buffer_size start extent c = (result, c')"
  shows "R c c'"
  using assms(5) retr_loop_rel [where R = R and read_file = read_file and send_data = send_data, OF assms(1-4)]
  by (auto simp: ftpvita_retr_extent_def Let_def reflpD [OF assms(1)] split: if_splits)

end
