(* ===== verification/Ftp_Store.thy ===== *)
theory Ftp_Store
  imports Ftp_Retr
begin

text \<open>
  The upload loop of \<^verbatim>\<open>libftpvita/ftpvita_store.h\<close>: receive until the peer closes, write every
  received byte before the next receive. The C loop has no bound of its own (it runs as long as the
  peer sends), so the model is a \<open>partial_function\<close> whose value \<open>None\<close> means that it does not
  return; \<open>stream_returns\<close> shows when it does.

  The inner loop that completes short writes is the same loop as the sender's of \<open>Ftp_Retr\<close>; the
  locale \<open>store_io\<close> therefore contains the contract \<open>retr_io\<close> as a sublocale and takes
  the accounting of short writes from there.
\<close>

section \<open>Definitions\<close>

record ftpvita_store_result =
  store_stage :: string
  store_code :: i32
  store_net_errno :: i32
  store_bytes_received :: u64
  store_bytes_written :: u64

type_synonym ('c, 'b) store_receive_fn = "'c \<Rightarrow> 'b list \<Rightarrow> u32 \<Rightarrow> i32 \<times> i32 \<times> 'b list \<times> 'c"
type_synonym ('c, 'b) store_write_fn = "'c \<Rightarrow> 'b list \<Rightarrow> u32 \<Rightarrow> i32 \<times> 'c"

function store_write_loop ::
  "('c, 'b) store_write_fn \<Rightarrow> 'b list \<Rightarrow> u32 \<Rightarrow> u32 \<Rightarrow> ftpvita_store_result \<Rightarrow> 'c
    \<Rightarrow> bool \<times> ftpvita_store_result \<times> 'c"
where
  "store_write_loop write_file buffer received position result context =
     (if position < received
      then let pending = received - position;
               (written, context) = write_file context (drop (unat position) buffer) pending
           in if sint written \<le> 0 \<or> pending < written
              then (False, result\<lparr>store_stage := ''write'', store_code := written\<rparr>, context)
              else store_write_loop write_file buffer received (position + written)
                     (result\<lparr>store_bytes_written := store_bytes_written result + ucast written\<rparr>) context
      else (True, result, context))"
  by pat_completeness auto
termination
  by (relation "measure (\<lambda>(f, b, n, p, r, c). unat n - unat p)")
     (auto intro!: position_progress(3) simp: not_less not_le)

declare store_write_loop.simps [simp del]

partial_function (option) store_loop ::
  "('c, 'b) store_receive_fn \<Rightarrow> ('c, 'b) store_write_fn \<Rightarrow> u32 \<Rightarrow> 'b list \<Rightarrow> ftpvita_store_result \<Rightarrow> 'c
    \<Rightarrow> (ftpvita_store_result \<times> 'c) option"
where
  "store_loop receive_data write_file buffer_size buffer result context =
     (let (received, net_error, buffer, context) = receive_data context buffer buffer_size in
      if received = 0 then Some (result, context)
      else if neg received \<or> buffer_size < received
      then Some (result\<lparr>store_stage := ''receive'', store_code := received,
                   store_net_errno := (if neg received then net_error else 0)\<rparr>, context)
      else case store_write_loop write_file buffer received 0
                  (result\<lparr>store_bytes_received := store_bytes_received result + ucast received\<rparr>) context of
             (all_written, result, context) \<Rightarrow>
               if all_written then store_loop receive_data write_file buffer_size buffer result context
               else Some (result, context))"

definition ftpvita_store_stream ::
  "('c, 'b) store_receive_fn option \<Rightarrow> ('c, 'b) store_write_fn option \<Rightarrow> 'b list option \<Rightarrow> u32 \<Rightarrow> 'c
    \<Rightarrow> (ftpvita_store_result \<times> 'c) option"
where
  "ftpvita_store_stream receive_data write_file buffer buffer_size context =
     (let result = \<lparr>store_stage = ''complete'', store_code = 0, store_net_errno = 0,
                    store_bytes_received = 0, store_bytes_written = 0\<rparr> in
      case (receive_data, write_file, buffer) of
        (Some receive_data, Some write_file, Some buffer) \<Rightarrow>
          if buffer_size = 0 \<or> INT_MAX < buffer_size
          then Some (result\<lparr>store_stage := ''range''\<rparr>, context)
          else store_loop receive_data write_file buffer_size buffer result context
      | _ \<Rightarrow> Some (result\<lparr>store_stage := ''range''\<rparr>, context))"

section \<open>Short writes are short sends\<close>

text \<open>The sender callback that a writer callback amounts to: it reports no network error.\<close>

definition as_send :: "('c, 'b) store_write_fn \<Rightarrow> ('c, 'b) retr_send_fn" where
  "as_send write_file context bytes n = (case write_file context bytes n of (w, context) \<Rightarrow> (w, 0, context))"

lemma as_send_eq: "write_file c b n = (w, d) \<Longrightarrow> as_send write_file c b n = (w, 0, d)"
  by (simp add: as_send_def)

definition as_store_result :: "ftpvita_store_result \<Rightarrow> ftpvita_retr_result \<Rightarrow> bool \<Rightarrow> ftpvita_store_result" where
  "as_store_result result r ok =
     (if ok then result else result\<lparr>store_stage := ''write'', store_code := retr_code r\<rparr>)
     \<lparr>store_bytes_written := retr_bytes_sent r\<rparr>"

lemma store_write_loop_as_send:
  "retr_bytes_sent r = store_bytes_written result \<Longrightarrow>
   store_write_loop write_file buffer received position result c =
     (case retr_send_loop (as_send write_file) buffer received position r c of
        (ok, r', c') \<Rightarrow> (ok, as_store_result result r' ok, c'))"
proof (induction write_file buffer received position result c arbitrary: r rule: store_write_loop.induct)
  case (1 write_file buffer received position result c)
  obtain w d where w: "write_file c (drop (unat position) buffer) (received - position) = (w, d)"
    by fastforce
  show ?case
  proof (cases "position < received \<and> good_count w (received - position)")
    case True
    let ?r = "r\<lparr>retr_bytes_sent := retr_bytes_sent r + ucast w\<rparr>"
    have "as_store_result (result\<lparr>store_bytes_written := x\<rparr>) r' ok = as_store_result result r' ok" for x r' ok
      by (simp add: as_store_result_def)
    with "1.IH" [of _ _ w d ?r] "1.prems" True w show ?thesis
      by (subst store_write_loop.simps, subst retr_send_loop.simps)
         (auto simp: as_send_eq not_less not_le)
  next
    case False
    with "1.prems" w show ?thesis
      by (subst store_write_loop.simps, subst retr_send_loop.simps)
         (auto simp: as_send_eq as_store_result_def not_less not_le)
  qed
qed

section \<open>The contract of the callbacks, and what the loop makes of it\<close>

definition store_outcome ::
  "ftpvita_store_result \<Rightarrow> ftpvita_store_result \<Rightarrow> 'b list \<Rightarrow> nat \<Rightarrow> bool"
where
  "store_outcome result result' T k \<longleftrightarrow>
     k \<le> length T \<and>
     store_bytes_received result' = store_bytes_received result + word_of_nat (length T) \<and>
     store_bytes_written result' = store_bytes_written result + word_of_nat k \<and>
     (store_stage result' \<in> {store_stage result, ''receive''} \<and> k = length T \<or>
      store_stage result' = ''write'' \<and> k < length T)"

lemma store_outcome_block:
  assumes "store_outcome res result' T j" and "store_stage res = store_stage result"
    and "store_bytes_received res = store_bytes_received result + word_of_nat (length B)"
    and "store_bytes_written res = store_bytes_written result + word_of_nat (length B)"
  shows "store_outcome result result' (B @ T) (length B + j)"
  using assms by (auto simp: store_outcome_def)

lemma sint_pos_iff: "0 < sint (r :: i32) \<longleftrightarrow> r \<noteq> 0 \<and> \<not> neg r"
  by (metis linorder_neqE_linordered_idom sint_0 signed_eq_0_iff order_less_irrefl order_less_asym)

locale store_io =
  fixes receive_data :: "('c, 'b) store_receive_fn"
    and write_file :: "('c, 'b) store_write_fn"
    and got :: "'c \<Rightarrow> 'b list"
    and written :: "'c \<Rightarrow> 'b list"
  assumes receive_law: "receive_data c buffer n = (r, e, buffer', c') \<Longrightarrow> unat n \<le> length buffer \<Longrightarrow>
      length buffer' = length buffer \<and> written c' = written c \<and>
      got c' = got c @ (if good_count r n then take (unat r) buffer' else [])"
    and write_law: "write_file c bytes n = (w, c') \<Longrightarrow> unat n \<le> length bytes \<Longrightarrow>
      got c' = got c \<and>
      written c' = written c @ (if good_count w n then take (unat w) bytes else [])"

sublocale store_io \<subseteq> short: retr_io "\<lambda>c buffer n. (0, buffer, c)" "as_send write_file" got written
  by unfold_locales (auto simp: as_send_def split: prod.splits dest: write_law)

context store_io
begin

lemma write_loop_outcome:
  assumes "store_write_loop write_file buffer r 0 result c = (ok, result', c')" and "unat r \<le> length buffer"
  shows "\<exists>k \<le> unat r. got c' = got c \<and> written c' = written c @ take k buffer \<and>
     store_bytes_written result' = store_bytes_written result + word_of_nat k \<and>
     store_bytes_received result' = store_bytes_received result \<and>
     (if ok then k = unat r \<and> store_stage result' = store_stage result
      else k < unat r \<and> store_stage result' = ''write'')"
proof -
  let ?r = "\<lparr>retr_stage = [], retr_code = 0, retr_net_errno = 0,
    retr_bytes_read = 0, retr_bytes_sent = store_bytes_written result\<rparr>"
  obtain res where loop: "retr_send_loop (as_send write_file) buffer r 0 ?r c = (ok, res, c')"
    and res: "result' = as_store_result result res ok"
    using assms(1) store_write_loop_as_send [of ?r result write_file buffer r 0 c]
    by (auto split: prod.splits)
  from short.send_loop_outcome [OF loop _ assms(2)] res show ?thesis
    by (cases ok) (auto simp: as_store_result_def)
qed

text \<open>One block: \<open>r\<close> received bytes are in the buffer and go through the write loop.\<close>

lemma store_block:
  assumes inner: "store_write_loop write_file b r 0
      (res\<lparr>store_bytes_received := store_bytes_received res + ucast r\<rparr>) d = (ok, res', e)"
    and rb: "unat r \<le> length b"
  shows "got e = got d"
    and "\<not> ok \<Longrightarrow> \<exists>k. store_outcome res res' (take (unat r) b) k \<and> written e = written d @ take k (take (unat r) b)"
    and "ok \<Longrightarrow> written e = written d @ take (unat r) b"
    and "ok \<Longrightarrow> store_outcome res' result' T j \<Longrightarrow> store_outcome res result' (take (unat r) b @ T) (unat r + j)"
proof -
  from write_loop_outcome [OF inner rb] obtain k where k: "k \<le> unat r" "got e = got d"
    "written e = written d @ take k b"
    "store_bytes_written res' = store_bytes_written res + word_of_nat k"
    "store_bytes_received res' = store_bytes_received res + word_of_nat (unat r)"
    "if ok then k = unat r \<and> store_stage res' = store_stage res else k < unat r \<and> store_stage res' = ''write''"
    by (cases ok) auto
  show "got e = got d" by (rule k)
  show "ok \<Longrightarrow> written e = written d @ take (unat r) b" using k by simp
  show "\<exists>k. store_outcome res res' (take (unat r) b) k \<and> written e = written d @ take k (take (unat r) b)" if "\<not> ok"
    using that k rb by (intro exI [of _ k]) (auto simp: store_outcome_def min_absorb2)
  show "store_outcome res result' (take (unat r) b @ T) (unat r + j)" if "ok" "store_outcome res' result' T j"
    using store_outcome_block [of res' result' T j res "take (unat r) b"] that k rb by (simp add: min_absorb2)
qed

lemma store_loop_outcome:
  assumes ret: "store_loop receive_data write_file buffer_size buffer result c = Some (result', c')"
    and buf: "unat buffer_size \<le> length buffer"
  shows "\<exists>T k. store_outcome result result' T k \<and> got c' = got c @ T \<and> written c' = written c @ take k T"
proof -
  let ?P = "\<lambda>rd wf n b res c r. rd = receive_data \<longrightarrow> wf = write_file \<longrightarrow> unat n \<le> length b \<longrightarrow>
     (\<exists>T k. store_outcome res (fst r) T k \<and> got (snd r) = got c @ T \<and> written (snd r) = written c @ take k T)"
  have "?P receive_data write_file buffer_size buffer result c (result', c')"
  proof (rule store_loop.raw_induct [where P = ?P, OF _ ret], intro impI)
    fix f rd wf n b res d y
    assume IH: "\<And>rd wf n b res c r. f rd wf n b res c = Some r \<Longrightarrow> ?P rd wf n b res c r"
      and eq: "(let (received, net_error, buffer, context) = rd d b n in
        if received = 0 then Some (res, context)
        else if neg received \<or> n < received
        then Some (res\<lparr>store_stage := ''receive'', store_code := received,
               store_net_errno := (if neg received then net_error else 0)\<rparr>, context)
        else case store_write_loop wf buffer received 0
               (res\<lparr>store_bytes_received := store_bytes_received res + ucast received\<rparr>) context of
             (all_written, result, context) \<Rightarrow>
               if all_written then f rd wf n buffer result context else Some (result, context)) = Some y"
      and fixed: "rd = receive_data" "wf = write_file" "unat n \<le> length b"
    obtain r e b' d' where call: "receive_data d b n = (r, e, b', d')" using prod_cases4 by blast
    note law = receive_law [OF call fixed(3)]
    show "\<exists>T k. store_outcome res (fst y) T k \<and> got (snd y) = got d @ T \<and> written (snd y) = written d @ take k T"
    proof (cases "good_count r n")
      case False
      with eq fixed call law show ?thesis
        by (auto intro!: exI [of _ "[]"] simp: store_outcome_def sint_pos_iff not_le split: if_splits)
    next
      case good: True
      have rb: "unat r \<le> length b'" using good law fixed(3) by (simp add: word_le_nat_alt)
      obtain ok res' e' where inner: "store_write_loop write_file b' r 0
          (res\<lparr>store_bytes_received := store_bytes_received res + ucast r\<rparr>) d' = (ok, res', e')"
        using prod_cases3 by blast
      note block = store_block [OF inner rb]
      have y: "(if ok then f rd wf n b' res' e' else Some (res', e')) = Some y"
        using eq fixed call good inner leD [of r n] by (auto simp: sint_pos_iff)
      show ?thesis
      proof (cases ok)
        case False
        with y block(1,2) law good show ?thesis by fastforce
      next
        case True
        with y IH [of rd wf n b' res' e' y] fixed law obtain T j where
          "store_outcome res' (fst y) T j" "got (snd y) = got e' @ T" "written (snd y) = written e' @ take j T"
          by auto
        with True block(1,3) block(4) [of "fst y" T j] law good rb show ?thesis
          by (intro exI [of _ "take (unat r) b' @ T"] exI [of _ "unat r + j"]) (simp add: min_absorb2)
      qed
    qed
  qed
  with buf show ?thesis by simp
qed

text \<open>The contract of an upload: every byte received is written, in order, unless a write fails.\<close>

lemma stream_outcome:
  assumes "ftpvita_store_stream (Some receive_data) (Some write_file) (Some buffer) buffer_size c = Some (result, c')"
    and "unat buffer_size \<le> length buffer"
  shows "\<exists>T k. got c' = got c @ T \<and> written c' = written c @ take k T \<and> k \<le> length T \<and>
     store_bytes_received result = word_of_nat (length T) \<and> store_bytes_written result = word_of_nat k \<and>
     store_stage result \<in> {''complete'', ''range'', ''receive'', ''write''} \<and>
     (store_stage result \<noteq> ''write'' \<longrightarrow> k = length T)"
proof (cases "buffer_size = 0 \<or> INT_MAX < buffer_size")
  case True
  with assms(1) show ?thesis
    by (auto simp: ftpvita_store_stream_def intro!: exI [of _ "[]"])
next
  case False
  let ?init = "\<lparr>store_stage = ''complete'', store_code = 0, store_net_errno = 0,
    store_bytes_received = 0, store_bytes_written = 0\<rparr>"
  from False assms(1) have "store_loop receive_data write_file buffer_size buffer ?init c = Some (result, c')"
    by (simp add: ftpvita_store_stream_def)
  from store_loop_outcome [OF this assms(2)] show ?thesis
    by (fastforce simp: store_outcome_def)
qed

end

section \<open>The loop returns when the peer stops sending\<close>

lemma store_write_loop_keeps:
  assumes "\<And>c b n w c'. write_file c b n = (w, c') \<Longrightarrow> \<mu> c' \<le> (\<mu> c :: nat)"
  shows "store_write_loop write_file buffer received position result c = (ok, result', c') \<Longrightarrow> \<mu> c' \<le> \<mu> c"
proof (induction "unat received - unat position" arbitrary: position result c rule: less_induct)
  case less
  obtain w d where call: "write_file c (drop (unat position) buffer) (received - position) = (w, d)"
    by fastforce
  show ?case
  proof (cases "position < received \<and> good_count w (received - position)")
    case True
    with less.prems call have "store_write_loop write_file buffer received (position + w)
        (result\<lparr>store_bytes_written := store_bytes_written result + ucast w\<rparr>) d = (ok, result', c')"
      using leD [of w "received - position"] by (subst (asm) store_write_loop.simps) simp
    with less.hyps True have "\<mu> c' \<le> \<mu> d" using position_progress(3) by blast
    also have "\<dots> \<le> \<mu> c" using call by (rule assms)
    finally show ?thesis .
  next
    case False
    with less.prems call assms [OF call] show ?thesis
      by (subst (asm) store_write_loop.simps) (auto simp: not_le split: if_splits)
  qed
qed

lemma store_loop_returns:
  assumes dec: "\<And>c b r e b' c'. receive_data c b buffer_size = (r, e, b', c') \<Longrightarrow> 0 < sint r \<Longrightarrow> \<mu> c' < (\<mu> c :: nat)"
    and keep: "\<And>c b n w c'. write_file c b n = (w, c') \<Longrightarrow> \<mu> c' \<le> \<mu> c"
  shows "\<exists>y. store_loop receive_data write_file buffer_size buffer result c = Some y"
proof (induction "\<mu> c" arbitrary: buffer result c rule: less_induct)
  case less
  obtain r e b' d where call: "receive_data c buffer buffer_size = (r, e, b', d)" using prod_cases4 by blast
  show ?case
  proof (cases "good_count r buffer_size")
    case True
    obtain ok res d' where inner: "store_write_loop write_file b' r 0
        (result\<lparr>store_bytes_received := store_bytes_received result + ucast r\<rparr>) d = (ok, res, d')"
      using prod_cases3 by blast
    have "\<mu> d' \<le> \<mu> d" by (rule store_write_loop_keeps [OF keep inner])
    also have "\<dots> < \<mu> c" using dec [OF call] True by simp
    finally have "\<exists>y. store_loop receive_data write_file buffer_size b' res d' = Some y" by (rule less.hyps)
    with call True inner leD [of r buffer_size] show ?thesis
      by (subst store_loop.simps) (auto simp: sint_pos_iff)
  next
    case False
    with call show ?thesis by (subst store_loop.simps) (auto simp: sint_pos_iff not_le)
  qed
qed

section \<open>What the callbacks keep, the loop keeps\<close>

lemma store_write_loop_rel:
  assumes "reflp R" "transp R" and "\<And>c b n w c'. write_file c b n = (w, c') \<Longrightarrow> R c c'"
    and loop: "store_write_loop write_file buffer received position result c = (ok, result', c')"
  shows "R c c'"
proof -
  have send: "as_send write_file c b n = (r, e, c') \<Longrightarrow> R c c'" for c b n r e c'
    using assms(3) by (auto simp: as_send_def split: prod.splits)
  let ?r = "\<lparr>retr_stage = [], retr_code = 0, retr_net_errno = 0,
    retr_bytes_read = 0, retr_bytes_sent = store_bytes_written result\<rparr>"
  from loop obtain res where "retr_send_loop (as_send write_file) buffer received position ?r c = (ok, res, c')"
    using store_write_loop_as_send [of ?r result write_file buffer received position c]
    by (auto split: prod.splits)
  from _ this show ?thesis
    by (rule retr_send_loop_rel [OF assms(1,2)]) (rule send)
qed

lemma store_stream_rel:
  assumes R: "reflp R" "transp R"
    and receive: "\<And>c b n r e b' c'. receive_data c b n = (r, e, b', c') \<Longrightarrow> R c c'"
    and "write": "\<And>c b n w c'. write_file c b n = (w, c') \<Longrightarrow> R c c'"
    and run: "ftpvita_store_stream (Some receive_data) (Some write_file) (Some buffer) buffer_size c = Some (result, c')"
  shows "R c c'"
proof -
  let ?P = "\<lambda>rd wf n b res c r. rd = receive_data \<longrightarrow> wf = write_file \<longrightarrow> R c (snd r)"
  have loop: "?P receive_data write_file buffer_size buffer res c (result, c')"
    if "store_loop receive_data write_file buffer_size buffer res c = Some (result, c')" for res
  proof (rule store_loop.raw_induct [where P = ?P, OF _ that], intro impI)
    fix f rd wf n b res d y
    assume IH: "\<And>rd wf n b res c r. f rd wf n b res c = Some r \<Longrightarrow> ?P rd wf n b res c r"
      and eq: "(let (received, net_error, buffer, context) = rd d b n in
        if received = 0 then Some (res, context)
        else if neg received \<or> n < received
        then Some (res\<lparr>store_stage := ''receive'', store_code := received,
               store_net_errno := (if neg received then net_error else 0)\<rparr>, context)
        else case store_write_loop wf buffer received 0
               (res\<lparr>store_bytes_received := store_bytes_received res + ucast received\<rparr>) context of
             (all_written, result, context) \<Rightarrow>
               if all_written then f rd wf n buffer result context else Some (result, context)) = Some y"
      and fixed: "rd = receive_data" "wf = write_file"
    obtain r e b' d' where call: "receive_data d b n = (r, e, b', d')" using prod_cases4 by blast
    obtain ok res' e' where inner: "store_write_loop write_file b' r 0
        (res\<lparr>store_bytes_received := store_bytes_received res + ucast r\<rparr>) d' = (ok, res', e')"
      using prod_cases3 by blast
    have "R d d'" "R d' e'"
      using receive [OF call] store_write_loop_rel [where R = R, OF R "write" inner] by auto
    moreover have "R d e'" using calculation R(2) by (meson transpE)
    moreover have "f rd wf n b' res' e' = Some y \<Longrightarrow> R e' (snd y)" using IH fixed by blast
    ultimately show "R d (snd y)"
      using eq fixed call inner R(2) by (auto split: if_splits dest: transpD)
  qed
  with run R(1) show ?thesis
    by (auto simp: ftpvita_store_stream_def Let_def reflpD split: if_splits)
qed

end
