(* ===== verification/Ftp_Transfer.thy ===== *)
theory Ftp_Transfer
  imports Ftp_Path Ftp_Retr Ftp_Store
begin

text \<open>
  The three kinds of transfer of \<^verbatim>\<open>libftpvita/ftpvita.c\<close>: the directory listing, the download and
  the upload, each with every early return. The callbacks of the download and the upload loop are
  given to the loops of \<open>Ftp_Retr\<close> and \<open>Ftp_Store\<close>, whose contracts are instantiated here on the
  histories of bytes read, sent, received and written that the trace records.
\<close>

section \<open>Directory listings\<close>

definition num_to_month :: "string list" where
  "num_to_month = [''Jan'', ''Feb'', ''Mar'', ''Apr'', ''May'', ''Jun'',
     ''Jul'', ''Aug'', ''Sep'', ''Oct'', ''Nov'', ''Dec'']"

definition gen_list_format :: "'w env \<Rightarrow> nat \<Rightarrow> bool \<Rightarrow> SceIoStat \<Rightarrow> string \<Rightarrow> 'w ftp \<Rightarrow> string \<times> 'w ftp" where
  "gen_list_format E n dir st filename s =
     (let (r, s) = syscall E (Kernel sceRtcGetCurrentClockLocalTime) s;
          cdt = datetime r; m = st_mtime st;
          yt = (if year cdt = year m
                then snprintf 6 (zero_pad 2 (dec_nat (unat (hour m))) @ '':'' @ zero_pad 2 (dec_nat (unat (minute m))))
                else snprintf 6 (zero_pad 4 (dec_nat (unat (year m)))))
      in (snprintf n ((if dir then ''d'' else ''-'') @ (if dir then ''rwxr-xr-x'' else ''rw-r--r--'') @
            '' 1 vita vita '' @ dec_nat (unat (ucast (st_size st) :: u32)) @ '' '' @
            num_to_month ! (if month m = 0 then 0 else (unat (month m) - 1) mod 12) @ '' '' @
            blank_pad 2 (dec_nat (unat (day m))) @ '' '' @ yt @ '' '' @ filename @ EOL), s))"

fun list_devices :: "'w env \<Rightarrow> device list \<Rightarrow> 'w ftp \<Rightarrow> (bool \<times> 'w ftp) option" where
  "list_devices E [] s = Some (True, s)"
| "list_devices E (d # ds) s =
     (if device_valid d
      then let (r, s) = syscall E (Io (sceIoGetstat (Some (device_name d)))) s
           in if \<not> neg (rc r)
              then let (buffer, s) = gen_list_format E 512 True (stat r) (device_name d) s
                   in (case client_send_data_msg E buffer s of
                         None \<Rightarrow> None
                       | Some (ret, s) \<Rightarrow> if neg ret then Some (False, s) else list_devices E ds s)
              else list_devices E ds s
      else list_devices E ds s)"

partial_function (option) list_entries :: "'w env \<Rightarrow> i32 \<Rightarrow> 'w ftp \<Rightarrow> (bool \<times> 'w ftp) option" where
  "list_entries E dir s =
     (let (r, s) = syscall E (Io (sceIoDread dir)) s
      in if 0 < sint (rc r)
         then let (buffer, s) = gen_list_format E 512 (SCE_S_ISDIR E (st_mode (stat r))) (stat r) (d_name r) s
              in (case client_send_data_msg E buffer s of
                    None \<Rightarrow> None
                  | Some (ret, s) \<Rightarrow> if neg ret then Some (False, s) else list_entries E dir s)
         else Some (True, s))"

text \<open>The part of \<open>send_LIST\<close> after the data connection is open.\<close>

definition list_reply :: "bool \<Rightarrow> string" where
  "list_reply transfer_ok =
     (if transfer_ok then ''226 Transfer complete.'' else ''426 Connection closed; transfer aborted.'') @ EOL"

definition list_finish :: "'w env \<Rightarrow> bool \<Rightarrow> 'w ftp \<Rightarrow> 'w ftp" where
  "list_finish E transfer_ok s =
     client_end_transfer (client_send_ctrl_msg E (list_reply transfer_ok) (client_close_data_connection E s))"

text \<open>The list of devices needs no directory handle; \<open>dir\<close> is then not used.\<close>

definition list_dopen :: "'w env \<Rightarrow> bool \<Rightarrow> string \<Rightarrow> 'w ftp \<Rightarrow> i32 \<times> 'w ftp" where
  "list_dopen E send_devices path s =
     (if \<not> send_devices then let (r, s) = syscall E (Io (sceIoDopen (get_vita_path path))) s in (rc r, s)
      else (0, s))"

definition send_LIST :: "'w env \<Rightarrow> string \<Rightarrow> 'w ftp \<Rightarrow> 'w ftp option" where
  "send_LIST E path s =
     (let (begun, s) = client_begin_transfer s
      in if \<not> begun
         then Some (client_send_ctrl_msg E (''425 Another FTP transfer is active.'' @ EOL)
                (client_close_data_connection E s))
         else let send_devices = (path = ''/'');
                  (dir, s) = list_dopen E send_devices path s
         in if \<not> send_devices \<and> neg dir
            then Some (client_end_transfer (client_send_ctrl_msg E (''550 Invalid directory.'' @ EOL)
                   (client_close_data_connection E s)))
            else let (opened, s) = client_open_data_connection E s
            in if neg opened
               then let s = (if \<not> send_devices then exec E (Io (sceIoDclose dir)) s else s)
                    in Some (client_end_transfer (client_send_ctrl_msg E (''425 Can't open data connection.'' @ EOL)
                         (client_close_data_connection E s)))
               else let s = client_send_ctrl_msg E (''150 Opening ASCII mode data transfer for LIST.'' @ EOL) s
               in if send_devices
                  then (case list_devices E (device_list s) s of
                          None \<Rightarrow> None
                        | Some (transfer_ok, s) \<Rightarrow> Some (list_finish E transfer_ok s))
                  else (case list_entries E dir s of
                          None \<Rightarrow> None
                        | Some (transfer_ok, s) \<Rightarrow>
                            let s = exec E (Io (sceIoDclose dir)) s in Some (list_finish E transfer_ok s)))"

definition cmd_LIST_func :: "'w env \<Rightarrow> 'w ftp \<Rightarrow> 'w ftp option" where
  "cmd_LIST_func E s =
     (case ftpvita_copy_command_argument (recv_cmd_args (cl s)) (PATH_MAX E) of
        None \<Rightarrow> send_LIST E (cur_path (cl s)) s
      | Some list_path \<Rightarrow>
          let (found, s) = file_exists E (get_vita_path list_path) s
          in if found then send_LIST E list_path s else send_LIST E (cur_path (cl s)) s)"

section \<open>Downloads\<close>

record retr_io_t =
  retr_fd :: i32
  retr_sockfd :: i32

definition retr_read :: "'w env \<Rightarrow> retr_io_t \<Rightarrow> ('w ftp, char) retr_read_fn" where
  "retr_read E io s buffer len =
     (let (r, s) = syscall E (Io (sceIoRead (retr_fd io) len)) s in (rc r, fill r len buffer, s))"

definition retr_send :: "'w env \<Rightarrow> retr_io_t \<Rightarrow> ('w ftp, char) retr_send_fn" where
  "retr_send E io s buffer len =
     (let (r, s) = syscall E (Net (sceNetSend (retr_sockfd io) (take (unat len) buffer))) s
      in (rc r, if neg (rc r) then errno r else 0, s))"

definition seek_reply :: "u32 \<Rightarrow> i64 \<Rightarrow> i64 \<Rightarrow> string" where
  "seek_reply restore extent position =
     snprintf 192 (''550 RETR seek failed start='' @ dec_nat (unat restore) @ '' extent='' @ dec_int (sint extent) @
       '' position='' @ dec_int (sint position) @ ''.'' @ EOL)"

definition retr_reply :: "ftpvita_retr_result \<Rightarrow> u32 \<Rightarrow> i64 \<Rightarrow> string" where
  "retr_reply result restore extent =
     (if retr_stage result = ''complete'' then ''226 Transfer completed.'' @ EOL
      else snprintf 256 (''426 RETR stage='' @ retr_stage result @ '' code=0x'' @ hex8 (retr_code result) @
             '' net_errno='' @ dec_int (sint (retr_net_errno result)) @ '' start='' @ dec_nat (unat restore) @
             '' extent='' @ dec_nat (unat extent) @ '' read='' @ dec_nat (unat (retr_bytes_read result)) @
             '' sent='' @ dec_nat (unat (retr_bytes_sent result)) @ ''.'' @ EOL))"

text \<open>The second seek of \<open>send_file\<close>, which is skipped when the first one already excludes the offset.\<close>

definition retr_position :: "'w env \<Rightarrow> i32 \<Rightarrow> u32 \<Rightarrow> i64 \<Rightarrow> 'w ftp \<Rightarrow> i64 \<times> 'w ftp" where
  "retr_position E fd restore extent s =
     (if 0 \<le> sint extent \<and> int (unat restore) \<le> sint extent
      then let (p, s) = syscall E (Io (sceIoLseek fd (ucast restore) SCE_SEEK_SET)) s in (off p, s)
      else (- 1, s))"

definition send_file :: "'w env \<Rightarrow> path \<Rightarrow> 'w ftp \<Rightarrow> 'w ftp" where
  "send_file E path s =
     (let restore = restore_point (cl s);
          s = set_cl (\<lambda>c. c\<lparr>restore_point := 0\<rparr>) s;
          (begun, s) = client_begin_transfer s
      in if \<not> begun
         then client_send_ctrl_msg E (''425 Another FTP transfer is active.'' @ EOL) (client_close_data_connection E s)
         else let (f, s) = syscall E (Io (sceIoOpen path [SCE_O_RDONLY])) s
         in if 0 \<le> sint (rc f)
            then let fd = rc f;
                     (e, s) = syscall E (Io (sceIoLseek fd 0 SCE_SEEK_END)) s;
                     extent = off e;
                     (position, s) = retr_position E fd restore extent s
                 in if neg extent \<or> sint extent < int (unat restore) \<or> sint position \<noteq> int (unat restore)
                    then let s = exec E (Io (sceIoClose fd)) s;
                             s = client_close_data_connection E s;
                             s = client_send_ctrl_msg E (seek_reply restore extent position) s
                         in client_end_transfer s
                    else let (m, s) = syscall E (Kernel (malloc (file_buf_size s))) s;
                             p = rc m; buffer = map (mem m) [0 ..< unat (file_buf_size s)]
                    in if p = 0
                       then let s = exec E (Io (sceIoClose fd)) s;
                                s = client_close_data_connection E s;
                                s = client_send_ctrl_msg E (''550 Could not allocate memory.'' @ EOL) s
                            in client_end_transfer s
                       else let (opened, s) = client_open_data_connection E s
                       in if neg opened
                          then let s = exec E (Io (sceIoClose fd)) s;
                                   s = exec E (Kernel (free p)) s;
                                   s = client_close_data_connection E s;
                                   s = client_send_ctrl_msg E (''425 Can't open data connection.'' @ EOL) s
                               in client_end_transfer s
                          else let s = client_send_ctrl_msg E (''150 Opening Image mode data transfer.'' @ EOL) s;
                                   io = \<lparr>retr_fd = fd, retr_sockfd = data_fd (cl s)\<rparr>;
                                   (result, s) = ftpvita_retr_extent (Some (retr_read E io)) (Some (retr_send E io))
                                     (Some buffer) (file_buf_size s) (ucast restore) extent s;
                                   s = exec E (Io (sceIoClose fd)) s;
                                   s = exec E (Kernel (free p)) s;
                                   s = client_close_data_connection E s;
                                   s = client_send_ctrl_msg E (retr_reply result restore extent) s
                               in client_end_transfer s
            else let s = client_close_data_connection E s;
                     s = client_send_ctrl_msg E (''550 File not found.'' @ EOL) s
                 in client_end_transfer s)"

definition cmd_RETR_func :: "'w env \<Rightarrow> 'w ftp \<Rightarrow> 'w ftp" where
  "cmd_RETR_func E s = send_file E (get_vita_path (gen_ftp_fullpath E (cl s) (PATH_MAX E))) s"

section \<open>Uploads\<close>

definition store_receive :: "'w env \<Rightarrow> ('w ftp, char) store_receive_fn" where
  "store_receive E s buffer len =
     (let (r, buffer, s) = client_recv_data_raw E buffer len s
      in (rc r, if neg (rc r) then errno r else 0, buffer, s))"

definition store_write :: "'w env \<Rightarrow> i32 \<Rightarrow> ('w ftp, char) store_write_fn" where
  "store_write E fd s bytes len =
     (let (r, s) = syscall E (Io (sceIoWrite fd (take (unat len) bytes))) s in (rc r, s))"

definition store_reply :: "ftpvita_store_result \<Rightarrow> string" where
  "store_reply result =
     (if store_stage result = ''complete'' then ''226 Transfer completed.'' @ EOL
      else snprintf 256 (''426 STOR stage='' @ store_stage result @ '' code=0x'' @ hex8 (store_code result) @
             '' net_errno='' @ dec_int (sint (store_net_errno result)) @
             '' received='' @ dec_nat (unat (store_bytes_received result)) @
             '' written='' @ dec_nat (unat (store_bytes_written result)) @ ''.'' @ EOL))"

definition receive_file :: "'w env \<Rightarrow> path \<Rightarrow> 'w ftp \<Rightarrow> 'w ftp option" where
  "receive_file E path s =
     (let (begun, s) = client_begin_transfer s
      in if \<not> begun
         then Some (client_send_ctrl_msg E (''425 Another FTP transfer is active.'' @ EOL)
                (client_close_data_connection E s))
         else let mode = [SCE_O_CREAT, SCE_O_RDWR] @ (if restore_point (cl s) \<noteq> 0 then [SCE_O_APPEND] else [SCE_O_TRUNC]);
                  (f, s) = syscall E (Io (sceIoOpen path mode)) s
         in if 0 \<le> sint (rc f)
            then let fd = rc f;
                     (m, s) = syscall E (Kernel (malloc (file_buf_size s))) s;
                     p = rc m; buffer = map (mem m) [0 ..< unat (file_buf_size s)]
                 in if p = 0
                    then let s = exec E (Io (sceIoClose fd)) s;
                             s = client_close_data_connection E s;
                             s = client_send_ctrl_msg E (''550 Could not allocate memory.'' @ EOL) s
                         in Some (client_end_transfer s)
                    else let (opened, s) = client_open_data_connection E s
                    in if neg opened
                       then let s = exec E (Io (sceIoClose fd)) s;
                                s = exec E (Kernel (free p)) s;
                                s = client_close_data_connection E s;
                                s = client_send_ctrl_msg E (''425 Can't open data connection.'' @ EOL) s
                            in Some (client_end_transfer s)
                       else let s = client_send_ctrl_msg E (''150 Opening Image mode data transfer.'' @ EOL) s
                       in (case ftpvita_store_stream (Some (store_receive E)) (Some (store_write E fd)) (Some buffer)
                                  (file_buf_size s) s of
                             None \<Rightarrow> None
                           | Some (result, s) \<Rightarrow>
                               let s = exec E (Io (sceIoClose fd)) s;
                                   s = exec E (Kernel (free p)) s;
                                   s = set_cl (\<lambda>c. c\<lparr>restore_point := 0\<rparr>) s;
                                   s = client_send_ctrl_msg E (store_reply result) s;
                                   s = client_close_data_connection E s
                               in Some (client_end_transfer s))
            else let s = client_close_data_connection E s;
                     s = client_send_ctrl_msg E (''550 File not found.'' @ EOL) s
                 in Some (client_end_transfer s))"

definition cmd_STOR_func :: "'w env \<Rightarrow> 'w ftp \<Rightarrow> 'w ftp option" where
  "cmd_STOR_func E s = receive_file E (get_vita_path (gen_ftp_fullpath E (cl s) (PATH_MAX E))) s"

definition cmd_APPE_func :: "'w env \<Rightarrow> 'w ftp \<Rightarrow> 'w ftp option" where
  "cmd_APPE_func E s =
     (let s = set_cl (\<lambda>c. c\<lparr>restore_point := - 1\<rparr>) s
      in receive_file E (get_vita_path (gen_ftp_fullpath E (cl s) (PATH_MAX E))) s)"

section \<open>The callbacks are quiet\<close>

lemma quiet_preorder: "reflp (quiet :: 'w ftp \<Rightarrow> _)" "transp (quiet :: 'w ftp \<Rightarrow> _)"
  by (auto intro: reflpI transpI quiet_trans)

lemma gen_list_format_quiet: "gen_list_format E n d st f t = (b, u) \<Longrightarrow> quiet t u"
  by (auto simp: gen_list_format_def Let_def split: prod.splits dest!: quiet_syscall)

lemma list_devices_quiet: "list_devices E ds t = Some (ok, u) \<Longrightarrow> quiet t u"
proof (induction ds arbitrary: t)
  case (Cons d ds)
  then show ?case
    by (auto simp: Let_def split: prod.splits if_splits option.splits
        dest!: quiet_syscall gen_list_format_quiet client_send_data_msg_quiet intro: quiet_trans)
qed simp

lemma list_entries_quiet: "list_entries E dir t = Some (ok, u) \<Longrightarrow> quiet t u"
proof -
  assume run: "list_entries E dir t = Some (ok, u)"
  have "quiet t (snd (ok, u))"
  proof (rule list_entries.raw_induct [where P = "\<lambda>E dir t y. quiet t (snd y)", OF _ run])
    fix f E dir s y
    assume IH: "\<And>E dir s y. f E dir s = Some y \<Longrightarrow> quiet s (snd y)"
      and eq: "(let (r, s) = syscall E (Io (sceIoDread dir)) s
        in if 0 < sint (rc r)
           then let (buffer, s) = gen_list_format E 512 (SCE_S_ISDIR E (st_mode (stat r))) (stat r) (d_name r) s
                in (case client_send_data_msg E buffer s of
                      None \<Rightarrow> None
                    | Some (ret, s) \<Rightarrow> if neg ret then Some (False, s) else f E dir s)
           else Some (True, s)) = Some y"
    have "f E dir v = Some y \<Longrightarrow> quiet v (snd y)" for v by (rule IH)
    with eq show "quiet s (snd y)"
      by (auto simp: Let_def split: prod.splits if_splits option.splits
          dest!: quiet_syscall gen_list_format_quiet client_send_data_msg_quiet intro: quiet_trans)
  qed
  then show ?thesis by simp
qed

lemma retr_extent_quiet:
  assumes "ftpvita_retr_extent (Some (retr_read E io)) (Some (retr_send E io)) (Some b) n st ex t = (res, u)"
  shows "quiet t u"
proof (rule retr_extent_rel [OF quiet_preorder _ _ assms])
  show "retr_read E io c b n = (r, b', c') \<Longrightarrow> quiet c c'" for c b n r b' c'
    by (auto simp: retr_read_def Let_def split: prod.splits dest!: quiet_syscall)
  show "retr_send E io c b n = (r, e, c') \<Longrightarrow> quiet c c'" for c b n r e c'
    by (auto simp: retr_send_def Let_def split: prod.splits dest!: quiet_syscall)
qed

lemma store_stream_quiet:
  assumes "ftpvita_store_stream (Some (store_receive E)) (Some (store_write E fd)) (Some b) n t = Some (res, u)"
  shows "quiet t u"
proof (rule store_stream_rel [OF quiet_preorder _ _ assms])
  show "store_receive E c b n = (r, e, b', c') \<Longrightarrow> quiet c c'" for c b n r e b' c'
    by (auto simp: store_receive_def client_recv_data_raw_def Let_def split: prod.splits dest!: quiet_syscall)
  show "store_write E fd c b n = (w, c') \<Longrightarrow> quiet c c'" for c b n w c'
    by (auto simp: store_write_def Let_def split: prod.splits dest!: quiet_syscall)
qed

lemma retr_position_quiet: "retr_position E fd rp ex t = (p, u) \<Longrightarrow> quiet t u"
  by (auto simp: retr_position_def Let_def split: prod.splits if_splits dest!: quiet_syscall)

lemma file_exists_quiet: "file_exists E p t = (b, u) \<Longrightarrow> quiet t u"
  by (auto simp: file_exists_def Let_def split: prod.splits dest!: quiet_syscall)

lemmas quiet_operations = gen_list_format_quiet list_devices_quiet list_entries_quiet retr_extent_quiet
  store_stream_quiet retr_position_quiet file_exists_quiet

lemmas owes_quiet_operations [swaps] = quiet_operations [THEN owes_quiet]

lemma client_begin_transferD:
  "client_begin_transfer t = (b, u) \<Longrightarrow> cl u = cl t \<and> file_buf_size u = file_buf_size t \<and>
     transfer_active u = (if b then 1 else transfer_active t) \<and> (b \<longrightarrow> transfer_active t = 0)"
  by (auto simp: client_begin_transfer_eq split: if_splits)

lemma owes_begin [swaps]: "client_begin_transfer t = (b, u) \<Longrightarrow> owes s D t \<Longrightarrow> owes s D u"
  by (auto simp: client_begin_transfer_eq owes_transfer_active split: if_splits)

lemmas transfer_facts = syscall_ftpD client_begin_transferD client_open_data_connectionD
  quiet_operations [THEN quietD]

section \<open>Every transfer conserves\<close>

lemma client_ok_closed [simp]: "client_ok E (closed c) \<longleftrightarrow> cwd_ok E (cur_path c)"
  by (simp add: client_ok_def)

lemma client_okD: "client_ok E c \<Longrightarrow> neg (pasv_sockfd c)" "client_ok E c \<Longrightarrow> cwd_ok E (cur_path c)"
  by (simp_all add: client_ok_def client_idle_def)

lemma send_file_ends:
  assumes "client_ok E (cl s)"
  shows "ends s (command_post E s) (send_file E path s)"
  unfolding send_file_def
  by (rule walks | hypsubst | rule endsI | (rule swaps, assumption) | (rule pulls, assumption) | rule pushes
      | (simp (no_asm_simp) add: delta_def; fail)
      | (clarsimp simp: command_post_def client_okD [OF assms] dest!: transfer_facts; fail))+

lemma receive_file_ends:
  assumes "client_ok E (cl s)"
  shows "may_end s (command_post E s) (receive_file E path s)"
  unfolding receive_file_def
  by (rule walks | hypsubst | rule endsI | (rule swaps, assumption) | (rule pulls, assumption) | rule pushes
      | (simp (no_asm_simp) add: delta_def; fail)
      | (clarsimp simp: command_post_def client_okD [OF assms] dest!: transfer_facts; fail))+

lemma owes_list_dopen [pulls]:
  assumes "list_dopen E sd path t = (dir, u)" and "owes s (\<lambda>x. D x - of_bool (\<not> sd \<and> \<not> neg dir \<and> x = Dir dir)) t"
  shows "owes s D u"
proof (cases sd)
  case True
  with assms show ?thesis by (simp add: list_dopen_def)
next
  case False
  then obtain r where r: "syscall E (Io (sceIoDopen (get_vita_path path))) t = (r, u)" "dir = rc r"
    using assms(1) by (auto simp: list_dopen_def split: prod.splits)
  show ?thesis
    by (rule owes_syscall [OF r(1)], rule owes_eq [OF assms(2)]) (use False r(2) in \<open>auto simp: delta_def\<close>)
qed

lemma list_dopenD: "list_dopen E sd path t = (dir, u) \<Longrightarrow> cl u = cl t \<and> transfer_active u = transfer_active t"
  by (auto simp: list_dopen_def split: prod.splits if_splits dest!: syscall_ftpD)

lemma owes_if [pushes]: "(b \<Longrightarrow> owes s D t) \<Longrightarrow> (\<not> b \<Longrightarrow> owes s D u) \<Longrightarrow> owes s D (if b then t else u)"
  by simp

lemma send_LIST_ends:
  assumes "client_ok E (cl s)"
  shows "may_end s (command_post E s) (send_LIST E path s)"
  unfolding send_LIST_def list_finish_def
  by (rule walks | hypsubst | rule endsI | (rule swaps, assumption) | (rule pulls, assumption) | rule pushes
      | (simp (no_asm_simp) add: delta_def; fail)
      | (clarsimp simp: command_post_def client_okD [OF assms] dest!: transfer_facts list_dopenD; fail)
      | (auto simp: delta_def; fail))+

lemma LIST_ends:
  assumes "client_ok E (cl s)"
  shows "may_end s (command_post E s) (cmd_LIST_func E s)"
proof -
  have "may_end s (command_post E s) (send_LIST E p u)" if "file_exists E q s = (b, u)" for p q b u
  proof -
    have q: "quiet s u" using that by (rule file_exists_quiet)
    then have "may_end u (command_post E u) (send_LIST E p u)"
      using assms send_LIST_ends [of E u] by (simp add: quiet_def)
    with q show ?thesis
      by (auto simp: may_end_def ends_def command_post_def quiet_def intro: owes_conserves)
  qed
  then show ?thesis
    by (auto simp: cmd_LIST_func_def send_LIST_ends assms split: option.split prod.split)
qed

lemma RETR_ends: "client_ok E (cl s) \<Longrightarrow> ends s (command_post E s) (cmd_RETR_func E s)"
  unfolding cmd_RETR_func_def by (rule send_file_ends)

lemma STOR_ends: "client_ok E (cl s) \<Longrightarrow> may_end s (command_post E s) (cmd_STOR_func E s)"
  unfolding cmd_STOR_func_def by (rule receive_file_ends)

lemma APPE_ends:
  assumes "client_ok E (cl s)"
  shows "may_end s (command_post E s) (cmd_APPE_func E s)"
proof -
  let ?s = "set_cl (\<lambda>c. c\<lparr>restore_point := - 1\<rparr>) s"
  have "conserves s ?s" by (rule pushes)+ simp_all
  moreover have "client_ok E (cl ?s)" using assms by (simp add: client_ok_def client_idle_def)
  ultimately show ?thesis
    using receive_file_ends [of E ?s]
    by (auto simp: cmd_APPE_func_def may_end_def ends_def command_post_def intro: owes_conserves)
qed

end
