(* ===== verification/Ftp_Commands.thy ===== *)
theory Ftp_Commands
  imports Ftp_Transfer
begin

text \<open>
  The remaining command handlers of \<^verbatim>\<open>libftpvita/ftpvita.c\<close>, the dispatch table with the custom
  commands, and the loop of the client thread. Custom handlers are code of another module: they are
  the parameter \<open>custom\<close>, which maps a code address to the handler's effect.
\<close>

section \<open>Handlers without a data connection\<close>

definition cmd_NOOP_func :: "'w env \<Rightarrow> 'w ftp \<Rightarrow> 'w ftp" where
  "cmd_NOOP_func E s = client_send_ctrl_msg E (''200 No operation ;)'' @ EOL) s"

definition cmd_USER_func :: "'w env \<Rightarrow> 'w ftp \<Rightarrow> 'w ftp" where
  "cmd_USER_func E s = client_send_ctrl_msg E (''331 Username OK, need password b0ss.'' @ EOL) s"

definition cmd_PASS_func :: "'w env \<Rightarrow> 'w ftp \<Rightarrow> 'w ftp" where
  "cmd_PASS_func E s = client_send_ctrl_msg E (''230 User logged in!'' @ EOL) s"

definition cmd_QUIT_func :: "'w env \<Rightarrow> 'w ftp \<Rightarrow> 'w ftp" where
  "cmd_QUIT_func E s =
     set_cl (\<lambda>c. c\<lparr>quit_requested := True\<rparr>) (client_send_ctrl_msg E (''221 Goodbye senpai :'('' @ EOL) s)"

definition cmd_SYST_func :: "'w env \<Rightarrow> 'w ftp \<Rightarrow> 'w ftp" where
  "cmd_SYST_func E s = client_send_ctrl_msg E (''215 UNIX Type: L8'' @ EOL) s"

definition cmd_TYPE_func :: "'w env \<Rightarrow> 'w ftp \<Rightarrow> 'w ftp" where
  "cmd_TYPE_func E s =
     (let data_type = (case recv_cmd_args (cl s) of Some a \<Rightarrow> deref a | None \<Rightarrow> NUL)
      in if data_type \<noteq> NUL \<and> data_type \<noteq> CR \<and> data_type \<noteq> LF
         then if data_type = CHR ''A'' \<or> data_type = CHR ''I'' then client_send_ctrl_msg E (''200 Okay'' @ EOL) s
              else client_send_ctrl_msg E (''504 Error: bad parameters?'' @ EOL) s
         else client_send_ctrl_msg E (''504 Error: bad parameters?'' @ EOL) s)"

definition dest_path :: "'w env \<Rightarrow> 'w ftp \<Rightarrow> path" where
  "dest_path E s = get_vita_path (gen_ftp_fullpath E (cl s) (PATH_MAX E))"

definition delete_file :: "'w env \<Rightarrow> path \<Rightarrow> 'w ftp \<Rightarrow> 'w ftp" where
  "delete_file E path s =
     (let (r, s) = syscall E (Io (sceIoRemove path)) s
      in if 0 \<le> sint (rc r) then client_send_ctrl_msg E (''250 File deleted.'' @ EOL) s
         else client_send_ctrl_msg E (''550 Could not delete the file.'' @ EOL) s)"

definition cmd_DELE_func :: "'w env \<Rightarrow> 'w ftp \<Rightarrow> 'w ftp" where
  "cmd_DELE_func E s = delete_file E (dest_path E s) s"

definition delete_dir :: "'w env \<Rightarrow> path \<Rightarrow> 'w ftp \<Rightarrow> 'w ftp" where
  "delete_dir E path s =
     (let (r, s) = syscall E (Io (sceIoRmdir path)) s
      in if 0 \<le> sint (rc r) then client_send_ctrl_msg E (''250 Directory deleted.'' @ EOL) s
         else if rc r = 0x8001005A then client_send_ctrl_msg E (''550 Directory is not empty.'' @ EOL) s
         else client_send_ctrl_msg E (''550 Could not delete the directory.'' @ EOL) s)"

definition cmd_RMD_func :: "'w env \<Rightarrow> 'w ftp \<Rightarrow> 'w ftp" where
  "cmd_RMD_func E s = delete_dir E (dest_path E s) s"

definition create_dir :: "'w env \<Rightarrow> path \<Rightarrow> 'w ftp \<Rightarrow> 'w ftp" where
  "create_dir E path s =
     (let (r, s) = syscall E (Io (sceIoMkdir path)) s
      in if 0 \<le> sint (rc r) then client_send_ctrl_msg E (''257 Directory created.'' @ EOL) s
         else client_send_ctrl_msg E (''550 Could not create the directory.'' @ EOL) s)"

definition cmd_MKD_func :: "'w env \<Rightarrow> 'w ftp \<Rightarrow> 'w ftp" where
  "cmd_MKD_func E s = create_dir E (dest_path E s) s"

text \<open>\<open>strcpy\<close> of a null path does not return; it happens only if the system finds a file at NULL.\<close>

definition cmd_RNFR_func :: "'w env \<Rightarrow> 'w ftp \<Rightarrow> 'w ftp option" where
  "cmd_RNFR_func E s =
     (let vita_path_src = dest_path E s;
          (found, s) = file_exists E vita_path_src s
      in if \<not> found then Some (client_send_ctrl_msg E (''550 The file doesn't exist.'' @ EOL) s)
         else (case vita_path_src of
                 None \<Rightarrow> None
               | Some p \<Rightarrow> Some (client_send_ctrl_msg E (''350 I need the destination name b0ss.'' @ EOL)
                   (set_cl (\<lambda>c. c\<lparr>rename_path := p\<rparr>) s))))"

definition cmd_RNTO_func :: "'w env \<Rightarrow> 'w ftp \<Rightarrow> 'w ftp" where
  "cmd_RNTO_func E s =
     (let vita_path_dst = dest_path E s;
          (r, s) = syscall E (Io (sceIoRename (rename_path (cl s)) vita_path_dst)) s
      in if neg (rc r) then client_send_ctrl_msg E (''550 Error renaming the file.'' @ EOL) s
         else client_send_ctrl_msg E (''250 Rename completed.'' @ EOL) s)"

definition cmd_SIZE_func :: "'w env \<Rightarrow> 'w ftp \<Rightarrow> 'w ftp" where
  "cmd_SIZE_func E s =
     (let (r, s) = syscall E (Io (sceIoGetstat (dest_path E s))) s
      in if neg (rc r) then client_send_ctrl_msg E (''550 The file doesn't exist.'' @ EOL) s
         else client_send_ctrl_msg E (''213 '' @ dec_int (sint (st_size (stat r))) @ EOL) s)"

definition cmd_REST_func :: "'w env \<Rightarrow> 'w ftp \<Rightarrow> 'w ftp" where
  "cmd_REST_func E s =
     (case ftpvita_parse_rest_offset (recv_cmd_args (cl s)) of
        None \<Rightarrow> client_send_ctrl_msg E (''501 Invalid REST offset.'' @ EOL) s
      | Some restore \<Rightarrow>
          let s = set_cl (\<lambda>c. c\<lparr>restore_point := restore\<rparr>) s
          in client_send_ctrl_msg E (snprintf 64 (''350 Resuming at '' @ dec_nat (unat (restore_point (cl s))) @ EOL)) s)"

definition cmd_FEAT_func :: "'w env \<Rightarrow> 'w ftp \<Rightarrow> 'w ftp" where
  "cmd_FEAT_func E s =
     (let s = client_send_ctrl_msg E (''211-extensions'' @ EOL) s;
          s = client_send_ctrl_msg E ('' REST STREAM'' @ EOL) s;
          s = client_send_ctrl_msg E ('' UTF8'' @ EOL) s
      in client_send_ctrl_msg E (''211 end'' @ EOL) s)"

definition cmd_OPTS_func :: "'w env \<Rightarrow> 'w ftp \<Rightarrow> 'w ftp" where
  "cmd_OPTS_func E s = client_send_ctrl_msg E (''501 bad OPTS'' @ EOL) s"

section \<open>Dispatch\<close>

datatype cmd_name = CMD_NOOP | CMD_USER | CMD_PASS | CMD_QUIT | CMD_SYST | CMD_PASV | CMD_PORT | CMD_LIST | CMD_PWD | CMD_CWD | CMD_TYPE | CMD_CDUP | CMD_RETR | CMD_STOR
  | CMD_DELE | CMD_RMD | CMD_MKD | CMD_RNFR | CMD_RNTO | CMD_SIZE | CMD_REST | CMD_FEAT | CMD_OPTS | CMD_APPE

definition cmd_dispatch_table :: "(string \<times> cmd_name) list" where
  "cmd_dispatch_table =
     [(''NOOP'', CMD_NOOP), (''USER'', CMD_USER), (''PASS'', CMD_PASS), (''QUIT'', CMD_QUIT), (''SYST'', CMD_SYST), (''PASV'', CMD_PASV),
      (''PORT'', CMD_PORT), (''LIST'', CMD_LIST), (''PWD'', CMD_PWD), (''CWD'', CMD_CWD), (''TYPE'', CMD_TYPE), (''CDUP'', CMD_CDUP),
      (''RETR'', CMD_RETR), (''STOR'', CMD_STOR), (''DELE'', CMD_DELE), (''RMD'', CMD_RMD), (''MKD'', CMD_MKD), (''RNFR'', CMD_RNFR),
      (''RNTO'', CMD_RNTO), (''SIZE'', CMD_SIZE), (''REST'', CMD_REST), (''FEAT'', CMD_FEAT), (''OPTS'', CMD_OPTS), (''APPE'', CMD_APPE)]"

fun cmd_func :: "'w env \<Rightarrow> cmd_name \<Rightarrow> 'w ftp \<Rightarrow> 'w ftp option" where
  "cmd_func E CMD_NOOP s = Some (cmd_NOOP_func E s)"
| "cmd_func E CMD_USER s = Some (cmd_USER_func E s)"
| "cmd_func E CMD_PASS s = Some (cmd_PASS_func E s)"
| "cmd_func E CMD_QUIT s = Some (cmd_QUIT_func E s)"
| "cmd_func E CMD_SYST s = Some (cmd_SYST_func E s)"
| "cmd_func E CMD_PASV s = Some (cmd_PASV_func E s)"
| "cmd_func E CMD_PORT s = Some (cmd_PORT_func E s)"
| "cmd_func E CMD_LIST s = cmd_LIST_func E s"
| "cmd_func E CMD_PWD s = Some (cmd_PWD_func E s)"
| "cmd_func E CMD_CWD s = cmd_CWD_func E s"
| "cmd_func E CMD_TYPE s = Some (cmd_TYPE_func E s)"
| "cmd_func E CMD_CDUP s = cmd_CDUP_func E s"
| "cmd_func E CMD_RETR s = Some (cmd_RETR_func E s)"
| "cmd_func E CMD_STOR s = cmd_STOR_func E s"
| "cmd_func E CMD_DELE s = Some (cmd_DELE_func E s)"
| "cmd_func E CMD_RMD s = Some (cmd_RMD_func E s)"
| "cmd_func E CMD_MKD s = Some (cmd_MKD_func E s)"
| "cmd_func E CMD_RNFR s = cmd_RNFR_func E s"
| "cmd_func E CMD_RNTO s = Some (cmd_RNTO_func E s)"
| "cmd_func E CMD_SIZE s = Some (cmd_SIZE_func E s)"
| "cmd_func E CMD_REST s = Some (cmd_REST_func E s)"
| "cmd_func E CMD_FEAT s = Some (cmd_FEAT_func E s)"
| "cmd_func E CMD_OPTS s = Some (cmd_OPTS_func E s)"
| "cmd_func E CMD_APPE s = cmd_APPE_func E s"

datatype dispatch_func = Builtin cmd_name | Custom u32

text \<open>The second loop of \<open>get_dispatch_func\<close>; a valid slot has a name.\<close>

fun find_custom :: "string \<Rightarrow> custom_command list \<Rightarrow> u32 option" where
  "find_custom cmd [] = None"
| "find_custom cmd (d # ds) =
     (if custom_valid d \<and> custom_cmd d = Some cmd then Some (custom_func d) else find_custom cmd ds)"

definition get_dispatch_func :: "string \<Rightarrow> 'w ftp \<Rightarrow> dispatch_func option" where
  "get_dispatch_func cmd s =
     (case map_of cmd_dispatch_table cmd of
        Some c \<Rightarrow> Some (Builtin c)
      | None \<Rightarrow> map_option Custom (find_custom cmd (custom_command_dispatchers s)))"

fun run_dispatch :: "'w env \<Rightarrow> (u32 \<Rightarrow> 'w ftp \<Rightarrow> 'w ftp option) \<Rightarrow> dispatch_func \<Rightarrow> 'w ftp \<Rightarrow> 'w ftp option" where
  "run_dispatch E custom (Builtin c) s = cmd_func E c s"
| "run_dispatch E custom (Custom f) s = custom f s"

section \<open>The client thread\<close>

text \<open>
  One turn of the loop of \<open>client_thread\<close>: \<open>Inr s\<close> continues, \<open>Inl s\<close> leaves the loop. The reply to
  an unreadable line and the delay before a dispatch are part of it.
\<close>

definition client_dispatch ::
  "'w env \<Rightarrow> (u32 \<Rightarrow> 'w ftp \<Rightarrow> 'w ftp option) \<Rightarrow> string \<Rightarrow> 'w ftp \<Rightarrow> ('w ftp + 'w ftp) option"
where
  "client_dispatch E custom cmd s =
     (case get_dispatch_func cmd s of
        None \<Rightarrow> Some (Inr (client_send_ctrl_msg E (''502 Sorry, command not implemented. :('' @ EOL) s))
      | Some f \<Rightarrow>
          (case run_dispatch E custom f s of
             None \<Rightarrow> None
           | Some s \<Rightarrow> if quit_requested (cl s) then Some (Inl s) else Some (Inr s)))"

definition client_turn :: "'w env \<Rightarrow> (u32 \<Rightarrow> 'w ftp \<Rightarrow> 'w ftp option) \<Rightarrow> 'w ftp \<Rightarrow> ('w ftp + 'w ftp) option" where
  "client_turn E custom s =
     (let (r, s) = syscall E (Net (sceNetRecv (ctrl_sockfd (cl s)) 511)) s;
          s = set_cl (\<lambda>c. c\<lparr>n_recv := rc r, recv_buffer := stored r 511\<rparr>) s
      in if 0 < sint (n_recv (cl s))
         then (case ftpvita_parse_command_line (Some (recv_buffer (cl s))) 16 of
                 None \<Rightarrow> Some (Inr (client_send_ctrl_msg E (''500 Empty command.'' @ EOL) s))
               | Some (cmd, args) \<Rightarrow>
                   let s = set_cl (\<lambda>c. c\<lparr>recv_cmd_args := Some args\<rparr>) s;
                       s = exec E (Kernel (sceKernelDelayThread 1000)) s
                   in client_dispatch E custom cmd s)
         else Some (Inl s))"

partial_function (option) client_loop :: "'w env \<Rightarrow> (u32 \<Rightarrow> 'w ftp \<Rightarrow> 'w ftp option) \<Rightarrow> 'w ftp \<Rightarrow> 'w ftp option" where
  "client_loop E custom s =
     (case client_turn E custom s of
        None \<Rightarrow> None
      | Some (Inl s) \<Rightarrow> Some s
      | Some (Inr s) \<Rightarrow> client_loop E custom s)"

section \<open>Every command keeps the client's invariant\<close>

lemma client_ok_upd:
  "client_ok E (c\<lparr>rename_path := p\<rparr>) \<longleftrightarrow> client_ok E c" "client_ok E (c\<lparr>restore_point := n\<rparr>) \<longleftrightarrow> client_ok E c"
  "client_ok E (c\<lparr>quit_requested := b\<rparr>) \<longleftrightarrow> client_ok E c" "client_ok E (c\<lparr>recv_cmd_args := a\<rparr>) \<longleftrightarrow> client_ok E c"
  "client_ok E (c\<lparr>n_recv := i\<rparr>) \<longleftrightarrow> client_ok E c" "client_ok E (c\<lparr>recv_buffer := m\<rparr>) \<longleftrightarrow> client_ok E c"
  by (simp_all add: client_ok_def client_idle_def)

lemma quiet_ctrl: "quiet s t \<Longrightarrow> quiet s (client_send_ctrl_msg E m t)"
  by (simp add: quiet_def owes_ctrl)

lemma quiet_call_ctrl: "syscall E c s = (r, t) \<Longrightarrow> neutral c \<Longrightarrow> quiet s (client_send_ctrl_msg E m t)"
  by (rule quiet_ctrl, rule quiet_syscall)

lemma quiet_ends: "quiet s t \<Longrightarrow> client_ok E (cl s) \<Longrightarrow> ends s (command_post E s) t"
  by (simp add: ends_def command_post_def quiet_def)

text \<open>The commands that leave the client record as it is.\<close>

lemma quiet_commands:
  "quiet s (cmd_NOOP_func E s)" "quiet s (cmd_USER_func E s)" "quiet s (cmd_PASS_func E s)" "quiet s (cmd_SYST_func E s)"
  "quiet s (cmd_TYPE_func E s)" "quiet s (cmd_FEAT_func E s)" "quiet s (cmd_OPTS_func E s)"
  by (simp_all add: cmd_NOOP_func_def cmd_USER_func_def cmd_PASS_func_def cmd_SYST_func_def cmd_TYPE_func_def
      cmd_FEAT_func_def cmd_OPTS_func_def Let_def quiet_ctrl)

lemma quiet_path_commands:
  "quiet s (cmd_DELE_func E s)" "quiet s (cmd_RMD_func E s)" "quiet s (cmd_MKD_func E s)" "quiet s (cmd_RNTO_func E s)"
  "quiet s (cmd_SIZE_func E s)"
  by (auto simp: cmd_DELE_func_def delete_file_def cmd_RMD_func_def delete_dir_def cmd_MKD_func_def create_dir_def
      cmd_RNTO_func_def cmd_SIZE_func_def Let_def elim!: quiet_call_ctrl split: prod.split)

lemma QUIT_ends: "client_ok E (cl s) \<Longrightarrow> ends s (command_post E s) (cmd_QUIT_func E s)"
  unfolding cmd_QUIT_func_def
  by (rule endsI, (rule pushes)+) (simp_all add: command_post_def client_ok_upd)

lemma REST_ends: "client_ok E (cl s) \<Longrightarrow> ends s (command_post E s) (cmd_REST_func E s)"
  unfolding cmd_REST_func_def
  by (rule walks | rule endsI | rule pushes | (simp add: command_post_def client_ok_upd; fail))+

lemma RNFR_ends:
  assumes "client_ok E (cl s)"
  shows "may_end s (command_post E s) (cmd_RNFR_func E s)"
  unfolding cmd_RNFR_func_def
  by (rule walks | rule endsI | (rule swaps, assumption) | rule pushes
      | (clarsimp simp: command_post_def client_ok_upd assms dest!: file_exists_quiet quietD; fail))+

lemma command_post_from_idle:
  "ends s (\<lambda>t. client_idle (cl t) \<and> transfer_active t = transfer_active s \<and> cur_path (cl t) = cur_path (cl s)) t \<Longrightarrow>
   client_ok E (cl s) \<Longrightarrow> ends s (command_post E s) t"
  by (simp add: ends_def command_post_def client_ok_def)

text \<open>Every entry of the dispatch table, whatever state the client is in between two commands.\<close>

lemma cmd_func_ends:
  assumes "client_ok E (cl s)" and "arg_fits (cl s)" and "514 \<le> PATH_MAX E"
  shows "may_end s (command_post E s) (cmd_func E c s)"
proof -
  have "client_idle (cl s)" using assms(1) by (simp add: client_ok_def)
  then show ?thesis
    using assms CDUP_ends [of E s]
    by (cases c) (auto simp: quiet_commands quiet_path_commands intro!: may_end_Some quiet_ends QUIT_ends REST_ends RNFR_ends
        PWD_ends RETR_ends STOR_ends APPE_ends LIST_ends CWD_ends [THEN conjunct1]
        command_post_from_idle [OF PASV_ends] command_post_from_idle [OF PORT_ends])
qed

section \<open>The loop of the client thread\<close>

lemma parse_command_line_suffix:
  assumes "ftpvita_parse_command_line (Some s) n = Some (c, a)"
  shows "length a \<le> length s"
proof -
  have "a = dropWhile is_blank (dropWhile command_char (dropWhile is_blank s))"
    using assms by (auto simp: parse_command_line_eq Let_def split: if_splits)
  then show ?thesis
    using length_dropWhile_le [of is_blank] length_dropWhile_le [of command_char] by (metis order_trans)
qed

text \<open>What the server relies on from a custom handler is what its own handlers guarantee.\<close>

definition custom_ok :: "'w env \<Rightarrow> (u32 \<Rightarrow> 'w ftp \<Rightarrow> 'w ftp option) \<Rightarrow> bool" where
  "custom_ok E custom \<longleftrightarrow> (\<forall>f s. client_ok E (cl s) \<longrightarrow> may_end s (command_post E s) (custom f s))"

definition turn_end :: "'w ftp + 'w ftp \<Rightarrow> 'w ftp" where
  "turn_end x = (case x of Inl s \<Rightarrow> s | Inr s \<Rightarrow> s)"

lemma ends_ctrl: "ends s (command_post E s) t \<Longrightarrow> ends s (command_post E s) (client_send_ctrl_msg E m t)"
  by (simp add: ends_def command_post_def owes_ctrl)

lemma ends_after: "ends s (command_post E s) t \<Longrightarrow> ends t (command_post E t) u \<Longrightarrow> ends s (command_post E s) u"
  by (auto simp: ends_def command_post_def intro: owes_conserves)

lemma client_dispatch_ends:
  assumes "client_ok E (cl s)" and "arg_fits (cl s)" and "514 \<le> PATH_MAX E" and "custom_ok E custom"
    and "client_dispatch E custom cmd s = Some y"
  shows "ends s (command_post E s) (turn_end y)"
proof -
  have "may_end s (command_post E s) (run_dispatch E custom f s)" for f
    using cmd_func_ends assms by (cases f) (auto simp: custom_ok_def)
  moreover have "ends s (command_post E s) (client_send_ctrl_msg E m s)" for m
    using assms(1) by (intro ends_ctrl) (simp add: ends_def command_post_def)
  ultimately show ?thesis
    using assms(5) by (auto simp: client_dispatch_def turn_end_def may_end_def split: option.splits if_splits)
qed

lemma client_turn_ends:
  assumes "client_ok E (cl s)" and "514 \<le> PATH_MAX E" and "custom_ok E custom" and "client_turn E custom s = Some y"
  shows "ends s (command_post E s) (turn_end y)"
proof -
  obtain r s1 where 1: "syscall E (Net (sceNetRecv (ctrl_sockfd (cl s)) 511)) s = (r, s1)" by fastforce
  let ?s2 = "set_cl (\<lambda>c. c\<lparr>n_recv := rc r, recv_buffer := stored r 511\<rparr>) s1"
  have q: "quiet s s1" using 1 by (rule quiet_syscall) simp
  have "conserves s ?s2" by (rule pushes, rule owes_quiet [OF q]) (simp_all add: owes_refl)
  then have here: "ends s (command_post E s) ?s2"
    using assms(1) q by (simp add: ends_def command_post_def client_ok_upd quiet_def)
  consider "sint (rc r) \<le> 0" | "0 < sint (rc r)" "ftpvita_parse_command_line (Some (stored r 511)) 16 = None"
    | c a where "0 < sint (rc r)" "ftpvita_parse_command_line (Some (stored r 511)) 16 = Some (c, a)"
    by (metis not_le option.exhaust surj_pair)
  then show ?thesis
  proof cases
    case 1
    with assms(4) here \<open>syscall E _ s = _\<close> show ?thesis by (auto simp: client_turn_def turn_end_def)
  next
    case 2
    with assms(4) ends_ctrl [OF here] \<open>syscall E _ s = _\<close> show ?thesis by (auto simp: client_turn_def turn_end_def)
  next
    case (3 c a)
    let ?s3 = "exec E (Kernel (sceKernelDelayThread 1000)) (set_cl (\<lambda>c. c\<lparr>recv_cmd_args := Some a\<rparr>) ?s2)"
    have fits: "arg_fits (cl ?s3)"
      using parse_command_line_suffix [OF 3(2)] length_stored [of r 511] by (simp add: arg_fits_def)
    have "conserves s ?s3" by (rule pushes, rule pushes, rule owes_eq, use here in \<open>auto simp: ends_def\<close>)
    then have there: "ends s (command_post E s) ?s3"
      using here by (simp add: ends_def command_post_def client_ok_upd)
    have "client_dispatch E custom c ?s3 = Some y" using assms(4) 3 \<open>syscall E _ s = _\<close> by (simp add: client_turn_def)
    with there fits assms(2,3) have "ends ?s3 (command_post E ?s3) (turn_end y)"
      by (intro client_dispatch_ends) (auto simp: ends_def command_post_def)
    with there show ?thesis by (rule ends_after)
  qed
qed

text \<open>The whole loop, by induction on its unfolding.\<close>

lemma client_loop_ends:
  assumes "client_ok E (cl s)" and "514 \<le> PATH_MAX E" and "custom_ok E custom" and "client_loop E custom s = Some t"
  shows "ends s (command_post E s) t"
proof -
  let ?P = "\<lambda>E' c s t. E' = E \<longrightarrow> c = custom \<longrightarrow> client_ok E (cl s) \<longrightarrow> ends s (command_post E s) t"
  have "?P E custom s t"
  proof (rule client_loop.raw_induct [where P = ?P, OF _ assms(4)], intro impI)
    fix f E' c s y
    assume IH: "\<And>E' c s y. f E' c s = Some y \<Longrightarrow> ?P E' c s y" and same: "E' = E" "c = custom" and ok: "client_ok E (cl s)"
      and eq: "(case client_turn E' c s of None \<Rightarrow> None | Some (Inl s) \<Rightarrow> Some s | Some (Inr s) \<Rightarrow> f E' c s) = Some y"
    then obtain x where x: "client_turn E custom s = Some x" by (cases "client_turn E custom s") auto
    have turn: "ends s (command_post E s) (turn_end x)" by (rule client_turn_ends [OF ok assms(2,3) x])
    show "ends s (command_post E s) y"
    proof (cases x)
      case (Inl t)
      with eq x same turn show ?thesis by (simp add: turn_end_def)
    next
      case (Inr t)
      with eq x same have "f E custom t = Some y" by simp
      moreover have "client_ok E (cl t)" using turn Inr by (simp add: turn_end_def ends_def command_post_def)
      ultimately have "ends t (command_post E t) y" using IH by blast
      with turn Inr show ?thesis using ends_after [of s E t y] by (simp add: turn_end_def)
    qed
  qed
  then show ?thesis using assms(1) by blast
qed

text \<open>C1: a client session conserves everything. However many commands a client sends, in whatever order,
  and however each of them fails, when the session's loop ends every socket, file, directory handle and
  buffer that the commands acquired has been released exactly once, except for the sockets recorded in the
  client record; the transfer slot is as it was at the start; and the record satisfies the invariant of an
  idle client with a well-formed current directory. Custom handlers are held to the same contract.\<close>

theorem client_session_conserves:
  assumes "client_ok E (cl s)" and "514 \<le> PATH_MAX E" and "custom_ok E custom" and "client_loop E custom s = Some t"
  shows "balance (trace t) x - held (cl t) x = balance (trace s) x - held (cl s) x \<and>
    client_ok E (cl t) \<and> transfer_active t = transfer_active s \<and> same_server s t"
  using client_loop_ends [OF assms] by (auto simp: ends_def owes_def command_post_def unaccounted_def)

text \<open>A session of one command, after which the peer closes the connection.\<close>

definition noop_session :: "ret list ftp" where
  "noop_session = script_ftp [answer_text (''NOOP'' @ EOL), answer 0, answer 25, answer 0] idle_client"

lemma noop_line: "ftpvita_parse_command_line (Some (stored (answer_text (''NOOP'' @ EOL)) 511)) 16 = Some (''NOOP'', EOL)"
  by (simp add: parse_command_line_eq answer_text_def answer_def stored_def EOL_def is_blank_def command_char_def
      upt_rec Let_def)

lemma noop_session_runs: "\<exists>t. client_loop script_env (\<lambda>_ s. Some s) noop_session = Some t"
  using noop_line
  by (simp add: client_loop.simps client_turn_def client_dispatch_def noop_session_def script_syscall exec_def
      get_dispatch_func_def cmd_dispatch_table_def cmd_NOOP_func_def client_send_ctrl_msg_def
      answer_text_def answer_def EOL_def idle_client_def script_ftp_def)

theorem client_session_conserves_witness:
  "\<exists>t. client_loop script_env (\<lambda>_ s. Some s) noop_session = Some t \<and>
     balance (trace t) (Sock 7) - held (cl t) (Sock 7) = - 1 \<and> client_ok script_env (cl t)"
proof -
  obtain t where t: "client_loop script_env (\<lambda>_ s. Some s) noop_session = Some t" using noop_session_runs by blast
  have "custom_ok script_env (\<lambda>_ s. Some s)"
    by (simp add: custom_ok_def may_end_def ends_def command_post_def)
  with t idle_client_ok show ?thesis
    using client_session_conserves [of script_env noop_session "\<lambda>_ s. Some s" t "Sock 7"]
    by (simp add: noop_session_def held_def holds_def idle_client_def)
qed

end
