(* ===== verification/Client_List.thy ===== *)
theory Client_List
  imports Ftp_Path "HOL-Library.Monad_Syntax"
begin

text \<open>
  The list of connected clients of \<^verbatim>\<open>ftpvita.c\<close>: a doubly linked list in the heap, with the count of its
  elements in \<open>number_clients\<close>. An access through a pointer that is NULL or dangling gives \<open>None\<close>; that it
  never happens is part of what is proved. The list is only read and written under its mutex, so an
  operation is one step.
\<close>

section \<open>The operations\<close>

abbreviation MAX_CLIENTS :: nat where
  "MAX_CLIENTS \<equiv> 8"

text \<open>An assignment to a field of the record at an address.\<close>

definition client_set :: "u32 \<Rightarrow> (ftpvita_client_info \<Rightarrow> ftpvita_client_info) \<Rightarrow> 'w ftp \<Rightarrow> 'w ftp option" where
  "client_set p f s =
     (case client_heap s p of
        None \<Rightarrow> None
      | Some c \<Rightarrow> Some (s\<lparr>client_heap := (client_heap s)(p \<mapsto> f c)\<rparr>))"

definition lock_list :: "'w env \<Rightarrow> 'w ftp \<Rightarrow> 'w ftp" where
  "lock_list E s = exec E (Kernel (sceKernelLockMutex (client_list_mtx s))) s"

definition unlock_list :: "'w env \<Rightarrow> 'w ftp \<Rightarrow> 'w ftp" where
  "unlock_list E s = exec E (Kernel (sceKernelUnlockMutex (client_list_mtx s))) s"

definition client_list_add :: "'w env \<Rightarrow> u32 \<Rightarrow> 'w ftp \<Rightarrow> (bool \<times> 'w ftp) option" where
  "client_list_add E client s =
     (let s = lock_list E s
      in if reboot_quiesce_requested s \<noteq> 0 \<or> int MAX_CLIENTS \<le> sint (number_clients s)
         then Some (False, unlock_list E s)
         else do {
           s \<leftarrow> (if client_list s = 0
                then do {
                  s \<leftarrow> Some (s\<lparr>client_list := client\<rparr>);
                  s \<leftarrow> client_set client (\<lambda>c. c\<lparr>prev_client := 0\<rparr>) s;
                  client_set client (\<lambda>c. c\<lparr>next_client := 0\<rparr>) s }
                else do {
                  s \<leftarrow> client_set client (\<lambda>c. c\<lparr>next_client := client_list s\<rparr>) s;
                  s \<leftarrow> client_set (client_list s) (\<lambda>c. c\<lparr>prev_client := client\<rparr>) s;
                  s \<leftarrow> client_set client (\<lambda>c. c\<lparr>prev_client := 0\<rparr>) s;
                  Some (s\<lparr>client_list := client\<rparr>) });
           s \<leftarrow> client_set client (\<lambda>c. c\<lparr>restore_point := 0\<rparr>) s;
           s \<leftarrow> client_set client (\<lambda>c. c\<lparr>in_client_list := True\<rparr>) s;
           s \<leftarrow> Some (s\<lparr>number_clients := number_clients s + 1\<rparr>);
           Some (True, unlock_list E s) })"

text \<open>The list surgery of \<open>client_list_delete\<close>, then the operation.\<close>

definition client_unlink :: "u32 \<Rightarrow> 'w ftp \<Rightarrow> 'w ftp option" where
  "client_unlink client s = do {
     c \<leftarrow> client_heap s client;
     s \<leftarrow> (if prev_client c \<noteq> 0 then client_set (prev_client c) (\<lambda>d. d\<lparr>next_client := next_client c\<rparr>) s else Some s);
     c \<leftarrow> client_heap s client;
     s \<leftarrow> (if next_client c \<noteq> 0 then client_set (next_client c) (\<lambda>d. d\<lparr>prev_client := prev_client c\<rparr>) s else Some s);
     c \<leftarrow> client_heap s client;
     Some (if client = client_list s then s\<lparr>client_list := next_client c\<rparr> else s) }"

definition client_list_delete :: "'w env \<Rightarrow> u32 \<Rightarrow> 'w ftp \<Rightarrow> (bool \<times> 'w ftp) option" where
  "client_list_delete E client s = do {
     s \<leftarrow> Some (lock_list E s);
     c \<leftarrow> client_heap s client;
     if \<not> in_client_list c then Some (False, unlock_list E s)
     else do {
       s \<leftarrow> client_unlink client s;
       s \<leftarrow> client_set client (\<lambda>c. c\<lparr>next_client := 0\<rparr>) s;
       s \<leftarrow> client_set client (\<lambda>c. c\<lparr>prev_client := 0\<rparr>) s;
       s \<leftarrow> client_set client (\<lambda>c. c\<lparr>in_client_list := False\<rparr>) s;
       s \<leftarrow> Some (if 0 < sint (number_clients s) then s\<lparr>number_clients := number_clients s - 1\<rparr> else s);
       Some (True, unlock_list E s) } }"

abbreviation data_abort_flags :: "abort_flag list" where
  "data_abort_flags \<equiv> [SCE_NET_SOCKET_ABORT_FLAG_RCV_PRESERVATION, SCE_NET_SOCKET_ABORT_FLAG_SND_PRESERVATION]"

definition abort_socket :: "'w env \<Rightarrow> i32 \<Rightarrow> 'w ftp \<Rightarrow> 'w ftp" where
  "abort_socket E fd s = (if neg fd then s else exec E (Net (sceNetSocketAbort fd data_abort_flags)) s)"

text \<open>The loop of \<open>client_list_thread_end\<close>; the first argument is the free space in the array of thread ids.\<close>

fun detach_clients :: "'w env \<Rightarrow> nat \<Rightarrow> u32 \<Rightarrow> 'w ftp \<Rightarrow> (i32 list \<times> 'w ftp) option" where
  "detach_clients E 0 it s = Some ([], s)"
| "detach_clients E (Suc n) it s =
     (if it = 0 then Some ([], s)
      else do {
        c \<leftarrow> client_heap s it;
        s \<leftarrow> Some (exec E (Net (sceNetSocketAbort (ctrl_sockfd c) [SCE_NET_SOCKET_ABORT_FLAG_RCV_PRESERVATION])) s);
        s \<leftarrow> Some (if data_con_type c \<noteq> FTP_DATA_CONNECTION_NONE
             then let s = abort_socket E (data_sockfd c) s
                  in if data_con_type c = FTP_DATA_CONNECTION_PASSIVE then abort_socket E (pasv_sockfd c) s else s
             else s);
        s \<leftarrow> client_set it (\<lambda>c. c\<lparr>in_client_list := False\<rparr>) s;
        (thids, s) \<leftarrow> detach_clients E n (next_client c) s;
        Some (thid c # thids, s) })"

fun reap_threads :: "'w env \<Rightarrow> i32 list \<Rightarrow> 'w ftp \<Rightarrow> 'w ftp" where
  "reap_threads E [] s = s"
| "reap_threads E (t # ts) s =
     reap_threads E ts (exec E (Kernel (sceKernelDeleteThread t)) (exec E (Kernel (sceKernelWaitThreadEnd t)) s))"

definition client_list_thread_end :: "'w env \<Rightarrow> 'w ftp \<Rightarrow> 'w ftp option" where
  "client_list_thread_end E s =
     (if neg (client_list_mtx s) then Some s
      else do {
        s \<leftarrow> Some (lock_list E s);
        (client_thids, s) \<leftarrow> detach_clients E MAX_CLIENTS (client_list s) s;
        s \<leftarrow> Some (s\<lparr>client_list := 0, number_clients := 0, transfer_active := 0\<rparr>);
        s \<leftarrow> Some (unlock_list E s);
        Some (reap_threads E client_thids s) })"

text \<open>The walk of \<open>ftpvita_abort_clients\<close> has no bound of its own: it ends because the list does.\<close>

partial_function (option) abort_loop :: "'w env \<Rightarrow> u32 \<Rightarrow> i32 \<Rightarrow> 'w ftp \<Rightarrow> (i32 \<times> 'w ftp) option" where
  "abort_loop E it aborted s =
     (if it = 0 then Some (aborted, s)
      else case client_heap s it of
             None \<Rightarrow> None
           | Some c \<Rightarrow>
               abort_loop E (next_client c) (aborted + 1)
                 (abort_socket E (pasv_sockfd c) (abort_socket E (data_sockfd c) (abort_socket E (ctrl_sockfd c) s))))"

definition ftpvita_abort_clients :: "'w env \<Rightarrow> 'w ftp \<Rightarrow> (i32 \<times> 'w ftp) option" where
  "ftpvita_abort_clients E s =
     (if neg (client_list_mtx s) then Some (0, s)
      else let (r, s) = syscall E (Kernel (sceKernelLockMutex (client_list_mtx s))) s
           in if neg (rc r) then Some (- 1, s)
              else do {
                (aborted, s) \<leftarrow> abort_loop E (client_list s) 0 s;
                Some (aborted, unlock_list E s) })"

definition ftpvita_get_active_client_count :: "'w ftp \<Rightarrow> i32" where
  "ftpvita_get_active_client_count s = number_clients s"

section \<open>Segments of the list\<close>

text \<open>\<open>dseg h q p xs r l\<close>: the records at \<open>xs\<close> form a doubly linked segment that starts at \<open>p\<close> with predecessor \<open>q\<close>
  and leads to \<open>r\<close> with predecessor \<open>l\<close>.\<close>

fun dseg :: "(u32 \<Rightarrow> ftpvita_client_info option) \<Rightarrow> u32 \<Rightarrow> u32 \<Rightarrow> u32 list \<Rightarrow> u32 \<Rightarrow> u32 \<Rightarrow> bool" where
  "dseg h q p [] r l \<longleftrightarrow> p = r \<and> q = l"
| "dseg h q p (x # xs) r l \<longleftrightarrow>
     p = x \<and> x \<noteq> 0 \<and> (\<exists>c. h x = Some c \<and> prev_client c = q \<and> in_client_list c \<and> dseg h x (next_client c) xs r l)"

lemma dseg_append: "dseg h q p (xs @ ys) r l \<longleftrightarrow> (\<exists>m k. dseg h q p xs m k \<and> dseg h k m ys r l)"
  by (induction xs arbitrary: q p) auto

lemma dseg_upd [simp]: "y \<notin> set xs \<Longrightarrow> dseg (h(y := v)) q p xs r l \<longleftrightarrow> dseg h q p xs r l"
  by (induction xs arbitrary: q p) auto

lemma dseg_in: "dseg h q p xs r l \<Longrightarrow> x \<in> set xs \<Longrightarrow> x \<noteq> 0 \<and> (\<exists>c. h x = Some c \<and> in_client_list c)"
  by (induction xs arbitrary: q p) auto

lemma dseg_last: "dseg h q p xs r l \<Longrightarrow> l = (if xs = [] then q else last xs)"
  by (induction xs arbitrary: q p) auto

lemma dseg_first: "dseg h q p xs r l \<Longrightarrow> p = (if xs = [] then r else hd xs)"
  by (cases xs) auto

text \<open>
  The invariant of the registry: \<open>ps\<close> are the connected clients, newest first. A record whose flag says
  that it is listed is listed.
\<close>

definition registry :: "'w ftp \<Rightarrow> u32 list \<Rightarrow> bool" where
  "registry s ps \<longleftrightarrow>
     distinct ps \<and> (\<exists>l. dseg (client_heap s) 0 (client_list s) ps 0 l) \<and> length ps \<le> MAX_CLIENTS \<and>
     number_clients s = word_of_nat (length ps) \<and> client_heap s 0 = None \<and>
     (\<forall>p c. client_heap s p = Some c \<longrightarrow> in_client_list c \<longrightarrow> p \<in> set ps)"

lemma registry_in: "registry s ps \<Longrightarrow> client_heap s p = Some c \<Longrightarrow> in_client_list c \<longleftrightarrow> p \<in> set ps"
  using dseg_in by (fastforce simp: registry_def)

lemma registry_count: "registry s ps \<Longrightarrow> sint (number_clients s) = int (length ps)"
  by (simp add: registry_def signed_of_nat signed_take_bit_int_eq_self)

text \<open>What a list operation leaves alone of a client record.\<close>

definition core :: "ftpvita_client_info \<Rightarrow> ftpvita_client_info" where
  "core c = c\<lparr>next_client := 0, prev_client := 0, in_client_list := False, restore_point := 0\<rparr>"

lemma core_simps [simp]:
  "core (c\<lparr>next_client := p\<rparr>) = core c" "core (c\<lparr>prev_client := p\<rparr>) = core c"
  "core (c\<lparr>in_client_list := b\<rparr>) = core c" "core (c\<lparr>restore_point := n\<rparr>) = core c"
  by (simp_all add: core_def)

text \<open>What a list operation may change: the list itself, and the trace by calls that move no resource.\<close>

definition list_frame :: "'w ftp \<Rightarrow> 'w ftp \<Rightarrow> bool" where
  "list_frame s t \<longleftrightarrow>
     (\<exists>w tr h l n. t = s\<lparr>world := w, trace := trace s @ tr, client_list := l, client_heap := h, number_clients := n\<rparr> \<and>
        (\<forall>x. balance tr x = 0) \<and> (\<forall>p. map_option core (h p) = map_option core (client_heap s p)))"

lemma exec_eq: "exec E c s = s\<lparr>world := snd (sys E c (world s)), trace := trace s @ [(c, fst (sys E c (world s)))]\<rparr>"
  by (simp add: exec_def syscall_def split: prod.split)

lemma list_frameD:
  assumes "list_frame s t"
  shows "cl t = cl s \<and> transfer_active t = transfer_active s \<and> reboot_quiesce_requested t = reboot_quiesce_requested s \<and>
    client_list_mtx t = client_list_mtx s"
  using assms by (auto simp: list_frame_def)

lemma list_frame_balance: "list_frame s t \<Longrightarrow> balance (trace t) x = balance (trace s) x"
  by (auto simp: list_frame_def)

lemma list_frame_heap: "list_frame s t \<Longrightarrow> map_option core (client_heap t p) = map_option core (client_heap s p)"
  by (auto simp: list_frame_def)

lemma list_frame_locked:
  assumes "\<And>p. map_option core (h p) = map_option core (client_heap s p)"
  shows "list_frame s (unlock_list E ((lock_list E s)\<lparr>client_list := l, client_heap := h, number_clients := n\<rparr>))"
    and "list_frame s (unlock_list E (lock_list E s))"
proof -
  let ?c = "Kernel (sceKernelLockMutex (client_list_mtx s))" and ?d = "Kernel (sceKernelUnlockMutex (client_list_mtx s))"
  let ?w = "snd (sys E ?c (world s))"
  let ?tr = "[(?c, fst (sys E ?c (world s))), (?d, fst (sys E ?d ?w))]"
  have fr: "list_frame s (s\<lparr>world := snd (sys E ?d ?w), trace := trace s @ ?tr, client_list := l, client_heap := h,
      number_clients := n\<rparr>)" if "\<And>p. map_option core (h p) = map_option core (client_heap s p)" for l h n
    unfolding list_frame_def using that
    by (intro exI [of _ "snd (sys E ?d ?w)"] exI [of _ ?tr] exI [of _ h] exI [of _ l] exI [of _ n]) simp
  have eq: "unlock_list E ((lock_list E s)\<lparr>client_list := l, client_heap := h, number_clients := n\<rparr>) =
      s\<lparr>world := snd (sys E ?d ?w), trace := trace s @ ?tr, client_list := l, client_heap := h, number_clients := n\<rparr>"
    "unlock_list E (lock_list E s) = s\<lparr>world := snd (sys E ?d ?w), trace := trace s @ ?tr, client_list := client_list s,
      client_heap := client_heap s, number_clients := number_clients s\<rparr>"
    by (rule ftp.equality; simp add: lock_list_def unlock_list_def exec_eq)+
  show "list_frame s (unlock_list E ((lock_list E s)\<lparr>client_list := l, client_heap := h, number_clients := n\<rparr>))"
    unfolding eq(1) by (rule fr [OF assms])
  show "list_frame s (unlock_list E (lock_list E s))"
    unfolding eq(2) by (rule fr) simp
qed

lemma list_lock_simps [simp]:
  "client_heap (lock_list E s) = client_heap s" "client_list (lock_list E s) = client_list s"
  "number_clients (lock_list E s) = number_clients s" "reboot_quiesce_requested (lock_list E s) = reboot_quiesce_requested s"
  "client_heap (unlock_list E s) = client_heap s" "client_list (unlock_list E s) = client_list s"
  "number_clients (unlock_list E s) = number_clients s" "reboot_quiesce_requested (unlock_list E s) = reboot_quiesce_requested s"
  by (simp_all add: lock_list_def unlock_list_def exec_eq)

lemma registry_cong:
  "client_heap t = client_heap s \<Longrightarrow> client_list t = client_list s \<Longrightarrow> number_clients t = number_clients s \<Longrightarrow>
   registry t ps = registry s ps"
  by (simp add: registry_def)

text \<open>The heap after a client has been put in front.\<close>

definition pushed :: "u32 \<Rightarrow> ftpvita_client_info \<Rightarrow> 'w ftp \<Rightarrow> (u32 \<Rightarrow> ftpvita_client_info option)" where
  "pushed p c s =
     (let h = (if client_list s = 0 then client_heap s
               else (client_heap s)(client_list s := map_option (\<lambda>d. d\<lparr>prev_client := p\<rparr>) (client_heap s (client_list s))))
      in h(p \<mapsto> c\<lparr>prev_client := 0, next_client := client_list s, restore_point := 0, in_client_list := True\<rparr>))"

lemma client_list_add_eq:
  assumes "client_heap s p = Some c" and "client_list s \<noteq> 0 \<longrightarrow> client_list s \<noteq> p \<and> client_heap s (client_list s) \<noteq> None"
  shows "client_list_add E p s =
     (if reboot_quiesce_requested s \<noteq> 0 \<or> int MAX_CLIENTS \<le> sint (number_clients s)
      then Some (False, unlock_list E (lock_list E s))
      else Some (True, unlock_list E ((lock_list E s)\<lparr>client_list := p, client_heap := pushed p c s,
              number_clients := number_clients s + 1\<rparr>)))"
proof -
  have upd: "h(p \<mapsto> a, q \<mapsto> b, p \<mapsto> d) = h(q \<mapsto> b, p \<mapsto> d)" if "p \<noteq> q" for h :: "u32 \<Rightarrow> ftpvita_client_info option" and q a b d
    using that by (auto simp: fun_eq_iff)
  have swap: "d\<lparr>next_client := a, prev_client := b\<rparr> = d\<lparr>prev_client := b, next_client := a\<rparr>"
    for a b and d :: ftpvita_client_info by (cases d) simp
  show ?thesis
  proof (cases "client_list s = 0")
    case True
    then show ?thesis using assms(1) by (simp add: client_list_add_def client_set_def pushed_def Let_def)
  next
    case False
    then obtain d where "client_heap s (client_list s) = Some d" "client_list s \<noteq> p" using assms(2) by auto
    then show ?thesis using False assms(1)
      by (simp add: client_list_add_def client_set_def pushed_def Let_def upd swap)
  qed
qed

lemma client_list_add_refines:
  assumes "registry s ps" and "client_heap s p = Some c" and "p \<notin> set ps"
  shows "\<exists>b t. client_list_add E p s = Some (b, t) \<and> (b \<longleftrightarrow> reboot_quiesce_requested s = 0 \<and> length ps < MAX_CLIENTS) \<and>
     registry t (if b then p # ps else ps) \<and> list_frame s t"
proof -
  obtain l where seg: "dseg (client_heap s) 0 (client_list s) ps 0 l" "distinct ps" "p \<noteq> 0"
    using assms by (cases "p = 0") (auto simp: registry_def)
  have head: "client_list s \<noteq> 0 \<longrightarrow> client_list s \<noteq> p \<and> client_heap s (client_list s) \<noteq> None"
    using seg assms(3) by (cases ps) auto
  show ?thesis
  proof (cases "reboot_quiesce_requested s = 0 \<and> length ps < MAX_CLIENTS")
    case False
    then show ?thesis using assms(1) registry_count [OF assms(1)]
      by (auto simp: client_list_add_eq [OF assms(2) head] list_frame_locked registry_def)
  next
    case True
    let ?t = "unlock_list E ((lock_list E s)\<lparr>client_list := p, client_heap := pushed p c s,
              number_clients := number_clients s + 1\<rparr>)"
    have "dseg (pushed p c s) 0 p (p # ps) 0 (last (p # ps))"
      using seg assms(3) dseg_last [OF seg(1)] by (cases ps) (auto simp: pushed_def)
    moreover have "q \<in> set (p # ps)" if "pushed p c s q = Some d" "in_client_list d" for q d
      using that assms(1) head by (auto simp: pushed_def registry_def split: if_splits)
    ultimately have "registry ?t (p # ps)"
      using assms(1,3) True seg(3) by (auto simp: registry_def pushed_def)
    moreover have "list_frame s ?t"
      by (rule list_frame_locked) (use head assms(2) in \<open>auto simp: pushed_def\<close>)
    ultimately show ?thesis
      using True registry_count [OF assms(1)] by (auto simp: client_list_add_eq [OF assms(2) head])
  qed
qed

section \<open>Removal\<close>

definition upd_next :: "u32 \<Rightarrow> u32 \<Rightarrow> (u32 \<Rightarrow> ftpvita_client_info option) \<Rightarrow> (u32 \<Rightarrow> ftpvita_client_info option)" where
  "upd_next q v h = (if q = 0 then h else h(q := map_option (\<lambda>d. d\<lparr>next_client := v\<rparr>) (h q)))"

definition upd_prev :: "u32 \<Rightarrow> u32 \<Rightarrow> (u32 \<Rightarrow> ftpvita_client_info option) \<Rightarrow> (u32 \<Rightarrow> ftpvita_client_info option)" where
  "upd_prev q v h = (if q = 0 then h else h(q := map_option (\<lambda>d. d\<lparr>prev_client := v\<rparr>) (h q)))"

lemma upd_frame [simp]:
  "map_option core (upd_next q v h p) = map_option core (h p)" "map_option core (upd_prev q v h p) = map_option core (h p)"
  "upd_next q v h p = None \<longleftrightarrow> h p = None" "upd_prev q v h p = None \<longleftrightarrow> h p = None"
  "map_option in_client_list (upd_next q v h p) = map_option in_client_list (h p)"
  "map_option in_client_list (upd_prev q v h p) = map_option in_client_list (h p)"
  by (auto simp: upd_next_def upd_prev_def option.map_comp comp_def)

lemma upd_other [simp]: "p \<noteq> q \<Longrightarrow> upd_next q v h p = h p" "p \<noteq> q \<Longrightarrow> upd_prev q v h p = h p"
  by (simp_all add: upd_next_def upd_prev_def)

lemma dseg_upd_other [simp]:
  "y \<notin> set xs \<Longrightarrow> dseg (upd_next y v h) q p xs r l \<longleftrightarrow> dseg h q p xs r l"
  "y \<notin> set xs \<Longrightarrow> dseg (upd_prev y v h) q p xs r l \<longleftrightarrow> dseg h q p xs r l"
  by (simp_all add: upd_next_def upd_prev_def)

text \<open>The end of a segment can be redirected, and the predecessor of its start.\<close>

lemma dseg_retarget:
  assumes "dseg h q p xs m k" and "distinct xs" and "xs = [] \<Longrightarrow> k = 0"
  shows "dseg (upd_next k n h) q (if xs = [] then n else p) xs n k"
proof (cases xs rule: rev_cases)
  case (snoc as a)
  with assms show ?thesis
    by (auto simp: dseg_append upd_next_def dest: dseg_last)
qed (use assms in simp)

lemma dseg_reprev:
  assumes "dseg h k m xs r l" and "distinct xs"
  shows "dseg (upd_prev m j h) j m xs r (if xs = [] then j else l)"
  using assms by (cases xs) (auto simp: upd_prev_def dest: dseg_last)

lemma client_unlink_eq:
  assumes "client_heap s p = Some c" and "prev_client c \<noteq> p" "next_client c \<noteq> p"
    and "prev_client c \<noteq> 0 \<Longrightarrow> client_heap s (prev_client c) \<noteq> None"
    and "next_client c \<noteq> 0 \<Longrightarrow> client_heap s (next_client c) \<noteq> None"
  shows "client_unlink p s = Some (s\<lparr>client_heap := upd_prev (next_client c) (prev_client c)
       (upd_next (prev_client c) (next_client c) (client_heap s)),
     client_list := (if p = client_list s then next_client c else client_list s)\<rparr>)"
  using assms by (auto simp: client_unlink_def client_set_def upd_next_def upd_prev_def)

text \<open>The heap after a client has been taken out, and the fields that are reset in it.\<close>

definition removed :: "u32 \<Rightarrow> ftpvita_client_info \<Rightarrow> (u32 \<Rightarrow> ftpvita_client_info option) \<Rightarrow> (u32 \<Rightarrow> ftpvita_client_info option)" where
  "removed p c h = (upd_prev (next_client c) (prev_client c) (upd_next (prev_client c) (next_client c) h))
     (p \<mapsto> c\<lparr>next_client := 0, prev_client := 0, in_client_list := False\<rparr>)"

lemma dseg_removed:
  assumes "dseg h 0 f (as @ p # bs) 0 l" and "distinct (as @ p # bs)" and "h p = Some c"
  shows "\<exists>l'. dseg (removed p c h) 0 (if p = f then next_client c else f) (as @ bs) 0 l'"
proof -
  let ?k = "prev_client c" and ?n = "next_client c"
  have as: "dseg h 0 f as p ?k" and bs: "dseg h p ?n bs 0 l" and p: "p \<noteq> 0" using assms by (auto simp: dseg_append)
  have k: "?k = (if as = [] then 0 else last as)" using dseg_last [OF as] .
  have n: "?n = (if bs = [] then 0 else hd bs)" using dseg_first [OF bs] .
  have f: "f = (if as = [] then p else hd as)" using dseg_first [OF as] .
  have zero: "0 \<notin> set as" "0 \<notin> set bs" using dseg_in [OF as] dseg_in [OF bs] by auto
  have fresh: "?n \<notin> set as" "?k \<notin> set bs"
    using assms(2) zero last_in_set [of as] hd_in_set [of bs] by (auto simp: k n disjoint_iff split: if_splits)
  let ?h = "upd_prev ?n ?k (upd_next ?k ?n h)"
  have "dseg ?h 0 (if as = [] then ?n else f) as ?n ?k"
    using dseg_retarget [OF as] assms(2) k fresh by auto
  moreover have "dseg ?h ?k ?n bs 0 (if bs = [] then ?k else l)"
    by (rule dseg_reprev) (use assms(2) bs fresh in auto)
  ultimately have "dseg ?h 0 (if as = [] then ?n else f) (as @ bs) 0 (if bs = [] then ?k else l)"
    unfolding dseg_append by blast
  moreover have "(if p = f then ?n else f) = (if as = [] then ?n else f)"
    using f assms(2) by (cases as) auto
  ultimately show ?thesis using assms(2) by (auto simp: removed_def)
qed

lemma client_list_delete_eq:
  assumes "registry s ps" and "client_heap s p = Some c" and "p \<in> set ps"
  shows "client_list_delete E p s = Some (True, unlock_list E ((lock_list E s)\<lparr>client_list := (if p = client_list s then next_client c else client_list s),
     client_heap := removed p c (client_heap s), number_clients := number_clients s - 1\<rparr>))"
proof -
  obtain as bs l where ps: "ps = as @ p # bs" and seg: "dseg (client_heap s) 0 (client_list s) (as @ p # bs) 0 l"
    and dis: "distinct (as @ p # bs)"
    using assms(1,3) by (metis registry_def split_list)
  have as: "dseg (client_heap s) 0 (client_list s) as p (prev_client c)" and bs: "dseg (client_heap s) p (next_client c) bs 0 l"
    and p: "p \<noteq> 0" and listed: "in_client_list c"
    using seg assms(2) by (auto simp: dseg_append)
  have k: "prev_client c = (if as = [] then 0 else last as)" using dseg_last [OF as] .
  have n: "next_client c = (if bs = [] then 0 else hd bs)" using dseg_first [OF bs] .
  have ne: "prev_client c \<noteq> p" "next_client c \<noteq> p" using dis p last_in_set [of as] hd_in_set [of bs] by (auto simp: k n)
  have "prev_client c \<noteq> 0 \<Longrightarrow> prev_client c \<in> set as" "next_client c \<noteq> 0 \<Longrightarrow> next_client c \<in> set bs"
    using last_in_set [of as] hd_in_set [of bs] by (auto simp: k n split: if_splits)
  then have live: "prev_client c \<noteq> 0 \<Longrightarrow> client_heap s (prev_client c) \<noteq> None"
    "next_client c \<noteq> 0 \<Longrightarrow> client_heap s (next_client c) \<noteq> None"
    using dseg_in [OF as] dseg_in [OF bs] by fastforce+
  have "0 < sint (number_clients s)" using registry_count [OF assms(1)] ps by simp
  moreover have "client_unlink p (lock_list E s) = Some ((lock_list E s)\<lparr>client_heap :=
       upd_prev (next_client c) (prev_client c) (upd_next (prev_client c) (next_client c) (client_heap s)),
     client_list := (if p = client_list s then next_client c else client_list s)\<rparr>)"
    using client_unlink_eq [of "lock_list E s" p c] assms(2) ne live by simp
  ultimately show ?thesis
    using assms(2) listed ne by (simp add: client_list_delete_def client_set_def removed_def)
qed

lemma removed_in_list:
  assumes "removed p c h q = Some d" and "in_client_list d"
  shows "q \<noteq> p \<and> (\<exists>d'. h q = Some d' \<and> in_client_list d')"
proof -
  have q: "q \<noteq> p" using assms by (auto simp: removed_def)
  with assms have "map_option in_client_list (removed p c h q) = Some True" by simp
  with q have "map_option in_client_list (h q) = Some True" by (simp add: removed_def)
  with q show ?thesis by auto
qed

lemma client_list_delete_refines:
  assumes "registry s ps" and "client_heap s p = Some c"
  shows "\<exists>t. client_list_delete E p s = Some (p \<in> set ps, t) \<and> registry t (remove1 p ps) \<and> list_frame s t"
proof (cases "p \<in> set ps")
  case False
  then show ?thesis using assms registry_in [OF assms]
    by (auto simp: client_list_delete_def remove1_idem list_frame_locked registry_def)
next
  case True
  then obtain as bs l where ps: "ps = as @ p # bs" and seg: "dseg (client_heap s) 0 (client_list s) (as @ p # bs) 0 l"
    and dis: "distinct (as @ p # bs)"
    using assms(1) by (metis registry_def split_list)
  then have rm: "remove1 p ps = as @ bs" by (simp add: remove1_append)
  let ?t = "unlock_list E ((lock_list E s)\<lparr>client_list := (if p = client_list s then next_client c else client_list s),
     client_heap := removed p c (client_heap s), number_clients := number_clients s - 1\<rparr>)"
  have "p \<noteq> 0" using dseg_in [OF seg, of p] by simp
  moreover have "q \<in> set (as @ bs)" if "removed p c (client_heap s) q = Some d" "in_client_list d" for q d
    using removed_in_list [OF that] assms(1) ps by (auto simp: registry_def)
  moreover have "removed p c (client_heap s) 0 = None"
    using assms(1) \<open>p \<noteq> 0\<close> by (simp add: removed_def registry_def)
  ultimately have "registry ?t (as @ bs)"
    using dseg_removed [OF seg dis assms(2)] assms(1) dis ps by (simp add: registry_def)
  moreover have "list_frame s ?t" by (rule list_frame_locked) (use assms(2) in \<open>auto simp: removed_def\<close>)
  ultimately show ?thesis using client_list_delete_eq [OF assms True, of E] True rm by auto
qed

section \<open>Ending all clients\<close>

text \<open>Steps that are nothing but calls that move no resource.\<close>

definition only_calls :: "'w ftp \<Rightarrow> 'w ftp \<Rightarrow> bool" where
  "only_calls s t \<longleftrightarrow> (\<exists>w tr. t = s\<lparr>world := w, trace := trace s @ tr\<rparr> \<and> (\<forall>x. balance tr x = 0))"

lemma only_calls_refl [simp]: "only_calls s s"
  unfolding only_calls_def by (intro exI [of _ "world s"] exI [of _ "[]"]) simp

lemma only_calls_trans: "only_calls s t \<Longrightarrow> only_calls t u \<Longrightarrow> only_calls s u"
  unfolding only_calls_def by (elim exE conjE, rule exI, rule exI) auto

lemma only_calls_exec: "only_calls s t \<Longrightarrow> neutral c \<Longrightarrow> only_calls s (exec E c t)"
  by (rule only_calls_trans, assumption, unfold only_calls_def exec_eq)
    (intro exI [of _ "snd (sys E c (world t))"] exI [of _ "[(c, fst (sys E c (world t)))]"], simp)

lemma only_calls_abort: "only_calls s t \<Longrightarrow> only_calls s (abort_socket E fd t)"
  by (simp add: abort_socket_def only_calls_exec)

lemma only_calls_lock: "only_calls s t \<Longrightarrow> only_calls s (lock_list E t)" "only_calls s t \<Longrightarrow> only_calls s (unlock_list E t)"
  by (simp_all add: lock_list_def unlock_list_def only_calls_exec)

lemma only_callsD:
  assumes "only_calls s t"
  shows "client_heap t = client_heap s" "client_list t = client_list s" "number_clients t = number_clients s"
    "client_list_mtx t = client_list_mtx s" "transfer_active t = transfer_active s" "cl t = cl s"
    "balance (trace t) x = balance (trace s) x"
  using assms by (auto simp: only_calls_def)

definition detached :: "u32 set \<Rightarrow> (u32 \<Rightarrow> ftpvita_client_info option) \<Rightarrow> (u32 \<Rightarrow> ftpvita_client_info option)" where
  "detached A h = (\<lambda>q. if q \<in> A then map_option (\<lambda>c. c\<lparr>in_client_list := False\<rparr>) (h q) else h q)"

lemma detach_clients_eq:
  assumes "dseg (client_heap s) q p ps 0 l" and "distinct ps" and "length ps \<le> n"
  shows "\<exists>w tr. detach_clients E n p s = Some (map (\<lambda>p. thid (the (client_heap s p))) ps,
      s\<lparr>world := w, trace := trace s @ tr, client_heap := detached (set ps) (client_heap s)\<rparr>) \<and> (\<forall>x. balance tr x = 0)"
  using assms
proof (induction ps arbitrary: n p q s)
  case Nil
  then show ?case
    by (cases n) (auto simp: detached_def intro!: exI [of _ "world s"] exI [of _ "[]"])
next
  case (Cons a ps)
  then obtain m c where n: "n = Suc m" "length ps \<le> m" and c: "client_heap s a = Some c" "p = a" "a \<noteq> 0"
    "dseg (client_heap s) a (next_client c) ps 0 l" "a \<notin> set ps" "distinct ps" by (cases n) auto
  let ?s1 = "exec E (Net (sceNetSocketAbort (ctrl_sockfd c) [SCE_NET_SOCKET_ABORT_FLAG_RCV_PRESERVATION])) s"
  let ?s2 = "if data_con_type c \<noteq> FTP_DATA_CONNECTION_NONE
     then let s = abort_socket E (data_sockfd c) ?s1
          in if data_con_type c = FTP_DATA_CONNECTION_PASSIVE then abort_socket E (pasv_sockfd c) s else s
     else ?s1"
  have "only_calls s ?s2"
    by (simp add: Let_def only_calls_abort only_calls_exec)
  then obtain w tr where s2: "?s2 = s\<lparr>world := w, trace := trace s @ tr\<rparr>" "\<forall>x. balance tr x = 0"
    by (auto simp: only_calls_def)
  let ?s3 = "s\<lparr>world := w, trace := trace s @ tr, client_heap := (client_heap s)(a \<mapsto> c\<lparr>in_client_list := False\<rparr>)\<rparr>"
  have "dseg (client_heap ?s3) a (next_client c) ps 0 l" using c by simp
  from Cons.IH [OF this c(6) n(2)] obtain w' tr' where IH: "detach_clients E m (next_client c) ?s3 =
      Some (map (\<lambda>p. thid (the (client_heap ?s3 p))) ps,
        ?s3\<lparr>world := w', trace := trace ?s3 @ tr', client_heap := detached (set ps) (client_heap ?s3)\<rparr>)"
      "\<forall>x. balance tr' x = 0" by blast
  have step: "detach_clients E n p s = (case detach_clients E m (next_client c) ?s3 of None \<Rightarrow> None
      | Some (thids, s) \<Rightarrow> Some (thid c # thids, s))"
    using n(1) c s2(1) by (simp add: client_set_def Option.bind_eq_Some_conv split: option.split)
  have "detached (set ps) ((client_heap s)(a \<mapsto> c\<lparr>in_client_list := False\<rparr>)) = detached (set (a # ps)) (client_heap s)"
    using c by (auto simp: detached_def fun_eq_iff)
  moreover have "map (\<lambda>p. thid (the (client_heap ?s3 p))) ps = map (\<lambda>p. thid (the (client_heap s p))) ps"
    using c(5) by auto
  ultimately show ?case
    unfolding step IH(1) using c s2(2) IH(2)
    by (intro exI [of _ w'] exI [of _ "tr @ tr'"]) (simp del: map_eq_conv)
qed

lemma reap_threads_eq:
  "\<exists>w tr. reap_threads E ts s = s\<lparr>world := w, trace := trace s @ tr\<rparr> \<and>
     map fst tr = concat (map (\<lambda>t. [Kernel (sceKernelWaitThreadEnd t), Kernel (sceKernelDeleteThread t)]) ts)"
proof (induction ts arbitrary: s)
  case Nil
  show ?case by (intro exI [of _ "world s"] exI [of _ "[]"]) simp
next
  case (Cons t ts)
  let ?s = "exec E (Kernel (sceKernelDeleteThread t)) (exec E (Kernel (sceKernelWaitThreadEnd t)) s)"
  from Cons obtain w tr where "reap_threads E ts ?s = ?s\<lparr>world := w, trace := trace ?s @ tr\<rparr>"
    "map fst tr = concat (map (\<lambda>t. [Kernel (sceKernelWaitThreadEnd t), Kernel (sceKernelDeleteThread t)]) ts)" by blast
  then show ?case
    by (intro exI [of _ w] exI [of _ "drop (length (trace s)) (trace ?s) @ tr"]) (simp add: exec_eq)
qed

text \<open>
  After \<open>client_list_thread_end\<close> the registry is empty, every client that was listed knows that it is
  detached, and for each of them, in list order, the thread has been awaited and then deleted.
\<close>

lemma client_list_thread_end_eq:
  assumes "registry s ps" and "\<not> neg (client_list_mtx s)"
  shows "\<exists>t w tr tr'. client_list_thread_end E s = Some t \<and> registry t [] \<and>
    t = s\<lparr>world := w, trace := trace s @ tr @ tr', client_list := 0, client_heap := detached (set ps) (client_heap s),
          number_clients := 0, transfer_active := 0\<rparr> \<and> (\<forall>x. balance tr x = 0) \<and>
    map fst tr' = concat (map (\<lambda>p. let t = thid (the (client_heap s p)) in
      [Kernel (sceKernelWaitThreadEnd t), Kernel (sceKernelDeleteThread t)]) ps)"
proof -
  let ?s = "lock_list E s" and ?ts = "map (\<lambda>p. thid (the (client_heap s p))) ps"
  obtain w tr where s1: "?s = s\<lparr>world := w, trace := trace s @ tr\<rparr>" "\<forall>x. balance tr x = 0"
    using only_calls_lock(1) [OF only_calls_refl, of s E] unfolding only_calls_def by blast
  have "\<exists>l. dseg (client_heap ?s) 0 (client_list ?s) ps 0 l" "distinct ps" "length ps \<le> MAX_CLIENTS"
    using assms by (auto simp: registry_def)
  then obtain w' tr' where d: "detach_clients E MAX_CLIENTS (client_list ?s) ?s = Some (?ts,
      ?s\<lparr>world := w', trace := trace ?s @ tr', client_heap := detached (set ps) (client_heap s)\<rparr>)" "\<forall>x. balance tr' x = 0"
    using detach_clients_eq [of ?s 0 "client_list ?s" ps _ MAX_CLIENTS E] unfolding list_lock_simps by blast
  let ?u = "?s\<lparr>world := w', trace := trace ?s @ tr', client_heap := detached (set ps) (client_heap s), client_list := 0,
     number_clients := 0, transfer_active := 0\<rparr>"
  obtain w2 tr2 where u: "unlock_list E ?u = ?u\<lparr>world := w2, trace := trace ?u @ tr2\<rparr>" "\<forall>x. balance tr2 x = 0"
    using only_calls_lock(2) [OF only_calls_refl, of ?u E] unfolding only_calls_def by blast
  obtain w3 tr3 where r: "reap_threads E ?ts (unlock_list E ?u) = (unlock_list E ?u)\<lparr>world := w3, trace := trace (unlock_list E ?u) @ tr3\<rparr>"
    "map fst tr3 = concat (map (\<lambda>t. [Kernel (sceKernelWaitThreadEnd t), Kernel (sceKernelDeleteThread t)]) ?ts)"
    using reap_threads_eq [of E ?ts "unlock_list E ?u"] by blast
  have run: "client_list_thread_end E s = Some (reap_threads E ?ts (unlock_list E ?u))"
    using assms(2) d(1) by (simp add: client_list_thread_end_def)
  have heap: "detached (set ps) (client_heap s) p = Some c \<Longrightarrow> \<not> in_client_list c" for p c
    using assms(1) by (auto simp: detached_def registry_def split: if_splits)
  have "detached (set ps) (client_heap s) 0 = None" using assms(1) by (simp add: detached_def registry_def)
  moreover have t: "reap_threads E ?ts (unlock_list E ?u) = s\<lparr>world := w3, trace := trace s @ (tr @ tr' @ tr2) @ tr3,
      client_list := 0, client_heap := detached (set ps) (client_heap s), number_clients := 0, transfer_active := 0\<rparr>"
    unfolding r(1) unfolding u(1) by (rule ftp.equality; simp add: s1(1))
  ultimately show ?thesis using run s1(2) d(2) u(2) r(2) heap
    by (intro exI [of _ "reap_threads E ?ts (unlock_list E ?u)"] exI [of _ w3] exI [of _ "tr @ tr' @ tr2"] exI [of _ tr3])
      (simp add: registry_def Let_def comp_def)
qed

section \<open>Aborting all clients\<close>

lemma abort_loop_eq:
  assumes "dseg (client_heap s) q p ps 0 l" and "only_calls s t"
  shows "\<exists>u. abort_loop E p n t = Some (n + word_of_nat (length ps), u) \<and> only_calls s u"
  using assms
proof (induction ps arbitrary: q p n t)
  case Nil
  then show ?case by (simp add: abort_loop.simps)
next
  case (Cons a ps)
  then obtain c where c: "client_heap s a = Some c" "p = a" "a \<noteq> 0" "dseg (client_heap s) a (next_client c) ps 0 l" by auto
  let ?t = "abort_socket E (pasv_sockfd c) (abort_socket E (data_sockfd c) (abort_socket E (ctrl_sockfd c) t))"
  have "only_calls s ?t" using Cons.prems(2) by (simp add: only_calls_abort)
  from Cons.IH [OF c(4) this] obtain u where
    "abort_loop E (next_client c) (n + 1) ?t = Some (n + 1 + word_of_nat (length ps), u)" "only_calls s u" by blast
  then show ?case
    using c only_callsD(1) [OF Cons.prems(2)] by (subst abort_loop.simps) (simp add: algebra_simps)
qed

lemma ftpvita_abort_clients_eq:
  assumes "registry s ps"
  shows "\<exists>r u. ftpvita_abort_clients E s = Some (r, u) \<and> only_calls s u \<and> (r = 0 \<or> r = - 1 \<or> r = word_of_nat (length ps))"
proof (cases "neg (client_list_mtx s)")
  case True
  then show ?thesis by (auto simp: ftpvita_abort_clients_def)
next
  case False
  obtain r t where lock: "syscall E (Kernel (sceKernelLockMutex (client_list_mtx s))) s = (r, t)" by fastforce
  then have t: "only_calls s t"
    using only_calls_exec [OF only_calls_refl, of "Kernel (sceKernelLockMutex (client_list_mtx s))" s E] by (simp add: exec_def)
  obtain l where "dseg (client_heap s) 0 (client_list s) ps 0 l" using assms by (auto simp: registry_def)
  from abort_loop_eq [OF this t, of E 0] obtain u where
    "abort_loop E (client_list s) 0 t = Some (word_of_nat (length ps), u)" "only_calls s u" by auto
  with False lock t show ?thesis
    by (auto simp: ftpvita_abort_clients_def only_callsD(2) only_calls_lock)
qed

section \<open>The registry as an interface\<close>

text \<open>A schedule of arrivals and departures, what it does to a registry, and what it should do to the list.\<close>

fun schedule ::
  "('a \<Rightarrow> 's \<Rightarrow> (bool \<times> 's) option) \<Rightarrow> ('a \<Rightarrow> 's \<Rightarrow> (bool \<times> 's) option) \<Rightarrow> ('a + 'a) list \<Rightarrow> 's \<Rightarrow> 's option"
where
  "schedule add del [] s = Some s"
| "schedule add del (Inl p # evs) s = Option.bind (add p s) (\<lambda>(_, t). schedule add del evs t)"
| "schedule add del (Inr p # evs) s = Option.bind (del p s) (\<lambda>(_, t). schedule add del evs t)"

fun members :: "nat \<Rightarrow> bool \<Rightarrow> ('a + 'a) list \<Rightarrow> 'a list \<Rightarrow> 'a list" where
  "members cap b [] ps = ps"
| "members cap b (Inl p # evs) ps = members cap b evs (if \<not> b \<and> length ps < cap then p # ps else ps)"
| "members cap b (Inr p # evs) ps = members cap b evs (remove1 p ps)"

text \<open>A client only arrives while it is not a member.\<close>

fun arrivals_fresh :: "nat \<Rightarrow> bool \<Rightarrow> ('a + 'a) list \<Rightarrow> 'a list \<Rightarrow> bool" where
  "arrivals_fresh cap b [] ps = True"
| "arrivals_fresh cap b (Inl p # evs) ps =
     (p \<notin> set ps \<and> arrivals_fresh cap b evs (if \<not> b \<and> length ps < cap then p # ps else ps))"
| "arrivals_fresh cap b (Inr p # evs) ps = arrivals_fresh cap b evs (remove1 p ps)"

text \<open>
  What the server relies on: a bounded registry of clients, to which a known client can be added unless it
  is full or closed, and from which any known client can be removed, whether it is registered or not. The
  answer to a removal says whether the client was still registered, and hence who owns its thread.
\<close>

locale bounded_registry =
  fixes reg :: "'s \<Rightarrow> 'a list \<Rightarrow> bool"
    and known :: "'s \<Rightarrow> 'a \<Rightarrow> bool"
    and closed_for :: "'s \<Rightarrow> bool"
    and add :: "'a \<Rightarrow> 's \<Rightarrow> (bool \<times> 's) option"
    and del :: "'a \<Rightarrow> 's \<Rightarrow> (bool \<times> 's) option"
    and cap :: nat
  assumes add_law: "reg s ps \<Longrightarrow> known s p \<Longrightarrow> p \<notin> set ps \<Longrightarrow>
      \<exists>t. add p s = Some (\<not> closed_for s \<and> length ps < cap, t) \<and>
        reg t (if \<not> closed_for s \<and> length ps < cap then p # ps else ps) \<and> known t = known s \<and> closed_for t = closed_for s"
    and del_law: "reg s ps \<Longrightarrow> known s p \<Longrightarrow>
      \<exists>t. del p s = Some (p \<in> set ps, t) \<and> reg t (remove1 p ps) \<and> known t = known s \<and> closed_for t = closed_for s"
    and reg_distinct: "reg s ps \<Longrightarrow> distinct ps \<and> length ps \<le> cap"
begin

lemma schedule_refines:
  assumes "reg s ps" and "\<And>e. e \<in> set evs \<Longrightarrow> known s (case e of Inl p \<Rightarrow> p | Inr p \<Rightarrow> p)" and "arrivals_fresh cap (closed_for s) evs ps"
  shows "\<exists>t. schedule add del evs s = Some t \<and> reg t (members cap (closed_for s) evs ps)"
  using assms
proof (induction evs arbitrary: s ps)
  case (Cons e evs)
  show ?case
  proof (cases e)
    case (Inl p)
    then obtain t where "add p s = Some (\<not> closed_for s \<and> length ps < cap, t)" "known t = known s" "closed_for t = closed_for s"
      "reg t (if \<not> closed_for s \<and> length ps < cap then p # ps else ps)"
      using add_law [of s ps p] Cons.prems(1,3) Cons.prems(2) [of e] by auto
    with Cons.IH [of t] Cons.prems Inl show ?thesis by force
  next
    case (Inr p)
    then obtain t where "del p s = Some (p \<in> set ps, t)" "known t = known s" "closed_for t = closed_for s"
      "reg t (remove1 p ps)"
      using del_law [of s ps p] Cons.prems(1) Cons.prems(2) [of e] by auto
    with Cons.IH [of t] Cons.prems Inr show ?thesis by force
  qed
qed simp

end

lemma list_frame_known: "list_frame s t \<Longrightarrow> (\<lambda>p. client_heap t p \<noteq> None) = (\<lambda>p. client_heap s p \<noteq> None)"
  using list_frame_heap [of s t] by (metis option.map_disc_iff)

interpretation clients: bounded_registry registry "\<lambda>s p. client_heap s p \<noteq> None"
  "\<lambda>s. reboot_quiesce_requested s \<noteq> 0" "client_list_add E" "client_list_delete E" MAX_CLIENTS for E
proof (unfold_locales, goal_cases)
  case (1 s ps p)
  then obtain c where "client_heap s p = Some c" by auto
  from client_list_add_refines [OF 1(1) this 1(3), of E] obtain b t where
    "client_list_add E p s = Some (b, t)" "b \<longleftrightarrow> reboot_quiesce_requested s = 0 \<and> length ps < MAX_CLIENTS"
    "registry t (if b then p # ps else ps)" and frame: "list_frame s t" by blast
  then show ?case using list_frame_known [OF frame] list_frameD [OF frame] by (intro exI [of _ t]) auto
next
  case (2 s ps p)
  then obtain c where "client_heap s p = Some c" by auto
  from client_list_delete_refines [OF 2(1) this, of E] obtain t where
    "client_list_delete E p s = Some (p \<in> set ps, t)" "registry t (remove1 p ps)" and frame: "list_frame s t" by blast
  then show ?case using list_frame_known [OF frame] list_frameD [OF frame] by (intro exI [of _ t]) auto
next
  case (3 s ps)
  then show ?case by (simp add: registry_def)
qed

section \<open>Properties\<close>

text \<open>C9: the linked list implements a bounded registry. For every schedule of connections and disconnections,
  issued for records that exist and, for a connection, for a client that is not connected: no pointer is
  ever followed into nothing, and the list ends up as a well-formed doubly linked list of exactly the clients
  that arrived while there was room and no reboot pending and have not left since, newest first, with
  \<open>number_clients\<close> equal to their number, which never exceeds the limit.\<close>

theorem client_list_refines_registry:
  assumes "registry s ps" and "\<And>e. e \<in> set evs \<Longrightarrow> client_heap s (case e of Inl p \<Rightarrow> p | Inr p \<Rightarrow> p) \<noteq> None"
    and "arrivals_fresh MAX_CLIENTS (reboot_quiesce_requested s \<noteq> 0) evs ps"
  shows "\<exists>t. schedule (client_list_add E) (client_list_delete E) evs s = Some t \<and>
     registry t (members MAX_CLIENTS (reboot_quiesce_requested s \<noteq> 0) evs ps) \<and>
     sint (number_clients t) = int (length (members MAX_CLIENTS (reboot_quiesce_requested s \<noteq> 0) evs ps)) \<and>
     length (members MAX_CLIENTS (reboot_quiesce_requested s \<noteq> 0) evs ps) \<le> MAX_CLIENTS"
proof -
  obtain t where "schedule (client_list_add E) (client_list_delete E) evs s = Some t"
    "registry t (members MAX_CLIENTS (reboot_quiesce_requested s \<noteq> 0) evs ps)"
    using clients.schedule_refines [OF assms, of E] by blast
  with clients.reg_distinct registry_count show ?thesis by blast
qed

definition two_clients :: "ret list ftp" where
  "two_clients = (script_ftp [] idle_client)\<lparr>client_heap := [64 \<mapsto> idle_client\<lparr>in_client_list := False\<rparr>,
     96 \<mapsto> idle_client\<lparr>in_client_list := False\<rparr>], client_list := 0, number_clients := 0\<rparr>"

lemma two_clients_registry: "registry two_clients []"
  by (simp add: two_clients_def registry_def script_ftp_def idle_client_def)

theorem client_list_refines_registry_witness:
  "\<exists>t. schedule (client_list_add script_env) (client_list_delete script_env) [Inl 64, Inl 96, Inr 64] two_clients = Some t \<and>
     registry t [96] \<and> sint (number_clients t) = 1"
proof -
  have known: "e \<in> set [Inl 64, Inl 96, Inr 64] \<Longrightarrow>
      client_heap two_clients (case e of Inl p \<Rightarrow> p | Inr p \<Rightarrow> p) \<noteq> None" for e :: "u32 + u32"
    by (auto simp: two_clients_def)
  have fresh: "arrivals_fresh MAX_CLIENTS (reboot_quiesce_requested two_clients \<noteq> 0)
      [Inl 64, Inl 96, Inr (64 :: u32)] []"
    by (simp add: two_clients_def)
  show ?thesis
    using client_list_refines_registry [OF two_clients_registry known fresh] by (simp add: two_clients_def)
qed

text \<open>C33: the hand-over of client threads at shutdown. \<open>client_list_thread_end\<close> empties the registry and frees the
  transfer slot; it waits for the thread of every connected client and then deletes it, once each, in list
  order and only after the list has been released; and a client that afterwards takes itself off the list is
  told that it no longer owns its thread, so that no thread is deleted twice.\<close>

theorem client_list_thread_end_hands_over:
  assumes "registry s ps" and "\<not> neg (client_list_mtx s)"
  shows "\<exists>t tr tr'. client_list_thread_end E s = Some t \<and> registry t [] \<and> transfer_active t = 0 \<and>
    trace t = trace s @ tr @ tr' \<and> (\<forall>x. balance tr x = 0) \<and>
    map fst tr' = concat (map (\<lambda>p. let t = thid (the (client_heap s p)) in
      [Kernel (sceKernelWaitThreadEnd t), Kernel (sceKernelDeleteThread t)]) ps) \<and>
    (\<forall>p \<in> set ps. \<exists>u. client_list_delete E p t = Some (False, u) \<and> registry u [])"
proof -
  obtain t w tr tr' where run: "client_list_thread_end E s = Some t" "registry t []" "\<forall>x. balance tr x = 0"
    "map fst tr' = concat (map (\<lambda>p. let t = thid (the (client_heap s p)) in
      [Kernel (sceKernelWaitThreadEnd t), Kernel (sceKernelDeleteThread t)]) ps)"
    and t_eq: "t = s\<lparr>world := w, trace := trace s @ tr @ tr', client_list := 0, client_heap := detached (set ps) (client_heap s),
          number_clients := 0, transfer_active := 0\<rparr>"
    using client_list_thread_end_eq [OF assms, of E] by blast
  have t: "transfer_active t = 0" "client_heap t = detached (set ps) (client_heap s)" "trace t = trace s @ tr @ tr'"
    using t_eq by simp_all
  have "\<exists>u. client_list_delete E p t = Some (False, u) \<and> registry u []" if p: "p \<in> set ps" for p
  proof -
    have "client_heap s p \<noteq> None" using assms(1) p by (fastforce simp: registry_def dest: dseg_in)
    then have "client_heap t p \<noteq> None" using p unfolding t(2) detached_def by simp
    then obtain c where "client_heap t p = Some c" by blast
    from client_list_delete_refines [OF run(2) this, of E] show ?thesis by auto
  qed
  with run t(1,3) show ?thesis by blast
qed

definition one_client :: "ret list ftp" where
  "one_client = (script_ftp [] idle_client)\<lparr>client_heap := [64 \<mapsto> idle_client], client_list := 64, number_clients := 1\<rparr>"

lemma one_client_registry: "registry one_client [64]"
  by (simp add: one_client_def registry_def script_ftp_def idle_client_def)

theorem client_list_thread_end_hands_over_witness:
  "\<exists>t u. client_list_thread_end script_env one_client = Some t \<and> client_list_delete script_env 64 t = Some (False, u)"
  using client_list_thread_end_hands_over [OF one_client_registry, of script_env]
  by (force simp: one_client_def script_ftp_def)



end
