(* ===== verification/Ftp_Server.thy ===== *)
theory Ftp_Server
  imports Ftp_Commands Client_List
begin

text \<open>
  The threads of \<^verbatim>\<open>ftpvita.c\<close>: the end of a client thread, the server thread that accepts connections, and
  the interface through which the command server looks at the FTP server and stops it for a reboot. A
  client's thread works on \<open>cl\<close>, the copy of its record, and writes it back; the links and the flag of
  the list in a record are not touched by command handlers (\<open>same_server\<close>).
\<close>

section \<open>Client threads\<close>

definition free_client :: "'w env \<Rightarrow> u32 \<Rightarrow> 'w ftp \<Rightarrow> 'w ftp" where
  "free_client E client s = exec E (Kernel (free client)) (s\<lparr>client_heap := (client_heap s)(client := None)\<rparr>)"

text \<open>The part of \<open>client_thread\<close> after its loop.\<close>

definition client_exit :: "'w env \<Rightarrow> u32 \<Rightarrow> 'w ftp \<Rightarrow> 'w ftp option" where
  "client_exit E client s = do {
     (delete_own_thread, s) \<leftarrow> client_list_delete E client s;
     c \<leftarrow> client_heap s client;
     s \<leftarrow> Some (s\<lparr>cl := c\<rparr>);
     (fd, s) \<leftarrow> Some (close_socket E (ctrl_sockfd (cl s)) s);
     s \<leftarrow> Some (set_cl (\<lambda>c. c\<lparr>ctrl_sockfd := fd\<rparr>) s);
     s \<leftarrow> Some (client_close_data_connection E s);
     s \<leftarrow> Some (free_client E client s);
     Some (if delete_own_thread then exec E (Kernel (sceKernelExitDeleteThread (thid (cl s)))) s
           else exec E (Kernel sceKernelExitThread) s) }"

text \<open>The record a thread has worked on is the one in the heap.\<close>

definition write_back :: "u32 \<Rightarrow> 'w ftp \<Rightarrow> 'w ftp" where
  "write_back client s = s\<lparr>client_heap := (client_heap s)(client \<mapsto> cl s)\<rparr>"

definition client_thread :: "'w env \<Rightarrow> (u32 \<Rightarrow> 'w ftp \<Rightarrow> 'w ftp option) \<Rightarrow> u32 \<Rightarrow> 'w ftp \<Rightarrow> 'w ftp option" where
  "client_thread E custom client s = do {
     c \<leftarrow> client_heap s client;
     s \<leftarrow> Some (client_send_ctrl_msg E (''220 FTPVita Server ready.'' @ EOL) (s\<lparr>cl := c\<rparr>));
     s \<leftarrow> client_loop E custom s;
     client_exit E client (write_back client s) }"

section \<open>The server thread\<close>

abbreviation FTP_PORT :: u16 where "FTP_PORT \<equiv> 1337"
abbreviation SERVER_START_PENDING :: i32 where "SERVER_START_PENDING \<equiv> 0x7fffffff"

text \<open>A fresh client record, as the zeroing and the assignments after the allocation leave it.\<close>

definition new_client :: "u32 \<Rightarrow> i32 \<Rightarrow> SceNetSockaddrIn \<Rightarrow> ftpvita_client_info" where
  "new_client client_num client_sockfd clientaddr =
     \<lparr>num = client_num, thid = 0, ctrl_sockfd = client_sockfd, data_sockfd = - 1,
      data_con_type = FTP_DATA_CONNECTION_NONE,
      data_sockaddr = \<lparr>sin_family = AF_UNSPEC, sin_port = 0, sin_addr = 0\<rparr>,
      pasv_sockaddr = \<lparr>sin_family = AF_UNSPEC, sin_port = 0, sin_addr = 0\<rparr>, pasv_sockfd = - 1,
      client_addr = clientaddr, n_recv = 0, recv_buffer = [], recv_cmd_args = None, cur_path = ''/'',
      rename_path = [], next_client = 0, prev_client = 0, in_client_list = False, quit_requested = False,
      restore_point = 0\<rparr>"

definition client_thread_name :: "u32 \<Rightarrow> string" where
  "client_thread_name client_num = snprintf 64 (''FTPVita_client_'' @ dec_nat (unat client_num) @ ''_thread'')"

text \<open>Closing the control socket of a client that is given up, and freeing its record.\<close>

definition discard_client :: "'w env \<Rightarrow> u32 \<Rightarrow> 'w ftp \<Rightarrow> 'w ftp option" where
  "discard_client E client s = do {
     c \<leftarrow> client_heap s client;
     (fd, s) \<leftarrow> Some (close_socket E (ctrl_sockfd c) s);
     s \<leftarrow> client_set client (\<lambda>c. c\<lparr>ctrl_sockfd := fd\<rparr>) s;
     Some (free_client E client s) }"

text \<open>A message to a client on behalf of which no thread runs.\<close>

definition send_to_client :: "'w env \<Rightarrow> u32 \<Rightarrow> string \<Rightarrow> 'w ftp \<Rightarrow> 'w ftp option" where
  "send_to_client E client str s = do {
     c \<leftarrow> client_heap s client;
     Some (exec E (Net (sceNetSend (ctrl_sockfd c) str)) s) }"

text \<open>From the registration of a client to the start of its thread.\<close>

definition start_client :: "'w env \<Rightarrow> u32 \<Rightarrow> i32 \<Rightarrow> 'w ftp \<Rightarrow> 'w ftp option" where
  "start_client E client client_thid s = do {
     (added, s) \<leftarrow> client_list_add E client s;
     if \<not> added then do {
       s \<leftarrow> send_to_client E client (''421 Too many FTP clients.'' @ EOL) s;
       s \<leftarrow> Some (exec E (Kernel (sceKernelDeleteThread client_thid)) s);
       discard_client E client s }
     else do {
       (r, s) \<leftarrow> Some (syscall E (Kernel (sceKernelStartThread client_thid)) s);
       if neg (rc r) then do {
         (_, s) \<leftarrow> client_list_delete E client s;
         s \<leftarrow> Some (exec E (Kernel (sceKernelDeleteThread client_thid)) s);
         discard_client E client s }
       else Some s } }"

definition admit_client :: "'w env \<Rightarrow> u32 \<Rightarrow> u32 \<Rightarrow> 'w ftp \<Rightarrow> 'w ftp option" where
  "admit_client E client client_num s = do {
     (r, s) \<leftarrow> Some (syscall E (Kernel (sceKernelCreateThread (client_thread_name client_num))) s);
     if neg (rc r) then do {
       s \<leftarrow> send_to_client E client (''421 Server cannot create a client thread.'' @ EOL) s;
       discard_client E client s }
     else do {
       s \<leftarrow> client_set client (\<lambda>c. c\<lparr>thid := rc r\<rparr>) s;
       start_client E client (rc r) s } }"

text \<open>One turn of the accept loop: \<open>Inr s\<close> continues, \<open>Inl s\<close> leaves the loop.\<close>

definition accept_client :: "'w env \<Rightarrow> 'w ftp \<Rightarrow> ('w ftp + 'w ftp) option" where
  "accept_client E s =
     (let (a, s) = syscall E (Net (sceNetAccept (server_sockfd s))) s
      in if neg (rc a) then Some (Inl s)
         else let client_sockfd = rc a;
                  (_, s) = configure_socket_io_timeout E client_sockfd s;
                  client_num = next_client_num s;
                  s = s\<lparr>next_client_num := client_num + 1\<rparr>;
                  (m, s) = syscall E (Kernel (malloc (sizeof_client E))) s
              in if rc m = 0
                 then let s = exec E (Net (sceNetSend client_sockfd (''421 Server is out of memory.'' @ EOL))) s
                      in Some (Inr (exec E (Net (sceNetSocketClose client_sockfd)) s))
                 else map_option Inr (admit_client E (rc m) client_num
                        (s\<lparr>client_heap := (client_heap s)(rc m \<mapsto> new_client client_num client_sockfd (sockaddr a))\<rparr>)))"

partial_function (option) accept_loop :: "'w env \<Rightarrow> 'w ftp \<Rightarrow> 'w ftp option" where
  "accept_loop E s =
     (case accept_client E s of
        None \<Rightarrow> None
      | Some (Inl s) \<Rightarrow> Some s
      | Some (Inr s) \<Rightarrow> accept_loop E s)"

text \<open>Creating, binding and listening; the result says whether the accept loop is entered.\<close>

definition server_listen :: "'w env \<Rightarrow> 'w ftp \<Rightarrow> bool \<times> 'w ftp" where
  "server_listen E s =
     (let (r, s) = syscall E (Net (sceNetSocket ''FTPVita_server_sock'')) s;
          s = s\<lparr>server_sockfd := rc r\<rparr>
      in if neg (server_sockfd s) then (False, s\<lparr>server_start_status := server_sockfd s\<rparr>)
         else let serveraddr = \<lparr>sin_family = SCE_NET_AF_INET, sin_port = sceNetHtons E FTP_PORT, sin_addr = sceNetHtonl E 0\<rparr>;
                  (r, s) = syscall E (Net (sceNetBind (server_sockfd s) serveraddr)) s
              in if neg (rc r) then (False, close_server_socket E (s\<lparr>server_start_status := rc r\<rparr>))
                 else let (r, s) = syscall E (Net (sceNetListen (server_sockfd s) 128)) s
                      in if neg (rc r) then (False, close_server_socket E (s\<lparr>server_start_status := rc r\<rparr>))
                         else (True, s\<lparr>server_start_status := 0\<rparr>))"

definition server_thread :: "'w env \<Rightarrow> 'w ftp \<Rightarrow> 'w ftp option" where
  "server_thread E s = do {
     (listening, s) \<leftarrow> Some (server_listen E s);
     s \<leftarrow> (if listening then accept_loop E s else Some s);
     s \<leftarrow> Some (if server_start_status s = SERVER_START_PENDING then s\<lparr>server_start_status := - 1\<rparr> else s);
     Some (exec E (Kernel sceKernelExitThread) s) }"

section \<open>The interface to the command server\<close>

definition ftpvita_has_active_transfer :: "'w ftp \<Rightarrow> bool" where
  "ftpvita_has_active_transfer s \<longleftrightarrow> transfer_active s \<noteq> 0"

definition ftpvita_is_reboot_quiesced :: "'w ftp \<Rightarrow> bool" where
  "ftpvita_is_reboot_quiesced s \<longleftrightarrow> reboot_quiesce_requested s \<noteq> 0"

definition ftpvita_get_socket_timeout_failure_count :: "'w ftp \<Rightarrow> i32" where
  "ftpvita_get_socket_timeout_failure_count s = socket_timeout_config_failures s"

text \<open>The result and the two counts stored for the caller; \<open>None\<close> when they are not stored.\<close>

definition ftpvita_prepare_for_reboot :: "'w env \<Rightarrow> 'w ftp \<Rightarrow> (bool \<times> (i32 \<times> bool) option) \<times> 'w ftp" where
  "ftpvita_prepare_for_reboot E s =
     (let clients = ftpvita_get_active_client_count s; transfer = ftpvita_has_active_transfer s
      in if \<not> ftp_initialized s \<or> neg (client_list_mtx s) \<or> reboot_quiesce_requested s \<noteq> 0
         then ((False, Some (clients, transfer)), s)
         else let s = s\<lparr>reboot_quiesce_requested := 1\<rparr>;
                  (r, s) = syscall E (Kernel (sceKernelLockMutex (client_list_mtx s))) s
              in if neg (rc r) then ((False, None), s\<lparr>reboot_quiesce_requested := 0\<rparr>)
                 else let clients = number_clients s; transfer = ftpvita_has_active_transfer s;
                          s = (if clients \<noteq> 0 \<or> transfer then s\<lparr>reboot_quiesce_requested := 0\<rparr> else s);
                          s = unlock_list E s
                      in ((clients = 0 \<and> \<not> transfer, Some (clients, transfer)), s))"

definition ftpvita_cancel_reboot :: "'w ftp \<Rightarrow> 'w ftp" where
  "ftpvita_cancel_reboot s = s\<lparr>reboot_quiesce_requested := 0\<rparr>"

section \<open>What the connected clients own\<close>

definition owned :: "u32 \<Rightarrow> ftpvita_client_info option \<Rightarrow> resource \<Rightarrow> int" where
  "owned p r x = (case r of None \<Rightarrow> 0 | Some c \<Rightarrow> held c x + of_bool (x = Mem p) + of_bool (x = Thread (thid c)))"

lemma core_projections:
  assumes "core c = core d"
  shows "held c = held d" "thid c = thid d" "client_ok E c = client_ok E d" "ctrl_sockfd c = ctrl_sockfd d"
proof -
  have "held (core c) = held c" "thid (core c) = thid c" "client_ok E (core c) = client_ok E c"
    "ctrl_sockfd (core c) = ctrl_sockfd c" for c
    by (auto simp: core_def held_def client_ok_def client_idle_def)
  with assms show "held c = held d" "thid c = thid d" "client_ok E c = client_ok E d" "ctrl_sockfd c = ctrl_sockfd d"
    by metis+
qed

lemma owned_core: "map_option core r = map_option core r' \<Longrightarrow> owned p r x = owned p r' x"
  by (cases r; cases r') (auto simp: owned_def dest: core_projections)

lemma registry_upd:
  assumes "registry s ps" and "p \<notin> set ps" and "p \<noteq> 0" and "\<And>c. r = Some c \<Longrightarrow> \<not> in_client_list c"
  shows "registry (s\<lparr>client_heap := (client_heap s)(p := r)\<rparr>) ps"
  using assms by (auto simp: registry_def split: if_splits)

lemma registry_nonzero: "registry s ps \<Longrightarrow> client_heap s p = Some c \<Longrightarrow> p \<noteq> 0"
  by (cases "p = 0") (auto simp: registry_def)

lemma registry_flags [simp]:
  "registry (s\<lparr>next_client_num := n\<rparr>) ps = registry s ps" "registry (s\<lparr>cl := c\<rparr>) ps = registry s ps"
  "registry (s\<lparr>reboot_quiesce_requested := i\<rparr>) ps = registry s ps" "registry (s\<lparr>transfer_active := i\<rparr>) ps = registry s ps"
  by (simp_all add: registry_def)

lemma exec_list [simp]:
  "client_heap (exec E c s) = client_heap s" "client_list (exec E c s) = client_list s"
  "number_clients (exec E c s) = number_clients s" "registry (exec E c s) ps = registry s ps"
  by (simp_all add: exec_eq registry_def)

lemma syscall_list:
  "syscall E c s = (r, t) \<Longrightarrow> client_heap t = client_heap s \<and> client_list t = client_list s \<and>
     number_clients t = number_clients s \<and> reboot_quiesce_requested t = reboot_quiesce_requested s \<and>
     balance (trace t) x = balance (trace s) x + delta (c, r) x"
  by (auto simp: syscall_def split: prod.splits)

lemma syscall_registry: "syscall E c s = (r, t) \<Longrightarrow> registry t ps = registry s ps"
  by (auto simp: syscall_def registry_def split: prod.splits)

lemma balance_exec: "balance (trace (exec E c s)) x = balance (trace s) x + delta (c, fst (syscall E c s)) x"
  by simp

text \<open>Closing a control socket and giving a record back.\<close>

lemma close_socket_eq:
  assumes "close_socket E fd s = (fd', t)"
  shows "client_heap t = client_heap s" "registry t ps = registry s ps"
    "balance (trace t) x = balance (trace s) x - holds fd x"
  using assms by (auto simp: close_socket_def delta_def holds_def not_le split: if_splits)

lemma discard_client_eq:
  assumes "registry s ps" and "client_heap s p = Some c" and "p \<notin> set ps"
  shows "\<exists>t. discard_client E p s = Some t \<and> registry t ps \<and> client_heap t = (client_heap s)(p := None) \<and>
    (\<forall>x. balance (trace t) x = balance (trace s) x - holds (ctrl_sockfd c) x - of_bool (x = Mem p))"
proof -
  have p: "p \<noteq> 0" using registry_nonzero [OF assms(1,2)] .
  obtain fd t where close: "close_socket E (ctrl_sockfd c) s = (fd, t)" by fastforce
  note eq = close_socket_eq [OF close]
  let ?t = "t\<lparr>client_heap := (client_heap s)(p := None)\<rparr>"
  have run: "discard_client E p s = Some (exec E (Kernel (free p)) ?t)"
    using assms(2) close eq(1) by (simp add: discard_client_def client_set_def free_client_def)
  have "registry ?t ps"
    using registry_upd [of t ps p None] assms(1,3) p eq(1,2) by simp
  moreover have "balance (trace (exec E (Kernel (free p)) ?t)) x
      = balance (trace s) x - holds (ctrl_sockfd c) x - of_bool (x = Mem p)" for x
    using p by (auto simp: balance_exec delta_def eq(3))
  ultimately show ?thesis using run by auto
qed

section \<open>Admitting a client\<close>

text \<open>
  The two ways an admission ends, from a state in which the record at \<open>p\<close> is not listed yet: the client is
  listed and nothing else has happened, or its record is gone and what it owned (\<open>D\<close>) has been released.
\<close>

definition admitted :: "'w ftp \<Rightarrow> u32 list \<Rightarrow> u32 \<Rightarrow> (resource \<Rightarrow> int) \<Rightarrow> 'w ftp \<Rightarrow> bool" where
  "admitted s ps p D t \<longleftrightarrow>
     registry t (p # ps) \<and> (\<forall>q. map_option core (client_heap t q) = map_option core (client_heap s q)) \<and>
       (\<forall>x. balance (trace t) x = balance (trace s) x) \<or>
     registry t ps \<and> client_heap t p = None \<and>
       (\<forall>q. q \<noteq> p \<longrightarrow> map_option core (client_heap t q) = map_option core (client_heap s q)) \<and>
       (\<forall>x. balance (trace t) x = balance (trace s) x - D x)"

lemma discard_admitted:
  assumes "registry u ps" and "client_heap u p = Some d" and "p \<notin> set ps" and "client_heap s p = Some c"
    and "\<And>q. map_option core (client_heap u q) = map_option core (client_heap s q)"
    and "\<And>x. balance (trace u) x = balance (trace s) x - T x"
  shows "\<exists>t. discard_client E p u = Some t \<and>
     admitted s ps p (\<lambda>x. holds (ctrl_sockfd c) x + of_bool (x = Mem p) + T x) t"
proof -
  have "ctrl_sockfd d = ctrl_sockfd c"
    using assms(2,4) assms(5) [of p] by (auto dest: core_projections)
  with discard_client_eq [OF assms(1-3), of E] show ?thesis
    using assms(5,6) by (force simp: admitted_def)
qed

lemma start_client_admitted:
  assumes reg: "registry s ps" and c: "client_heap s p = Some c" and p: "p \<notin> set ps"
  shows "\<exists>t. start_client E p th s = Some t \<and>
     admitted s ps p (\<lambda>x. holds (ctrl_sockfd c) x + of_bool (x = Mem p) + of_bool (x = Thread th)) t"
proof -
  obtain b u where add: "client_list_add E p s = Some (b, u)" "registry u (if b then p # ps else ps)" "list_frame s u"
    using client_list_add_refines [OF reg c p, of E] by blast
  note heap = list_frame_heap [OF add(3)] and bal = list_frame_balance [OF add(3)]
  obtain d where d: "client_heap u p = Some d" using heap [of p] c by auto
  let ?del = "Kernel (sceKernelDeleteThread th)"
  have del: "delta (?del, r) x = - of_bool (x = Thread th)" for r x by (auto simp: delta_def)
  show ?thesis
  proof (cases b)
    case False
    let ?u = "exec E ?del (exec E (Net (sceNetSend (ctrl_sockfd d) (''421 Too many FTP clients.'' @ EOL))) u)"
    have "\<exists>t. discard_client E p ?u = Some t \<and> admitted s ps p (\<lambda>x. holds (ctrl_sockfd c) x + of_bool (x = Mem p) + of_bool (x = Thread th)) t"
      by (rule discard_admitted [OF _ _ p c]) (use add(2) False d heap in \<open>simp_all add: bal del\<close>)
    then show ?thesis using add(1) False d by (simp add: start_client_def send_to_client_def)
  next
    case True
    obtain r v where start: "syscall E (Kernel (sceKernelStartThread th)) u = (r, v)" by fastforce
    have v: "client_heap v = client_heap u" "\<And>x. balance (trace v) x = balance (trace u) x" "registry v (p # ps)"
      using syscall_list [OF start] syscall_registry [OF start] add(2) True by auto
    show ?thesis
    proof (cases "neg (rc r)")
      case False
      then have "start_client E p th s = Some v" using add(1) True start by (simp add: start_client_def)
      then show ?thesis using v heap bal by (auto simp: admitted_def)
    next
      case neg: True
      obtain w where w: "client_list_delete E p v = Some (True, w)" "registry w ps" "list_frame v w"
        using client_list_delete_refines [OF v(3), of p d E] v(1) d by auto
      obtain e where e: "client_heap w p = Some e" using list_frame_heap [OF w(3), of p] v(1) d by auto
      have "\<exists>t. discard_client E p (exec E ?del w) = Some t \<and> admitted s ps p (\<lambda>x. holds (ctrl_sockfd c) x + of_bool (x = Mem p) + of_bool (x = Thread th)) t"
        by (rule discard_admitted [OF _ _ p c])
          (use w(2) e heap v list_frame_heap [OF w(3)] list_frame_balance [OF w(3)] in \<open>simp_all add: bal del\<close>)
      then show ?thesis using add(1) True start neg w(1) by (simp add: start_client_def)
    qed
  qed
qed

lemma client_set_list: "registry s ps \<Longrightarrow> client_heap s p = Some c \<Longrightarrow> p \<notin> set ps \<Longrightarrow>
   registry (s\<lparr>client_heap := (client_heap s)(p \<mapsto> c\<lparr>thid := th\<rparr>)\<rparr>) ps"
  using registry_upd [of s ps p "Some (c\<lparr>thid := th\<rparr>)"] registry_nonzero [of s ps p c] registry_in [of s ps p c] by simp

lemma admit_client_ends:
  assumes reg: "registry s ps" and c: "client_heap s p = Some c" and p: "p \<notin> set ps"
  shows "\<exists>t. admit_client E p n s = Some t \<and> (\<forall>q. q \<noteq> p \<longrightarrow> map_option core (client_heap t q) = map_option core (client_heap s q)) \<and>
    (registry t ps \<and> client_heap t p = None \<and>
       (\<forall>x. balance (trace t) x = balance (trace s) x - holds (ctrl_sockfd c) x - of_bool (x = Mem p)) \<or>
     (\<exists>th. registry t (p # ps) \<and> map_option core (client_heap t p) = Some (core (c\<lparr>thid := th\<rparr>)) \<and>
       (\<forall>x. balance (trace t) x = balance (trace s) x + of_bool (x = Thread th))))"
proof -
  obtain r u where create: "syscall E (Kernel (sceKernelCreateThread (client_thread_name n))) s = (r, u)" by fastforce
  have u: "client_heap u = client_heap s" "registry u ps"
    "balance (trace u) x = balance (trace s) x + of_bool (\<not> neg (rc r) \<and> x = Thread (rc r))" for x
    using syscall_list [OF create] syscall_registry [OF create] reg by (auto simp: delta_def)
  show ?thesis
  proof (cases "neg (rc r)")
    case True
    let ?u = "exec E (Net (sceNetSend (ctrl_sockfd c) (''421 Server cannot create a client thread.'' @ EOL))) u"
    obtain t where "discard_client E p ?u = Some t" "registry t ps" "client_heap t = (client_heap u)(p := None)"
      "\<forall>x. balance (trace t) x = balance (trace ?u) x - holds (ctrl_sockfd c) x - of_bool (x = Mem p)"
      using discard_client_eq [of ?u ps p c E] u c p by auto
    with True create u c show ?thesis
      by (intro exI [of _ t]) (simp add: admit_client_def send_to_client_def)
  next
    case False
    let ?v = "u\<lparr>client_heap := (client_heap u)(p \<mapsto> c\<lparr>thid := rc r\<rparr>)\<rparr>"
    have "registry ?v ps" using client_set_list [OF u(2) _ p] u(1) c by simp
    from start_client_admitted [OF this _ p, of "c\<lparr>thid := rc r\<rparr>" E "rc r"] obtain t where
      "start_client E p (rc r) ?v = Some t" and
      t: "admitted ?v ps p (\<lambda>x. holds (ctrl_sockfd c) x + of_bool (x = Mem p) + of_bool (x = Thread (rc r))) t" by auto
    then have run: "admit_client E p n s = Some t"
      using False create u c by (simp add: admit_client_def client_set_def)
    from t show ?thesis unfolding admitted_def
    proof (elim disjE conjE, goal_cases)
      case 1
      from 1(2) [THEN spec, of p] have "map_option core (client_heap t p) = Some (core (c\<lparr>thid := rc r\<rparr>))" by simp
      with run 1 u False show ?thesis
        by (intro exI [of _ t] conjI disjI2 exI [of _ "rc r"]) simp_all
    next
      case 2
      with run u False show ?thesis by (intro exI [of _ t] conjI disjI1) simp_all
    qed
  qed
qed

section \<open>The state of the server between two steps\<close>

definition sys_ok :: "'w env \<Rightarrow> 'w ftp \<Rightarrow> bool" where
  "sys_ok E s \<longleftrightarrow>
     (\<exists>ps. registry s ps \<and> dom (client_heap s) = set ps) \<and> (\<forall>p c. client_heap s p = Some c \<longrightarrow> client_ok E c)"

text \<open>What is open beyond what the connected clients own.\<close>

definition leaked :: "'w ftp \<Rightarrow> resource \<Rightarrow> int" where
  "leaked s x = balance (trace s) x - (\<Sum>p \<in> dom (client_heap s). owned p (client_heap s p) x)"

lemma owned_insert:
  assumes "finite (dom h)" and "\<And>q. q \<noteq> p \<Longrightarrow> map_option core (h' q) = map_option core (h q)"
  shows "(\<Sum>q \<in> dom h'. owned q (h' q) x) = (\<Sum>q \<in> dom h. owned q (h q) x) + owned p (h' p) x - owned p (h p) x"
proof -
  have sum: "(\<Sum>q \<in> dom g. owned q (g q) x) = (\<Sum>q \<in> dom g - {p}. owned q (g q) x) + owned p (g p) x"
    if "finite (dom g)" for g
    using that by (cases "p \<in> dom g") (auto simp: sum.remove [of "dom g" p] owned_def)
  have dom: "dom h' - {p} = dom h - {p}"
    using assms(2) by (auto simp: dom_def) (metis map_option_eq_Some)+
  then have "finite (dom h')" using assms(1) by (metis finite_Diff2 finite.emptyI finite_insert)
  moreover have "(\<Sum>q \<in> dom h' - {p}. owned q (h' q) x) = (\<Sum>q \<in> dom h - {p}. owned q (h q) x)"
    unfolding dom by (rule sum.cong) (auto intro: owned_core assms(2))
  ultimately show ?thesis using sum [of h] sum [of h'] assms(1) by simp
qed

text \<open>
  The answer to the allocation that a turn of the accept loop makes. What the server relies on is that
  \<open>malloc\<close> never hands out the memory of a record that is still in use.
\<close>

definition accept_malloc :: "'w env \<Rightarrow> 'w ftp \<Rightarrow> u32" where
  "accept_malloc E s =
     (let (a, s) = syscall E (Net (sceNetAccept (server_sockfd s))) s;
          (_, s) = configure_socket_io_timeout E (rc a) s;
          (m, s) = syscall E (Kernel (malloc (sizeof_client E))) (s\<lparr>next_client_num := next_client_num s + 1\<rparr>)
      in rc m)"

definition fresh_record :: "'w env \<Rightarrow> 'w ftp \<Rightarrow> bool" where
  "fresh_record E s \<longleftrightarrow> client_heap s (accept_malloc E s) = None"

lemma quiet_list:
  assumes "quiet s t"
  shows "client_heap t = client_heap s" "registry t ps = registry s ps" "balance (trace t) x = balance (trace s) x"
  using assms by (auto simp: quiet_def owes_def same_server_def registry_def unaccounted_def)

lemma new_client_ok: "1 < PATH_MAX E \<Longrightarrow> client_ok E (new_client n fd a)" "client_ok E (c\<lparr>thid := th\<rparr>) = client_ok E c"
  by (simp_all add: new_client_def client_ok_def client_idle_def cwd_ok_root)

text \<open>The heap keeps the invariant if every other record keeps its core and the one at \<open>p\<close> is well-formed.\<close>

lemma sys_okI:
  assumes "sys_ok E s" and "registry t ps" and "dom (client_heap t) = set ps"
    and "\<And>q. q \<noteq> p \<Longrightarrow> map_option core (client_heap t q) = map_option core (client_heap s q)"
    and "\<And>c. client_heap t p = Some c \<Longrightarrow> client_ok E c"
  shows "sys_ok E t"
  unfolding sys_ok_def
proof (intro conjI allI impI)
  show "\<exists>ps. registry t ps \<and> dom (client_heap t) = set ps" using assms(2,3) by blast
next
  fix q c
  assume c: "client_heap t q = Some c"
  show "client_ok E c"
  proof (cases "q = p")
    case False
    then have "map_option core (client_heap s q) = Some (core c)" using assms(4) [of q] c by simp
    then obtain d where "client_heap s q = Some d" "core c = core d" by auto
    with assms(1) show ?thesis by (metis core_projections(3) sys_ok_def)
  qed (use assms(5) c in simp)
qed

lemma dom_other:
  assumes "\<And>q. q \<noteq> p \<Longrightarrow> map_option core (h' q) = map_option core (h q)"
  shows "dom h' = (if h' p = None then dom h - {p} else insert p (dom h))"
proof -
  have "q \<in> dom h' \<longleftrightarrow> q \<in> dom h" if "q \<noteq> p" for q using assms [OF that] by (metis domIff option.map_disc_iff)
  then have "q \<in> dom h' \<longleftrightarrow> q \<in> (if h' p = None then dom h - {p} else insert p (dom h))" for q
    by (cases "q = p") auto
  then show ?thesis by blast
qed

lemma admit_sys_ok:
  assumes ok: "sys_ok E s" and ps: "registry s ps" "dom (client_heap s) = set ps" and free: "client_heap s p = None"
    and others: "\<And>q. q \<noteq> p \<Longrightarrow> map_option core (client_heap t q) = map_option core (client_heap s q)" and path: "1 < PATH_MAX E"
    and ends: "registry t ps \<and> client_heap t p = None \<and>
        (\<forall>x. balance (trace t) x = B x - holds fd x - of_bool (x = Mem p)) \<or>
      (\<exists>th. registry t (p # ps) \<and> map_option core (client_heap t p) = Some (core ((new_client n fd a)\<lparr>thid := th\<rparr>)) \<and>
        (\<forall>x. balance (trace t) x = B x + of_bool (x = Thread th)))"
    and B: "\<And>x. B x = balance (trace s) x + holds fd x + of_bool (x = Mem p)"
  shows "sys_ok E t \<and> (\<forall>x. leaked t x = leaked s x)"
proof -
  have fin: "finite (dom (client_heap s))" and p: "p \<notin> set ps" using ps(2) free by auto
  note sum = owned_insert [where h' = "client_heap t" and p = p, OF fin others]
    and dom = dom_other [where h = "client_heap s" and h' = "client_heap t" and p = p, OF others]
  from ends show ?thesis
  proof (elim disjE exE conjE)
    assume t: "registry t ps" "client_heap t p = None" "\<forall>x. balance (trace t) x = B x - holds fd x - of_bool (x = Mem p)"
    have "sys_ok E t" by (rule sys_okI [OF ok t(1) _ others]) (use dom t(2) ps(2) p in auto)
    with sum t free show ?thesis by (simp add: leaked_def owned_def B)
  next
    fix th
    assume t: "registry t (p # ps)" "map_option core (client_heap t p) = Some (core ((new_client n fd a)\<lparr>thid := th\<rparr>))"
      "\<forall>x. balance (trace t) x = B x + of_bool (x = Thread th)"
    obtain d where d: "client_heap t p = Some d" "core d = core ((new_client n fd a)\<lparr>thid := th\<rparr>)" using t(2) by auto
    have "client_ok E d" using core_projections(3) [OF d(2), of E] new_client_ok [of E] path by simp
    then have "sys_ok E t" by (intro sys_okI [OF ok t(1) _ others]) (use dom d ps(2) in auto)
    moreover have "owned p (client_heap t p) x = holds fd x + of_bool (x = Mem p) + of_bool (x = Thread th)" for x
      using owned_core [of "client_heap t p" "Some ((new_client n fd a)\<lparr>thid := th\<rparr>)"] t(2)
      by (simp add: owned_def held_def new_client_def)
    ultimately show ?thesis using sum t(3) free by (simp add: leaked_def owned_def B)
  qed
qed

text \<open>How a turn of the accept loop ends: nothing has changed but the trace, or a new record has come and gone, or the
  new client is on the list.\<close>

definition accept_ends :: "'w ftp \<Rightarrow> u32 list \<Rightarrow> 'w ftp \<Rightarrow> bool" where
  "accept_ends s ps t \<longleftrightarrow>
     client_heap t = client_heap s \<and> registry t ps \<and> (\<forall>x. balance (trace t) x = balance (trace s) x) \<or>
     (\<exists>p n fd a. client_heap s p = None \<and> (\<forall>q. q \<noteq> p \<longrightarrow> map_option core (client_heap t q) = map_option core (client_heap s q)) \<and>
       (registry t ps \<and> client_heap t p = None \<and> (\<forall>x. balance (trace t) x = balance (trace s) x) \<or>
        (\<exists>th. registry t (p # ps) \<and> map_option core (client_heap t p) = Some (core ((new_client n fd a)\<lparr>thid := th\<rparr>)) \<and>
          (\<forall>x. balance (trace t) x = balance (trace s) x + holds fd x + of_bool (x = Mem p) + of_bool (x = Thread th)))))"

lemma accept_client_ends:
  assumes reg: "registry s ps" and fresh: "fresh_record E s"
  shows "\<exists>y. accept_client E s = Some y \<and> accept_ends s ps (turn_end y)"
proof -
  obtain a s1 where acc: "syscall E (Net (sceNetAccept (server_sockfd s))) s = (a, s1)" by fastforce
  have s1: "client_heap s1 = client_heap s" "registry s1 ps"
    "balance (trace s1) x = balance (trace s) x + holds (rc a) x" for x
    using syscall_list [OF acc] syscall_registry [OF acc] reg by (auto simp: delta_def holds_def)
  show ?thesis
  proof (cases "neg (rc a)")
    case True
    then show ?thesis using acc s1 by (intro exI [of _ "Inl s1"]) (auto simp: accept_client_def turn_end_def accept_ends_def)
  next
    case False
    obtain q s2 where conf: "configure_socket_io_timeout E (rc a) s1 = (q, s2)" by fastforce
    note s2 = quiet_list [OF configure_quiet [OF conf]]
    let ?n = "next_client_num s2"
    obtain m s3 where mal: "syscall E (Kernel (malloc (sizeof_client E))) (s2\<lparr>next_client_num := ?n + 1\<rparr>) = (m, s3)" by fastforce
    have s3: "client_heap s3 = client_heap s" "registry s3 ps"
      "balance (trace s3) x = balance (trace s) x + holds (rc a) x + of_bool (rc m \<noteq> 0 \<and> x = Mem (rc m))" for x
      using syscall_list [OF mal] syscall_registry [OF mal, of ps] s1 s2 by (auto simp: delta_def)
    have free: "client_heap s (rc m) = None" using fresh acc conf mal by (simp add: fresh_record_def accept_malloc_def)
    show ?thesis
    proof (cases "rc m = 0")
      case True
      let ?t = "exec E (Net (sceNetSocketClose (rc a))) (exec E (Net (sceNetSend (rc a) (''421 Server is out of memory.'' @ EOL))) s3)"
      have "accept_client E s = Some (Inr ?t)" using acc conf mal True False by (simp add: accept_client_def Let_def)
      moreover have "balance (trace ?t) x = balance (trace s) x" for x using s3 False True by (auto simp: delta_def holds_def)
      ultimately show ?thesis using s3(1,2) by (auto simp: turn_end_def accept_ends_def)
    next
      case nonzero: False
      let ?c = "new_client ?n (rc a) (sockaddr a)"
      let ?v = "s3\<lparr>client_heap := (client_heap s3)(rc m \<mapsto> ?c)\<rparr>"
      obtain l where "dseg (client_heap s) 0 (client_list s) ps 0 l" using reg by (auto simp: registry_def)
      then have p: "rc m \<notin> set ps" using free dseg_in by fastforce
      have "registry ?v ps" by (rule registry_upd [OF s3(2) p nonzero]) (simp add: new_client_def)
      from admit_client_ends [OF this _ p, of ?c E ?n] obtain t where adm: "admit_client E (rc m) ?n ?v = Some t"
        and others: "\<forall>q. q \<noteq> rc m \<longrightarrow> map_option core (client_heap t q) = map_option core (client_heap s q)"
        and ends: "registry t ps \<and> client_heap t (rc m) = None \<and>
            (\<forall>x. balance (trace t) x = balance (trace s3) x - holds (rc a) x - of_bool (x = Mem (rc m))) \<or>
          (\<exists>th. registry t (rc m # ps) \<and> map_option core (client_heap t (rc m)) = Some (core (?c\<lparr>thid := th\<rparr>)) \<and>
            (\<forall>x. balance (trace t) x = balance (trace s3) x + of_bool (x = Thread th)))"
        using s3(1) by (auto simp: new_client_def)
      have run: "accept_client E s = Some (Inr t)" using acc conf mal nonzero False adm by (simp add: accept_client_def)
      have ends': "registry t ps \<and> client_heap t (rc m) = None \<and> (\<forall>x. balance (trace t) x = balance (trace s) x) \<or>
          (\<exists>th. registry t (rc m # ps) \<and> map_option core (client_heap t (rc m)) = Some (core (?c\<lparr>thid := th\<rparr>)) \<and>
            (\<forall>x. balance (trace t) x = balance (trace s) x + holds (rc a) x + of_bool (x = Mem (rc m)) + of_bool (x = Thread th)))"
        using ends by (simp add: s3(3) nonzero)
      have "accept_ends s ps t" unfolding accept_ends_def
        by (rule disjI2, rule exI [of _ "rc m"], rule exI [of _ ?n], rule exI [of _ "rc a"], rule exI [of _ "sockaddr a"],
            intro conjI free others ends')
      with run show ?thesis by (simp add: turn_end_def)
    qed
  qed
qed

lemma accept_client_ok:
  assumes ok: "sys_ok E s" and fresh: "fresh_record E s" and path: "1 < PATH_MAX E"
  shows "\<exists>y. accept_client E s = Some y \<and> sys_ok E (turn_end y) \<and> (\<forall>x. leaked (turn_end y) x = leaked s x)"
proof -
  obtain ps where ps: "registry s ps" "dom (client_heap s) = set ps" using ok by (auto simp: sys_ok_def)
  obtain y where y: "accept_client E s = Some y" and ends: "accept_ends s ps (turn_end y)"
    using accept_client_ends [OF ps(1) fresh] by blast
  from ends [unfolded accept_ends_def] show ?thesis
  proof (elim disjE [of "_ \<and> registry _ _ \<and> _"] exE conjE, goal_cases)
    case 1
    with y ok ps show ?case by (auto simp: sys_ok_def leaked_def)
  next
    case (2 p n fd a)
    have "sys_ok E (turn_end y) \<and> (\<forall>x. leaked (turn_end y) x = leaked s x)"
      by (rule admit_sys_ok [where B = "\<lambda>x. balance (trace s) x + holds fd x + of_bool (x = Mem p)" and fd = fd and a = a and n = n, OF ok ps 2(1) _ path])
        (use 2(2,3) in auto)
    with y show ?case by blast
  qed
qed

section \<open>The commands and the departure of a client\<close>

lemma sys_ok_client: "sys_ok E s \<Longrightarrow> client_heap s p = Some c \<Longrightarrow> client_ok E c"
  by (auto simp: sys_ok_def)

text \<open>A client's record is written back after a turn; the list does not notice.\<close>

lemma dseg_ident:
  assumes "dseg h q r ps e l" and "\<And>p. map_option ident (h' p) = map_option ident (h p)"
  shows "dseg h' q r ps e l"
  using assms(1)
proof (induction ps arbitrary: q r)
  case (Cons a ps)
  then obtain c where c: "h a = Some c" "r = a" "a \<noteq> 0" "prev_client c = q" "in_client_list c" "dseg h a (next_client c) ps e l"
    by auto
  then obtain d where "h' a = Some d" "ident d = ident c" using assms(2) [of a] by auto
  with c Cons.IH show ?case by (simp add: ident_def)
qed simp

lemma registry_ident:
  assumes "registry s ps" and heap: "\<And>p. map_option ident (client_heap t p) = map_option ident (client_heap s p)"
    and "client_list t = client_list s" "number_clients t = number_clients s"
  shows "registry t ps"
proof -
  have "p \<in> set ps" if t: "client_heap t p = Some c" "in_client_list c" for p c
  proof -
    have "map_option ident (client_heap s p) = Some (ident c)" using heap [of p] t(1) by simp
    then obtain d where "client_heap s p = Some d" "ident d = ident c" by auto
    with assms(1) t(2) show ?thesis by (auto simp: registry_def ident_def)
  qed
  moreover have "client_heap t 0 = None" using assms(1) heap [of 0] by (simp add: registry_def)
  moreover obtain l where "dseg (client_heap s) 0 (client_list s) ps 0 l" using assms(1) by (auto simp: registry_def)
  then have "dseg (client_heap t) 0 (client_list t) ps 0 l" using dseg_ident heap assms(3) by metis
  ultimately show ?thesis using assms by (auto simp: registry_def)
qed

lemma client_turn_ok:
  assumes ok: "sys_ok E s" and c: "client_heap s p = Some c" and path: "514 \<le> PATH_MAX E" and cust: "custom_ok E custom"
    and run: "client_turn E custom (s\<lparr>cl := c\<rparr>) = Some y"
  shows "sys_ok E (write_back p (turn_end y)) \<and> (\<forall>x. leaked (write_back p (turn_end y)) x = leaked s x)"
proof -
  let ?t = "turn_end y"
  have "client_ok E (cl (s\<lparr>cl := c\<rparr>))" using sys_ok_client [OF ok c] by simp
  from client_turn_ends [OF this path cust run] have e: "ends (s\<lparr>cl := c\<rparr>) (command_post E (s\<lparr>cl := c\<rparr>)) ?t" .
  then have t: "client_heap ?t = client_heap s" "client_list ?t = client_list s" "number_clients ?t = number_clients s"
    "ident (cl ?t) = ident c" "client_ok E (cl ?t)"
    "\<And>x. balance (trace ?t) x - held (cl ?t) x = balance (trace s) x - held c x"
    by (auto simp: ends_def owes_def same_server_def command_post_def unaccounted_def)
  obtain ps where ps: "registry s ps" "dom (client_heap s) = set ps" using ok by (auto simp: sys_ok_def)
  have reg: "registry (write_back p ?t) ps"
    by (rule registry_ident [OF ps(1)]) (use t c in \<open>auto simp: write_back_def\<close>)
  have others: "q \<noteq> p \<Longrightarrow> map_option core (client_heap (write_back p ?t) q) = map_option core (client_heap s q)" for q
    by (simp add: write_back_def t(1))
  have "sys_ok E (write_back p ?t)"
    by (rule sys_okI [OF ok reg _ others]) (use t ps(2) c in \<open>auto simp: write_back_def\<close>)
  moreover have "leaked (write_back p ?t) x = leaked s x" for x
  proof -
    have "owned p (Some (cl ?t)) x - owned p (Some c) x = held (cl ?t) x - held c x"
      using t(4) by (simp add: owned_def ident_def)
    moreover have "(\<Sum>q \<in> dom (client_heap (write_back p ?t)). owned q (client_heap (write_back p ?t) q) x) =
       (\<Sum>q \<in> dom (client_heap s). owned q (client_heap s q) x) + owned p (Some (cl ?t)) x - owned p (Some c) x"
      using owned_insert [of "client_heap s" p "client_heap (write_back p ?t)" x, OF _ others] ps(2) c
      by (simp add: write_back_def)
    ultimately show ?thesis using t(6) [of x] by (simp add: leaked_def write_back_def)
  qed
  ultimately show ?thesis by blast
qed

lemma close_data_balance:
  assumes "neg (ctrl_sockfd (cl s))"
  shows "balance (trace (client_close_data_connection E s)) x = balance (trace s) x - held (cl s) x"
proof -
  have "unaccounted (client_close_data_connection E s) x = unaccounted s x" using conserves_close [of s E] by (simp add: owes_def)
  moreover have "held (closed (cl s)) x = 0" using assms by (simp add: held_def)
  ultimately show ?thesis by (simp add: unaccounted_def)
qed

lemma client_close_data_list:
  "client_heap (client_close_data_connection E s) = client_heap s"
  "registry (client_close_data_connection E s) ps = registry s ps"
  using conserves_close [of s E] by (auto simp: owes_def same_server_def registry_def)

lemma client_exit_eq:
  assumes reg: "registry s ps" and c: "client_heap s p = Some c" and p: "p \<in> set ps"
  shows "\<exists>t. client_exit E p s = Some t \<and> registry t (remove1 p ps) \<and> client_heap t p = None \<and>
    (\<forall>q. q \<noteq> p \<longrightarrow> map_option core (client_heap t q) = map_option core (client_heap s q)) \<and>
    (\<forall>x. balance (trace t) x = balance (trace s) x - owned p (Some c) x)"
proof -
  obtain u where u: "client_list_delete E p s = Some (True, u)" "registry u (remove1 p ps)" "list_frame s u"
    using client_list_delete_refines [OF reg c, of E] p by auto
  note heap = list_frame_heap [OF u(3)] and bal = list_frame_balance [OF u(3)]
  obtain d where d: "client_heap u p = Some d" "core d = core c" using heap [of p] c by auto
  have thid: "thid d = thid c" and held: "held d = held c" using core_projections(1,2) [OF d(2)] by simp_all
  obtain fd v where close: "close_socket E (ctrl_sockfd d) (u\<lparr>cl := d\<rparr>) = (fd, v)" by fastforce
  note v = close_socket_eq [OF close] and facts = close_socket_ftpD [OF close]
  let ?v = "set_cl (\<lambda>c. c\<lparr>ctrl_sockfd := fd\<rparr>) v"
  let ?w = "client_close_data_connection E ?v"
  let ?x = "?w\<lparr>client_heap := (client_heap ?w)(p := None)\<rparr>"
  let ?t = "exec E (Kernel (sceKernelExitDeleteThread (thid d))) (exec E (Kernel (free p)) ?x)"
  have nz: "p \<noteq> 0" using registry_nonzero [OF reg c] .
  have run: "client_exit E p s = Some ?t"
    using u(1) d close facts by (simp add: client_exit_def free_client_def closed_def)
  have "p \<notin> set (remove1 p ps)" using reg by (simp add: registry_def)
  then have "registry ?x (remove1 p ps)"
    using registry_upd [of ?w "remove1 p ps" p None] u(2) v(1,2) nz by (simp add: client_close_data_list)
  moreover have "client_heap ?x = (client_heap u)(p := None)" using v(1) by (simp add: client_close_data_list)
  moreover have "balance (trace ?t) x = balance (trace s) x - owned p (Some c) x" for x
  proof -
    have "held (d\<lparr>ctrl_sockfd := fd\<rparr>) x = held d x - holds (ctrl_sockfd d) x" using facts by (simp add: held_def)
    then have "balance (trace ?w) x = balance (trace s) x - held d x"
      using facts v(3) bal by (subst close_data_balance) auto
    then show ?thesis using nz by (auto simp: delta_def owned_def thid held)
  qed
  ultimately show ?thesis using run heap by (intro exI [of _ ?t]) auto
qed

lemma client_exit_ok:
  assumes ok: "sys_ok E s" and c: "client_heap s p = Some c"
  shows "\<exists>t. client_exit E p s = Some t \<and> sys_ok E t \<and> (\<forall>x. leaked t x = leaked s x)"
proof -
  obtain ps where ps: "registry s ps" "dom (client_heap s) = set ps" using ok by (auto simp: sys_ok_def)
  then have "p \<in> set ps" using c by (metis domI)
  from client_exit_eq [OF ps(1) c this, of E] obtain t where t: "client_exit E p s = Some t" "registry t (remove1 p ps)"
    "client_heap t p = None" "\<And>x. balance (trace t) x = balance (trace s) x - owned p (Some c) x"
    and others: "\<And>q. q \<noteq> p \<Longrightarrow> map_option core (client_heap t q) = map_option core (client_heap s q)" by blast
  have "distinct ps" using ps(1) by (simp add: registry_def)
  then have "dom (client_heap t) = set (remove1 p ps)"
    using dom_other [of p "client_heap t" "client_heap s", OF others] t(3) ps(2) by simp
  then have "sys_ok E t" by (intro sys_okI [OF ok t(2) _ others]) (use t(3) in auto)
  moreover have "leaked t x = leaked s x" for x
    using owned_insert [of "client_heap s" p "client_heap t" x, OF _ others] ps(2) t(3,4) c
    by (simp add: leaked_def owned_def)
  ultimately show ?thesis using t(1) by blast
qed

section \<open>The running server\<close>

text \<open>
  The server as a transition system: it accepts a connection, a client executes one command, a client
  leaves after its last one, or the command server asks for a reboot, withdraws the request or aborts all clients.
  Threads interleave between commands.
\<close>

inductive ftp_step :: "'w env \<Rightarrow> (u32 \<Rightarrow> 'w ftp \<Rightarrow> 'w ftp option) \<Rightarrow> 'w ftp \<Rightarrow> 'w ftp \<Rightarrow> bool" for E custom where
  accept: "accept_client E s = Some (Inr t) \<Longrightarrow> fresh_record E s \<Longrightarrow> ftp_step E custom s t"
| command: "client_heap s p = Some c \<Longrightarrow> client_turn E custom (s\<lparr>cl := c\<rparr>) = Some (Inr t) \<Longrightarrow>
     ftp_step E custom s (write_back p t)"
| leave: "client_heap s p = Some c \<Longrightarrow> client_turn E custom (s\<lparr>cl := c\<rparr>) = Some (Inl t) \<Longrightarrow>
     client_exit E p (write_back p t) = Some u \<Longrightarrow> ftp_step E custom s u"
| prepare: "ftpvita_prepare_for_reboot E s = (r, t) \<Longrightarrow> ftp_step E custom s t"
| cancel: "ftp_step E custom s (ftpvita_cancel_reboot s)"
| abort: "ftpvita_abort_clients E s = Some (r, t) \<Longrightarrow> ftp_step E custom s t"

lemma sys_ok_cong:
  assumes "client_heap t = client_heap s" "registry t = registry s" "\<And>x. balance (trace t) x = balance (trace s) x"
  shows "sys_ok E t = sys_ok E s" "leaked t x = leaked s x"
  using assms by (simp_all add: sys_ok_def leaked_def)

lemma prepare_list:
  assumes "ftpvita_prepare_for_reboot E s = (r, t)"
  shows "client_heap t = client_heap s" "registry t = registry s" "balance (trace t) x = balance (trace s) x"
proof -
  have t: "client_heap t = client_heap s" "client_list t = client_list s" "number_clients t = number_clients s"
    "balance (trace t) x = balance (trace s) x"
    using assms by (auto simp: ftpvita_prepare_for_reboot_def Let_def syscall_def unlock_list_def split: prod.splits if_splits)
  then show "client_heap t = client_heap s" "registry t = registry s" "balance (trace t) x = balance (trace s) x"
    using registry_cong [OF t(1-3)] by blast+
qed

lemma ftp_step_ok:
  assumes "ftp_step E custom s t" and ok: "sys_ok E s" and path: "514 \<le> PATH_MAX E" and cust: "custom_ok E custom"
  shows "sys_ok E t \<and> (\<forall>x. leaked t x = leaked s x)"
  using assms(1)
proof cases
  case accept
  then show ?thesis using accept_client_ok [OF ok] path by (force simp: turn_end_def)
next
  case (command p c t)
  then show ?thesis using client_turn_ok [OF ok command(2) path cust command(3)] by (simp add: turn_end_def)
next
  case (leave p c u)
  then have w: "sys_ok E (write_back p u)" "\<forall>x. leaked (write_back p u) x = leaked s x"
    using client_turn_ok [OF ok leave(1) path cust leave(2)] by (simp_all add: turn_end_def)
  have "client_heap (write_back p u) p = Some (cl u)" by (simp add: write_back_def)
  from client_exit_ok [OF w(1) this] leave(3) w(2) show ?thesis by auto
next
  case (prepare r)
  then show ?thesis using sys_ok_cong prepare_list ok by blast
next
  case cancel
  then show ?thesis using ok by (simp add: ftpvita_cancel_reboot_def sys_ok_def leaked_def)
next
  case (abort r)
  obtain ps where "registry s ps" using ok by (auto simp: sys_ok_def)
  with abort ftpvita_abort_clients_eq [of s ps E] have calls: "only_calls s t" by auto
  have "registry t = registry s" using registry_cong [OF only_callsD(1-3) [OF calls]] by blast
  with only_callsD [OF calls] sys_ok_cong [of t s] ok show ?thesis by blast
qed

lemma ftp_run_ok:
  assumes "(ftp_step E custom)\<^sup>*\<^sup>* s t" and "sys_ok E s" and "514 \<le> PATH_MAX E" and "custom_ok E custom"
  shows "sys_ok E t \<and> (\<forall>x. leaked t x = leaked s x)"
  using assms(1)
proof induction
  case base
  show ?case using assms(2) by simp
next
  case (step t u)
  then show ?case using ftp_step_ok [OF step(2) _ assms(3,4)] by auto
qed

section \<open>Properties\<close>

text \<open>C3: the running server leaks nothing. Whatever clients connect, whatever commands they send in whatever
  interleaving, however the calls of the system fail and whoever asks for a reboot meanwhile: the sockets,
  buffers, threads and other resources that are open beyond those that the connected clients own are always the
  ones that were open at the start; the list is well formed, holds every client record there is and at
  most eight of them, each with a valid state; and the accept loop can always take its next turn.\<close>

theorem ftp_server_conserves:
  assumes "(ftp_step E custom)\<^sup>*\<^sup>* s t" and "sys_ok E s" and "514 \<le> PATH_MAX E" and "custom_ok E custom"
  shows "balance (trace t) x - (\<Sum>p \<in> dom (client_heap t). owned p (client_heap t p) x) =
      balance (trace s) x - (\<Sum>p \<in> dom (client_heap s). owned p (client_heap s p) x) \<and>
    (\<exists>ps. registry t ps \<and> dom (client_heap t) = set ps \<and> length ps \<le> MAX_CLIENTS) \<and>
    (\<forall>p c. client_heap t p = Some c \<longrightarrow> client_ok E c) \<and>
    (fresh_record E t \<longrightarrow> (\<exists>y. accept_client E t = Some y))"
proof -
  have t: "sys_ok E t" "leaked t x = leaked s x" using ftp_run_ok [OF assms] by auto
  have "fresh_record E t \<Longrightarrow> \<exists>y. accept_client E t = Some y" using accept_client_ok [OF t(1)] assms(3) by fastforce
  with t show ?thesis by (auto simp: sys_ok_def leaked_def registry_def)
qed

definition idle_server :: "ret list ftp" where
  "idle_server = (script_ftp [answer 9, answer 0, answer 0, answer 64, answer 33, answer 0, answer 0, answer 0] idle_client)
     \<lparr>client_list := 0, number_clients := 0\<rparr>"

lemma idle_server_ok: "sys_ok script_env idle_server"
  by (auto simp: sys_ok_def registry_def idle_server_def script_ftp_def intro!: exI [of _ "[]"])

text \<open>A connection on descriptor 9 is admitted: its record is at 64, its thread is 33.\<close>

lemma idle_server_accepts: "\<exists>t c. accept_client script_env idle_server = Some (Inr t) \<and> fresh_record script_env idle_server \<and>
   client_heap t 64 = Some c \<and> thid c = 33 \<and> ctrl_sockfd c = 9"
  by (simp add: accept_client_def fresh_record_def accept_malloc_def idle_server_def script_ftp_def script_syscall exec_def
      configure_socket_io_timeout_def admit_client_def start_client_def client_list_add_def client_set_def lock_list_def
      unlock_list_def new_client_def answer_def Let_def)

theorem ftp_server_conserves_witness:
  "\<exists>t c. (ftp_step script_env (\<lambda>_ s. Some s))\<^sup>*\<^sup>* idle_server t \<and> client_heap t 64 = Some c \<and>
     (\<exists>ps. registry t ps \<and> dom (client_heap t) = set ps)"
proof -
  obtain t c where t: "accept_client script_env idle_server = Some (Inr t)" "fresh_record script_env idle_server"
    "client_heap t 64 = Some c" using idle_server_accepts by blast
  then have run: "(ftp_step script_env (\<lambda>_ s. Some s))\<^sup>*\<^sup>* idle_server t" by (blast intro: ftp_step.accept)
  have "custom_ok script_env (\<lambda>_ s. Some s)"
    by (simp add: custom_ok_def may_end_def ends_def command_post_def)
  then have "\<exists>ps. registry t ps \<and> dom (client_heap t) = set ps"
    using ftp_server_conserves [OF run idle_server_ok] by force
  with run t(3) show ?thesis by blast
qed

text \<open>C32: a client thread cleans up after itself. When the thread of a connected client returns, whatever its session
  did, it has taken the client off the list and freed its record, and everything that the record owned (its
  control, data and passive sockets, its memory and its thread) has been released once; the other clients
  and everything else are as they were.\<close>

theorem client_thread_cleans_up:
  assumes "registry s ps" and "client_heap s p = Some c" and "p \<in> set ps" and "client_ok E c"
    and "514 \<le> PATH_MAX E" and "custom_ok E custom" and "client_thread E custom p s = Some t"
  shows "registry t (remove1 p ps) \<and> client_heap t p = None \<and>
    (\<forall>q. q \<noteq> p \<longrightarrow> map_option core (client_heap t q) = map_option core (client_heap s q)) \<and>
    (\<forall>x. balance (trace t) x = balance (trace s) x - owned p (Some c) x)"
proof -
  let ?s = "client_send_ctrl_msg E (''220 FTPVita Server ready.'' @ EOL) (s\<lparr>cl := c\<rparr>)"
  obtain u where loop: "client_loop E custom ?s = Some u" and exit: "client_exit E p (write_back p u) = Some t"
    using assms(2,7) by (auto simp: client_thread_def Option.bind_eq_Some_conv)
  have "conserves (s\<lparr>cl := c\<rparr>) ?s" by (rule pushes, rule pushes) simp
  moreover have "ends ?s (command_post E ?s) u" by (rule client_loop_ends) (use assms loop in simp_all)
  ultimately have "conserves (s\<lparr>cl := c\<rparr>) u" by (auto simp: ends_def intro: conserves_trans)
  then have u: "client_heap u = client_heap s" "client_list u = client_list s" "number_clients u = number_clients s"
    "ident (cl u) = ident c" "\<And>x. balance (trace u) x - held (cl u) x = balance (trace s) x - held c x"
    by (auto simp: owes_def same_server_def unaccounted_def)
  have "registry (write_back p u) ps"
    by (rule registry_ident [OF assms(1)]) (use u assms(2) in \<open>auto simp: write_back_def\<close>)
  from client_exit_eq [OF this _ assms(3), of "cl u" E] exit have t: "registry t (remove1 p ps)" "client_heap t p = None"
    "\<forall>q. q \<noteq> p \<longrightarrow> map_option core (client_heap t q) = map_option core (client_heap u q)"
    "\<forall>x. balance (trace t) x = balance (trace u) x - owned p (Some (cl u)) x" by (auto simp: write_back_def)
  have "balance (trace u) x - owned p (Some (cl u)) x = balance (trace s) x - owned p (Some c) x" for x
    using u(4) u(5) [of x] by (simp add: owned_def ident_def)
  with t u(1) show ?thesis by simp
qed

definition leaving_client :: "ret list ftp" where
  "leaving_client = one_client\<lparr>world := [answer 25, answer 0]\<rparr>"

lemma leaving_client_runs: "\<exists>t. client_thread script_env (\<lambda>_ s. Some s) 64 leaving_client = Some t"
  by (simp add: client_thread_def client_loop.simps client_turn_def leaving_client_def one_client_def script_ftp_def
      script_syscall exec_def client_send_ctrl_msg_def client_exit_def client_list_delete_def client_unlink_def
      client_set_def lock_list_def unlock_list_def write_back_def free_client_def close_socket_def idle_client_def
      client_close_data_connection_def answer_def Let_def)

theorem client_thread_cleans_up_witness:
  "\<exists>t. client_thread script_env (\<lambda>_ s. Some s) 64 leaving_client = Some t \<and> registry t [] \<and> client_heap t 64 = None \<and>
     balance (trace t) (Sock 7) = - 1 \<and> balance (trace t) (Thread 1) = - 1"
proof -
  obtain t where t: "client_thread script_env (\<lambda>_ s. Some s) 64 leaving_client = Some t" using leaving_client_runs by blast
  have "registry leaving_client [64]" using one_client_registry by (simp add: leaving_client_def registry_def)
  moreover have "custom_ok script_env (\<lambda>_ s. Some s)"
    by (simp add: custom_ok_def may_end_def ends_def command_post_def)
  moreover have "client_heap leaving_client 64 = Some idle_client" by (simp add: leaving_client_def one_client_def)
  ultimately show ?thesis
    using client_thread_cleans_up [OF _ _ _ idle_client_ok _ _ t, of "[64]"] t
    by (auto simp: owned_def held_def holds_def idle_client_def leaving_client_def one_client_def)
qed

end
