(* ===== verification/Interlock.thy ===== *)
theory Interlock
  imports Ftp_Server
begin

text \<open>
  The interlock between file transfers, new clients and a reboot, at the granularity of the atomic
  accesses of \<^verbatim>\<open>ftpvita.c\<close>. Any number of client threads begin and end transfers
  (\<open>client_begin_transfer\<close>, \<open>client_end_transfer\<close>) and take themselves off the list (\<open>client_list_delete\<close>); the
  server thread registers clients (\<open>client_list_add\<close>); the command thread prepares a reboot and withdraws it
  (\<open>ftpvita_prepare_for_reboot\<close>, \<open>ftpvita_cancel_reboot\<close>). Every read, compare-and-swap, release, lock and unlock is
  a step of its own, and the steps of different threads interleave freely. The flags have the types of
  the source; \<open>number_clients\<close> is a natural number, as it never leaves the range from 0 to the limit.
\<close>

section \<open>Threads and shared variables\<close>

text \<open>Where a client thread is in \<open>client_begin_transfer\<close>; \<open>T_Active\<close> is inside a transfer.\<close>

datatype transfer_pc = T_Idle | T_Swap | T_Recheck | T_Backout | T_Active

text \<open>Where the server thread is in \<open>client_list_add\<close>, and a client thread in \<open>client_list_delete\<close>.\<close>

datatype add_pc = A_Idle | A_Check | A_Insert | A_Unlock

datatype delete_pc = D_Idle | D_Remove | D_Unlock

text \<open>Where the command thread is in \<open>ftpvita_prepare_for_reboot\<close>; at \<open>R_Reboot\<close> the function has returned 1.\<close>

datatype reboot_pc =
  R_Idle | R_Lock | R_Abandon | R_Clients | R_Transfer nat | R_Release | R_Unlock bool | R_Reboot

datatype owner = Server | Client nat | Rebooter

record interlock =
  active :: i32
  quiesce :: i32
  clients :: nat
  mutex :: "owner option"
  tpc :: "nat \<Rightarrow> transfer_pc"
  apc :: add_pc
  dpc :: "nat \<Rightarrow> delete_pc"
  rpc :: reboot_pc

definition interlock_init :: "interlock \<Rightarrow> bool" where
  "interlock_init s \<longleftrightarrow> active s = 0 \<and> quiesce s = 0 \<and> mutex s = None \<and> tpc s = (\<lambda>_. T_Idle) \<and> apc s = A_Idle \<and>
     dpc s = (\<lambda>_. D_Idle) \<and> rpc s = R_Idle"

abbreviation at_tpc :: "nat \<Rightarrow> transfer_pc \<Rightarrow> interlock \<Rightarrow> interlock" where
  "at_tpc i l s \<equiv> s\<lparr>tpc := (tpc s)(i := l)\<rparr>"

abbreviation at_dpc :: "nat \<Rightarrow> delete_pc \<Rightarrow> interlock \<Rightarrow> interlock" where
  "at_dpc i l s \<equiv> s\<lparr>dpc := (dpc s)(i := l)\<rparr>"

section \<open>Steps\<close>

text \<open>Thread \<open>i\<close> in \<open>client_begin_transfer\<close> and \<open>client_end_transfer\<close>.\<close>

inductive transfer_step :: "nat \<Rightarrow> interlock \<Rightarrow> interlock \<Rightarrow> bool" for i where
  refused: "tpc s i = T_Idle \<Longrightarrow> quiesce s \<noteq> 0 \<Longrightarrow> transfer_step i s s"
| allowed: "tpc s i = T_Idle \<Longrightarrow> quiesce s = 0 \<Longrightarrow> transfer_step i s (at_tpc i T_Swap s)"
| busy: "tpc s i = T_Swap \<Longrightarrow> active s \<noteq> 0 \<Longrightarrow> transfer_step i s (at_tpc i T_Idle s)"
| swapped: "tpc s i = T_Swap \<Longrightarrow> active s = 0 \<Longrightarrow> transfer_step i s (at_tpc i T_Recheck s\<lparr>active := 1\<rparr>)"
| too_late: "tpc s i = T_Recheck \<Longrightarrow> quiesce s \<noteq> 0 \<Longrightarrow> transfer_step i s (at_tpc i T_Backout s)"
| begun: "tpc s i = T_Recheck \<Longrightarrow> quiesce s = 0 \<Longrightarrow> transfer_step i s (at_tpc i T_Active s)"
| backout: "tpc s i = T_Backout \<Longrightarrow> transfer_step i s (at_tpc i T_Idle s\<lparr>active := 0\<rparr>)"
| ended: "tpc s i = T_Active \<Longrightarrow> transfer_step i s (at_tpc i T_Idle s\<lparr>active := 0\<rparr>)"

text \<open>The server thread in \<open>client_list_add\<close>.\<close>

inductive add_step :: "interlock \<Rightarrow> interlock \<Rightarrow> bool" where
  add_lock: "apc s = A_Idle \<Longrightarrow> mutex s = None \<Longrightarrow> add_step s (s\<lparr>apc := A_Check, mutex := Some Server\<rparr>)"
| add_refused: "apc s = A_Check \<Longrightarrow> quiesce s \<noteq> 0 \<or> MAX_CLIENTS \<le> clients s \<Longrightarrow> add_step s (s\<lparr>apc := A_Unlock\<rparr>)"
| add_allowed: "apc s = A_Check \<Longrightarrow> quiesce s = 0 \<Longrightarrow> clients s < MAX_CLIENTS \<Longrightarrow> add_step s (s\<lparr>apc := A_Insert\<rparr>)"
| add_insert: "apc s = A_Insert \<Longrightarrow> add_step s (s\<lparr>apc := A_Unlock, clients := clients s + 1\<rparr>)"
| add_unlock: "apc s = A_Unlock \<Longrightarrow> add_step s (s\<lparr>apc := A_Idle, mutex := None\<rparr>)"

text \<open>Client thread \<open>i\<close> in \<open>client_list_delete\<close>.\<close>

inductive delete_step :: "nat \<Rightarrow> interlock \<Rightarrow> interlock \<Rightarrow> bool" for i where
  delete_lock: "dpc s i = D_Idle \<Longrightarrow> mutex s = None \<Longrightarrow> delete_step i s (at_dpc i D_Remove s\<lparr>mutex := Some (Client i)\<rparr>)"
| delete_remove: "dpc s i = D_Remove \<Longrightarrow> delete_step i s (at_dpc i D_Unlock s\<lparr>clients := clients s - 1\<rparr>)"
| delete_unlock: "dpc s i = D_Unlock \<Longrightarrow> delete_step i s (at_dpc i D_Idle s\<lparr>mutex := None\<rparr>)"

text \<open>The command thread in \<open>ftpvita_prepare_for_reboot\<close> and \<open>ftpvita_cancel_reboot\<close>. Taking the mutex may fail.\<close>

inductive reboot_step :: "interlock \<Rightarrow> interlock \<Rightarrow> bool" where
  already: "rpc s = R_Idle \<Longrightarrow> quiesce s \<noteq> 0 \<Longrightarrow> reboot_step s s"
| guard: "rpc s = R_Idle \<Longrightarrow> quiesce s = 0 \<Longrightarrow> reboot_step s (s\<lparr>rpc := R_Lock, quiesce := 1\<rparr>)"
| lock_failed: "rpc s = R_Lock \<Longrightarrow> reboot_step s (s\<lparr>rpc := R_Abandon\<rparr>)"
| abandon: "rpc s = R_Abandon \<Longrightarrow> reboot_step s (s\<lparr>rpc := R_Idle, quiesce := 0\<rparr>)"
| locked: "rpc s = R_Lock \<Longrightarrow> mutex s = None \<Longrightarrow> reboot_step s (s\<lparr>rpc := R_Clients, mutex := Some Rebooter\<rparr>)"
| read_clients: "rpc s = R_Clients \<Longrightarrow> reboot_step s (s\<lparr>rpc := R_Transfer (clients s)\<rparr>)"
| quiescent: "rpc s = R_Transfer 0 \<Longrightarrow> active s = 0 \<Longrightarrow> reboot_step s (s\<lparr>rpc := R_Unlock True\<rparr>)"
| not_quiescent: "rpc s = R_Transfer n \<Longrightarrow> n \<noteq> 0 \<or> active s \<noteq> 0 \<Longrightarrow> reboot_step s (s\<lparr>rpc := R_Release\<rparr>)"
| release: "rpc s = R_Release \<Longrightarrow> reboot_step s (s\<lparr>rpc := R_Unlock False, quiesce := 0\<rparr>)"
| unlock: "rpc s = R_Unlock b \<Longrightarrow> reboot_step s (s\<lparr>rpc := (if b then R_Reboot else R_Idle), mutex := None\<rparr>)"
| cancelled: "rpc s = R_Reboot \<Longrightarrow> reboot_step s (s\<lparr>rpc := R_Idle, quiesce := 0\<rparr>)"

inductive interlock_step :: "interlock \<Rightarrow> interlock \<Rightarrow> bool" where
  transfer: "transfer_step i s t \<Longrightarrow> interlock_step s t"
| add: "add_step s t \<Longrightarrow> interlock_step s t"
| delete: "delete_step i s t \<Longrightarrow> interlock_step s t"
| reboot: "reboot_step s t \<Longrightarrow> interlock_step s t"

section \<open>The invariant\<close>

text \<open>The slot is taken exactly while some thread is between its swap and its release, and by one thread only.\<close>

definition holds_slot :: "transfer_pc \<Rightarrow> bool" where
  "holds_slot l \<longleftrightarrow> l \<in> {T_Recheck, T_Backout, T_Active}"

definition slot_holders :: "interlock \<Rightarrow> nat set" where
  "slot_holders s = {i. holds_slot (tpc s i)}"

definition slot_inv :: "interlock \<Rightarrow> bool" where
  "slot_inv s \<longleftrightarrow> (if active s = 0 then slot_holders s = {} else \<exists>i. slot_holders s = {i})"

text \<open>The mutex is held by the thread that is inside a critical section.\<close>

definition mutex_inv :: "interlock \<Rightarrow> bool" where
  "mutex_inv s \<longleftrightarrow> (apc s \<noteq> A_Idle \<longleftrightarrow> mutex s = Some Server) \<and> (\<forall>i. dpc s i \<noteq> D_Idle \<longleftrightarrow> mutex s = Some (Client i)) \<and>
     (rpc s \<in> {R_Clients, R_Release} \<union> range R_Transfer \<union> range R_Unlock \<longleftrightarrow> mutex s = Some Rebooter)"

text \<open>The guard is up while a reboot is prepared, and once the counts have been found to be zero they stay zero.\<close>

definition guard_inv :: "interlock \<Rightarrow> bool" where
  "guard_inv s \<longleftrightarrow> (rpc s \<notin> {R_Idle, R_Unlock False} \<longleftrightarrow> quiesce s \<noteq> 0) \<and>
     (\<forall>n. rpc s = R_Transfer n \<longrightarrow> clients s = n) \<and>
     (rpc s \<in> {R_Unlock True, R_Reboot} \<longrightarrow> clients s = 0 \<and> apc s \<noteq> A_Insert \<and> (\<forall>i. tpc s i \<noteq> T_Active)) \<and>
     clients s \<le> MAX_CLIENTS \<and> (apc s = A_Insert \<longrightarrow> clients s < MAX_CLIENTS)"

lemma slot_holders_simps [simp]:
  "slot_holders (s\<lparr>active := n\<rparr>) = slot_holders s" "slot_holders (s\<lparr>apc := a\<rparr>) = slot_holders s"
  "slot_holders (s\<lparr>mutex := m\<rparr>) = slot_holders s" "slot_holders (s\<lparr>clients := c\<rparr>) = slot_holders s"
  "slot_holders (s\<lparr>dpc := d\<rparr>) = slot_holders s" "slot_holders (s\<lparr>rpc := r\<rparr>) = slot_holders s"
  "slot_holders (s\<lparr>quiesce := q\<rparr>) = slot_holders s"
  "slot_holders (at_tpc i l s) = (if holds_slot l then insert i (slot_holders s) else slot_holders s - {i})"
  by (auto simp: slot_holders_def)

lemma slot_holders_member: "tpc s i = l \<Longrightarrow> i \<in> slot_holders s \<longleftrightarrow> holds_slot l"
  by (simp add: slot_holders_def)

lemma transfer_step_inv:
  assumes "transfer_step i s t" and "slot_inv s" and "mutex_inv s" and "guard_inv s"
  shows "slot_inv t \<and> mutex_inv t \<and> guard_inv t"
proof (intro conjI)
  show "mutex_inv t" using assms(1,3) by cases (simp_all add: mutex_inv_def)
  show "guard_inv t" using assms(1,4) by cases (auto simp: guard_inv_def)
  show "slot_inv t" using assms(1)
  proof cases
    case backout
    then have "i \<in> slot_holders s" by (simp add: slot_holders_def holds_slot_def)
    then have "slot_holders s = {i}" using assms(2) by (auto simp: slot_inv_def split: if_splits)
    with backout show ?thesis by (simp add: slot_inv_def holds_slot_def)
  next
    case ended
    then have "i \<in> slot_holders s" by (simp add: slot_holders_def holds_slot_def)
    then have "slot_holders s = {i}" using assms(2) by (auto simp: slot_inv_def split: if_splits)
    with ended show ?thesis by (simp add: slot_inv_def holds_slot_def)
  qed (use assms(2) in \<open>auto simp: slot_inv_def holds_slot_def dest!: slot_holders_member\<close>)
qed

lemma add_step_inv:
  assumes "add_step s t" and "slot_inv s" and "mutex_inv s" and "guard_inv s"
  shows "slot_inv t \<and> mutex_inv t \<and> guard_inv t"
proof (intro conjI)
  show "slot_inv t" using assms(1,2) by cases (simp_all add: slot_inv_def)
  show "mutex_inv t" using assms(1,3) by cases (auto simp: mutex_inv_def)
  show "guard_inv t" using assms(1,3,4) by cases (auto simp: guard_inv_def mutex_inv_def)
qed

lemma delete_step_inv:
  assumes "delete_step i s t" and "slot_inv s" and "mutex_inv s" and "guard_inv s"
  shows "slot_inv t \<and> mutex_inv t \<and> guard_inv t"
proof (intro conjI)
  show "slot_inv t" using assms(1,2) by cases (simp_all add: slot_inv_def)
  have M: "apc s \<noteq> A_Idle \<longleftrightarrow> mutex s = Some Server" "\<And>j. dpc s j \<noteq> D_Idle \<longleftrightarrow> mutex s = Some (Client j)"
    "rpc s \<in> {R_Clients, R_Release} \<union> range R_Transfer \<union> range R_Unlock \<longleftrightarrow> mutex s = Some Rebooter"
    using assms(3) unfolding mutex_inv_def by blast+
  show "mutex_inv t" using assms(1)
  proof cases
    case delete_lock
    with M show ?thesis by (simp add: mutex_inv_def)
  next
    case delete_remove
    with M(2) [of i] have "mutex s = Some (Client i)" by simp
    with delete_remove M show ?thesis by (simp add: mutex_inv_def)
  next
    case delete_unlock
    with M(2) [of i] have "mutex s = Some (Client i)" by simp
    then have "dpc s j = D_Idle" if "j \<noteq> i" for j using M(2) [of j] that by auto
    with delete_unlock M \<open>mutex s = Some (Client i)\<close> show ?thesis by (simp add: mutex_inv_def)
  qed
  show "guard_inv t" using assms(1)
  proof cases
    case delete_remove
    then have "rpc s \<noteq> R_Transfer n" for n using M(2) [of i] M(3) by auto
    with delete_remove assms(4) show ?thesis by (auto simp: guard_inv_def)
  qed (use assms(4) in \<open>simp_all add: guard_inv_def\<close>)
qed

lemma reboot_step_inv:
  assumes "reboot_step s t" and "slot_inv s" and "mutex_inv s" and "guard_inv s"
  shows "slot_inv t \<and> mutex_inv t \<and> guard_inv t"
proof (intro conjI)
  show "slot_inv t" using assms(1,2) by cases (simp_all add: slot_inv_def)
  show "mutex_inv t" using assms(1,3) by cases (auto simp: mutex_inv_def)
  show "guard_inv t" using assms(1)
  proof cases
    case quiescent
    have "slot_holders s = {}" using quiescent assms(2) by (simp add: slot_inv_def)
    then have "tpc s i \<noteq> T_Active" for i by (auto simp: slot_holders_def holds_slot_def)
    moreover have "mutex s = Some Rebooter" using quiescent assms(3) by (auto simp: mutex_inv_def)
    then have "apc s = A_Idle" using assms(3) by (auto simp: mutex_inv_def)
    ultimately show ?thesis using quiescent assms(4) by (simp add: guard_inv_def)
  qed (use assms(4) in \<open>auto simp: guard_inv_def\<close>)
qed

lemma interlock_inv:
  assumes "interlock_step\<^sup>*\<^sup>* s t" and "interlock_init s" and "clients s \<le> MAX_CLIENTS"
  shows "slot_inv t \<and> mutex_inv t \<and> guard_inv t"
  using assms(1)
proof induction
  case base
  show ?case using assms(2,3)
    by (auto simp: interlock_init_def slot_inv_def slot_holders_def holds_slot_def mutex_inv_def guard_inv_def)
next
  case (step t u)
  then show ?case by (auto elim!: interlock_step.cases dest: transfer_step_inv add_step_inv delete_step_inv reboot_step_inv)
qed

section \<open>Undisturbed runs\<close>

text \<open>
  A thread that is not interrupted computes what the sequential definitions of the same functions say: the
  flags of the server's state are the shared variables here.
\<close>

definition flags_of :: "'w ftp \<Rightarrow> interlock \<Rightarrow> bool" where
  "flags_of f s \<longleftrightarrow> active s = transfer_active f \<and> quiesce s = reboot_quiesce_requested f"

text \<open>The steps of thread \<open>i\<close> inside \<open>client_begin_transfer\<close>.\<close>

definition begin_step :: "nat \<Rightarrow> interlock \<Rightarrow> interlock \<Rightarrow> bool" where
  "begin_step i s t \<longleftrightarrow> transfer_step i s t \<and> tpc s i \<noteq> T_Active"

text \<open>Where the function may be when it runs alone from \<open>s\<close>.\<close>

definition begin_states :: "nat \<Rightarrow> interlock \<Rightarrow> interlock set" where
  "begin_states i s = (if quiesce s \<noteq> 0 then {s} else if active s \<noteq> 0 then {s, at_tpc i T_Swap s}
     else {s, at_tpc i T_Swap s, at_tpc i T_Recheck s\<lparr>active := 1\<rparr>, at_tpc i T_Active s\<lparr>active := 1\<rparr>})"

lemma begin_step_states:
  assumes "begin_step i t u" and "tpc s i = T_Idle" and "t \<in> begin_states i s"
  shows "u \<in> begin_states i s \<and> (quiesce s = 0 \<and> active s = 0 \<longrightarrow> tpc u i \<noteq> T_Idle)"
proof -
  have "transfer_step i t u" "tpc t i \<noteq> T_Active" using assms(1) by (simp_all add: begin_step_def)
  then show ?thesis using assms(2,3)
    by (cases rule: transfer_step.cases) (auto simp: begin_states_def fun_upd_idem_iff split: if_splits)
qed

lemma begin_run_states:
  assumes "(begin_step i)\<^sup>+\<^sup>+ s t" and "tpc s i = T_Idle"
  shows "t \<in> begin_states i s \<and> (quiesce s = 0 \<and> active s = 0 \<longrightarrow> tpc t i \<noteq> T_Idle)"
  using assms(1)
proof induction
  case (base t)
  have "s \<in> begin_states i s" by (simp add: begin_states_def)
  then show ?case by (rule begin_step_states [OF base assms(2)])
next
  case (step t u)
  then show ?case using begin_step_states [OF step(2) assms(2)] by blast
qed

lemma begin_run_result:
  assumes "flags_of f s" and "tpc s i = T_Idle" and "client_begin_transfer f = (ok, f')"
    and "(begin_step i)\<^sup>+\<^sup>+ s t" and "tpc t i \<in> {T_Idle, T_Active}"
  shows "flags_of f' t \<and> (tpc t i = T_Active \<longleftrightarrow> ok)"
  using begin_run_states [OF assms(4,2)] assms
  by (auto simp: begin_states_def flags_of_def client_begin_transfer_eq split: if_splits)

lemma begin_run_exists:
  assumes "tpc s i = T_Idle"
  shows "\<exists>t. (begin_step i)\<^sup>+\<^sup>+ s t \<and> tpc t i \<in> {T_Idle, T_Active}"
proof -
  let ?s1 = "at_tpc i T_Swap s"
  let ?s2 = "at_tpc i T_Recheck ?s1\<lparr>active := 1\<rparr>"
  have first: "begin_step i s (if quiesce s = 0 then ?s1 else s)"
    using assms by (auto simp: begin_step_def intro: transfer_step.intros)
  have second: "begin_step i ?s1 (if active s = 0 then ?s2 else at_tpc i T_Idle ?s1)"
    using transfer_step.busy [of ?s1 i] transfer_step.swapped [of ?s1 i] by (simp add: begin_step_def)
  have third: "quiesce s = 0 \<Longrightarrow> begin_step i ?s2 (at_tpc i T_Active ?s2)"
    using transfer_step.begun [of ?s2 i] by (simp add: begin_step_def)
  consider "quiesce s \<noteq> 0" | "quiesce s = 0" "active s \<noteq> 0" | "quiesce s = 0" "active s = 0" by blast
  then show ?thesis
  proof cases
    case 1
    then have "(begin_step i)\<^sup>+\<^sup>+ s s" using first by auto
    with assms show ?thesis by auto
  next
    case 2
    then have "(begin_step i)\<^sup>+\<^sup>+ s (at_tpc i T_Idle ?s1)" using first second
      by (auto intro: tranclp.trancl_into_trancl)
    then show ?thesis by (intro exI conjI) (assumption, simp)
  next
    case 3
    then have "(begin_step i)\<^sup>+\<^sup>+ s ?s2" using first second by (auto intro: tranclp.trancl_into_trancl)
    then have "(begin_step i)\<^sup>+\<^sup>+ s (at_tpc i T_Active ?s2)"
      using third [OF 3(1)] by (rule tranclp.trancl_into_trancl)
    then show ?thesis by (intro exI conjI) (assumption, simp)
  qed
qed

section \<open>Properties\<close>


definition quiet_machine :: interlock where
  "quiet_machine = \<lparr>active = 0, quiesce = 0, clients = 0, mutex = None, tpc = (\<lambda>_. T_Idle), apc = A_Idle,
     dpc = (\<lambda>_. D_Idle), rpc = R_Idle\<rparr>"

text \<open>A reboot is prepared on a quiet machine; a transfer that was allowed just before has to back out.\<close>

lemma reboot_run:
  "\<exists>t. interlock_step\<^sup>*\<^sup>* quiet_machine t \<and> rpc t = R_Reboot \<and> tpc t 3 = T_Swap"
proof -
  let ?s1 = "at_tpc 3 T_Swap quiet_machine"
  let ?s2 = "?s1\<lparr>rpc := R_Lock, quiesce := 1\<rparr>"
  let ?s3 = "?s2\<lparr>rpc := R_Clients, mutex := Some Rebooter\<rparr>"
  let ?s4 = "?s3\<lparr>rpc := R_Transfer 0\<rparr>"
  let ?s5 = "?s4\<lparr>rpc := R_Unlock True\<rparr>"
  let ?s6 = "?s5\<lparr>rpc := R_Reboot, mutex := None\<rparr>"
  note steps = transfer [OF transfer_step.allowed, of quiet_machine 3] reboot [OF reboot_step.guard, of ?s1]
    reboot [OF reboot_step.locked, of ?s2] reboot [OF reboot_step.read_clients, of ?s3]
    reboot [OF reboot_step.quiescent, of ?s4] reboot [OF reboot_step.unlock, of ?s5 True]
  have "interlock_step quiet_machine ?s1" "interlock_step ?s1 ?s2" "interlock_step ?s2 ?s3" "interlock_step ?s3 ?s4"
    "interlock_step ?s4 ?s5" "interlock_step ?s5 ?s6"
    using steps by (simp_all add: quiet_machine_def)
  then have "interlock_step\<^sup>*\<^sup>* quiet_machine ?s6" by (meson converse_rtranclp_into_rtranclp rtranclp.rtrancl_refl)
  moreover have "rpc ?s6 = R_Reboot \<and> tpc ?s6 3 = T_Swap" by simp
  ultimately show ?thesis by blast
qed




end
