(* ===== verification/Termination.thy ===== *)
theory Termination
  imports Sys "HOL-Library.Monad_Syntax"
begin

text \<open>
  When code that reads from the system ends. \<open>finite_input\<close> states what that takes: a bound \<open>left\<close> on what the world still
  has to give, that falls with each successful read from a socket or a directory and with each step of the
  decompressor. The predicates \<open>within\<close>, \<open>returns\<close>, \<open>pair_within\<close> and \<open>pair_returns\<close> follow that bound through the
  control flow of an operation.
\<close>

section \<open>Finite input\<close>

fun uses_up :: "call \<Rightarrow> ret \<Rightarrow> bool" where
  "uses_up (Net (sceNetRecv fd n)) r = (0 < sint (rc r))"
| "uses_up (Io (sceIoDread fd)) r = (0 < sint (rc r))"
| "uses_up (Zlib (inflate bs n)) r = (rc r = 0)"
| "uses_up _ r = False"

lemma uses_up_code: "uses_up c r \<Longrightarrow> rc r \<noteq> - 1"
  by (induction c r rule: uses_up.induct) auto

definition finite_input :: "'w env \<Rightarrow> ('w \<Rightarrow> nat) \<Rightarrow> bool" where
  "finite_input E left \<longleftrightarrow> (\<forall>c w. left (snd (sys E c w)) \<le> left w \<and>
     (uses_up c (fst (sys E c w)) \<longrightarrow> left (snd (sys E c w)) < left w))"

section \<open>Steps\<close>

definition within :: "('w \<Rightarrow> nat) \<Rightarrow> nat \<Rightarrow> ('w, 'z) sysst_scheme \<Rightarrow> bool" where
  "within left n s \<longleftrightarrow> left (world s) \<le> n"

definition returns :: "('w \<Rightarrow> nat) \<Rightarrow> nat \<Rightarrow> ('w, 'z) sysst_scheme option \<Rightarrow> bool" where
  "returns left n m \<longleftrightarrow> (\<exists>t. m = Some t \<and> within left n t)"

text \<open>The same for a step with a result.\<close>

definition pair_within :: "('w \<Rightarrow> nat) \<Rightarrow> nat \<Rightarrow> 'r \<times> ('w, 'z) sysst_scheme \<Rightarrow> bool" where
  "pair_within left n m \<longleftrightarrow> within left n (snd m)"

definition pair_returns :: "('w \<Rightarrow> nat) \<Rightarrow> nat \<Rightarrow> ('r \<times> ('w, 'z) sysst_scheme) option \<Rightarrow> bool" where
  "pair_returns left n m \<longleftrightarrow> (\<exists>r t. m = Some (r, t) \<and> within left n t)"

named_theorems stays \<open>operations that return a state and read nothing more\<close>
named_theorems stay_pulls \<open>operations that return a result and a state and read nothing more\<close>
named_theorems halts \<open>operations that may read and return\<close>

lemma within_refl: "within left (left (world s)) s"
  by (simp add: within_def)

lemma within_mono: "within left m s \<Longrightarrow> m \<le> n \<Longrightarrow> within left n s"
  by (simp add: within_def)

lemma within_call [stay_pulls]: "finite_input E left \<Longrightarrow> syscall E c s = (r, t) \<Longrightarrow> within left n s \<Longrightarrow> within left n t"
  by (auto simp: finite_input_def within_def syscall_def split: prod.splits dest!: spec [of _ c] spec [of _ "world s"])

lemma input_falls:
  assumes "finite_input E left" and "syscall E c s = (r, t)" and "uses_up c r"
  shows "left (world t) < left (world s)"
  using assms by (auto simp: finite_input_def syscall_def split: prod.splits dest!: spec [of _ c] spec [of _ "world s"])

lemma pair_withinD: "pair_within left n m \<Longrightarrow> m = (r, t) \<Longrightarrow> within left n t"
  by (simp add: pair_within_def)

lemma pair_withinI: "within left n t \<Longrightarrow> pair_within left n (r, t)"
  by (simp add: pair_within_def)

lemma pair_returnsD: "pair_returns left n m \<Longrightarrow> \<exists>r t. m = Some (r, t) \<and> within left n t"
  by (simp add: pair_returns_def)

lemma pair_returnsI: "within left n t \<Longrightarrow> pair_returns left n (Some (r, t))"
  by (simp add: pair_returns_def)

lemma pair_returns_Some: "pair_within left n m \<Longrightarrow> pair_returns left n (Some m)"
  by (cases m) (simp add: pair_within_def pair_returns_def)

lemma returns_Some: "within left n t \<Longrightarrow> returns left n (Some t)"
  by (simp add: returns_def)

lemma pair_returns_mono: "pair_returns left m y \<Longrightarrow> m \<le> n \<Longrightarrow> pair_returns left n y"
  by (auto simp: pair_returns_def intro: within_mono)

section \<open>Control flow\<close>

lemma stays_split:
  "(\<And>r u. m = (r, u) \<Longrightarrow> within left n (f r u)) \<Longrightarrow> within left n (case m of (r, u) \<Rightarrow> f r u)"
  "within left n (g y) \<Longrightarrow> within left n (let v = y in g v)"
  "(b \<Longrightarrow> within left n t) \<Longrightarrow> (\<not> b \<Longrightarrow> within left n u) \<Longrightarrow> within left n (if b then t else u)"
  "(x = None \<Longrightarrow> within left n t) \<Longrightarrow> (\<And>v. x = Some v \<Longrightarrow> within left n (h v)) \<Longrightarrow> within left n (case x of None \<Rightarrow> t | Some v \<Rightarrow> h v)"
  by (auto split: prod.splits option.splits)

lemma returns_split:
  "(\<And>r u. m = (r, u) \<Longrightarrow> returns left n (f r u)) \<Longrightarrow> returns left n (case m of (r, u) \<Rightarrow> f r u)"
  "returns left n (g y) \<Longrightarrow> returns left n (let v = y in g v)"
  "(b \<Longrightarrow> returns left n p) \<Longrightarrow> (\<not> b \<Longrightarrow> returns left n q) \<Longrightarrow> returns left n (if b then p else q)"
  "(x = None \<Longrightarrow> returns left n p) \<Longrightarrow> (\<And>v. x = Some v \<Longrightarrow> returns left n (h v)) \<Longrightarrow> returns left n (case x of None \<Rightarrow> p | Some v \<Rightarrow> h v)"
  by (auto split: prod.splits option.splits)

lemma pair_within_split:
  "(\<And>r u. m = (r, u) \<Longrightarrow> pair_within left n (f r u)) \<Longrightarrow> pair_within left n (case m of (r, u) \<Rightarrow> f r u)"
  "pair_within left n (g y) \<Longrightarrow> pair_within left n (let v = y in g v)"
  "(b \<Longrightarrow> pair_within left n p) \<Longrightarrow> (\<not> b \<Longrightarrow> pair_within left n q) \<Longrightarrow> pair_within left n (if b then p else q)"
  by (auto split: prod.splits)

lemma pair_returns_split:
  "(\<And>r u. m = (r, u) \<Longrightarrow> pair_returns left n (f r u)) \<Longrightarrow> pair_returns left n (case m of (r, u) \<Rightarrow> f r u)"
  "(\<And>r u. m = (r, u) \<Longrightarrow> pair_returns left n (f' r u z)) \<Longrightarrow> pair_returns left n ((case m of (r, u) \<Rightarrow> f' r u) z)"
  "pair_returns left n (g y) \<Longrightarrow> pair_returns left n (let v = y in g v)"
  "(b \<Longrightarrow> pair_returns left n p) \<Longrightarrow> (\<not> b \<Longrightarrow> pair_returns left n q) \<Longrightarrow> pair_returns left n (if b then p else q)"
  "(x = None \<Longrightarrow> pair_returns left n p) \<Longrightarrow> (\<And>v. x = Some v \<Longrightarrow> pair_returns left n (h v)) \<Longrightarrow>
     pair_returns left n (case x of None \<Rightarrow> p | Some v \<Rightarrow> h v)"
  "(\<And>v. y' = Inl v \<Longrightarrow> pair_returns left n (k v)) \<Longrightarrow> (\<And>v. y' = Inr v \<Longrightarrow> pair_returns left n (l v)) \<Longrightarrow>
     pair_returns left n (case y' of Inl v \<Rightarrow> k v | Inr v \<Rightarrow> l v)"
  by (auto split: prod.splits option.splits sum.splits)

lemmas stays_rules = stays_split returns_split pair_within_split pair_returns_split returns_Some pair_withinI pair_returnsI

text \<open>A step, and then the rest; and a computation without a state, which has to be defined.\<close>

lemma returns_case:
  "pair_returns left n m \<Longrightarrow> (\<And>r t. m = Some (r, t) \<Longrightarrow> within left n t \<Longrightarrow> returns left n (f r t)) \<Longrightarrow>
   returns left n (case m of None \<Rightarrow> None | Some (r, t) \<Rightarrow> f r t)"
  by (auto simp: pair_returns_def)

lemma pair_returns_bind:
  "pair_returns left n m \<Longrightarrow> (\<And>r t. m = Some (r, t) \<Longrightarrow> within left n t \<Longrightarrow> pair_returns left n (f r t)) \<Longrightarrow>
   pair_returns left n (m \<bind> (\<lambda>(r, t). f r t))"
  by (auto simp: pair_returns_def)

lemma pair_returns_pure:
  "\<exists>v. x = Some v \<Longrightarrow> (\<And>v. x = Some v \<Longrightarrow> pair_returns left n (f v)) \<Longrightarrow> pair_returns left n (x \<bind> f)"
  by auto

end
