(* ===== verification/Ftp_Termination.thy ===== *)
theory Ftp_Termination
  imports Ftp_Server Termination
begin

text \<open>
  When the thread of an FTP client ends. Its loops read requests, uploads and directories, so they end when the input
  does. Under that hypothesis every command returns (so none of them follows a null pointer either), the session
  ends, and so does the thread.
\<close>

section \<open>What is relied on\<close>

text \<open>A null path names no file.\<close>

definition null_path_fails :: "'w env \<Rightarrow> bool" where
  "null_path_fails E \<longleftrightarrow> (\<forall>w. neg (rc (fst (sys E (Io (sceIoGetstat None)) w))))"

definition custom_returns :: "('w \<Rightarrow> nat) \<Rightarrow> (u32 \<Rightarrow> 'w ftp \<Rightarrow> 'w ftp option) \<Rightarrow> bool" where
  "custom_returns left custom \<longleftrightarrow> (\<forall>f s. \<exists>t. custom f s = Some t \<and> left (world t) \<le> left (world s))"

definition lasting :: "'w env \<Rightarrow> ('w \<Rightarrow> nat) \<Rightarrow> bool" where
  "lasting E left \<longleftrightarrow> finite_input E left \<and> send_bounded E \<and> null_path_fails E"

lemma lasting_input: "lasting E left \<Longrightarrow> finite_input E left"
  by (simp add: lasting_def)

section \<open>Steps that read nothing more\<close>

lemma within_upd [simp]:
  "within left n (s\<lparr>cl := c\<rparr>) = within left n s" "within left n (s\<lparr>transfer_active := a\<rparr>) = within left n s"
  "within left n (s\<lparr>client_heap := h\<rparr>) = within left n s"
  "within left n (s\<lparr>socket_timeout_config_failures := k\<rparr>) = within left n s"
  by (simp_all add: within_def)

lemma within_syscall [stay_pulls]: "lasting E left \<Longrightarrow> syscall E c s = (r, t) \<Longrightarrow> within left n s \<Longrightarrow> within left n t"
  by (rule within_call [OF lasting_input])

lemma within_exec [stays]: "lasting E left \<Longrightarrow> within left n s \<Longrightarrow> within left n (exec E c s)"
  unfolding exec_def using within_syscall [of E left c s] by (cases "syscall E c s") simp

lemma stays_set_cl [stays]: "within left n s \<Longrightarrow> within left n (s\<lparr>cl := c\<rparr>)"
  by simp

lemma stays_transfer [stays]: "within left n s \<Longrightarrow> within left n (s\<lparr>transfer_active := a\<rparr>)"
  by simp

lemma stays_failures [stays]: "within left n s \<Longrightarrow> within left n (s\<lparr>socket_timeout_config_failures := a\<rparr>)"
  by simp

lemma stays_begin [stay_pulls]: "lasting E left \<Longrightarrow> client_begin_transfer s = (b, t) \<Longrightarrow> within left n s \<Longrightarrow> within left n t"
  by (auto simp: client_begin_transfer_eq split: if_splits)

lemma stays_end [stays]: "within left n s \<Longrightarrow> within left n (client_end_transfer s)"
  by (simp add: client_end_transfer_def)

lemma stays_ctrl [stays]: "lasting E left \<Longrightarrow> within left n s \<Longrightarrow> within left n (client_send_ctrl_msg E m s)"
  unfolding client_send_ctrl_msg_def by (rule within_exec)

lemma stays_close_socket [stay_pulls]: "lasting E left \<Longrightarrow> close_socket E fd s = (fd', t) \<Longrightarrow> within left n s \<Longrightarrow> within left n t"
  by (auto simp: close_socket_def within_exec split: if_splits)

lemma stays_configure:
  assumes "lasting E left" and "within left n s"
  shows "pair_within left n (configure_socket_io_timeout E fd s)"
  unfolding configure_socket_io_timeout_def
  by (rule stays_rules | (rule stay_pulls, rule assms(1), assumption) | rule stays assms)+

lemma stays_configured [stay_pulls]:
  "lasting E left \<Longrightarrow> configure_socket_io_timeout E fd s = (r, t) \<Longrightarrow> within left n s \<Longrightarrow> within left n t"
  by (rule pair_withinD [OF stays_configure])

lemma stays_close [stays]:
  assumes "lasting E left" and "within left n s"
  shows "within left n (client_close_data_connection E s)"
  unfolding client_close_data_connection_def
  by (rule stays_split | (rule stay_pulls, rule assms(1), assumption) | rule stays assms)+

lemma stays_open:
  assumes "lasting E left" and "within left n s"
  shows "pair_within left n (client_open_data_connection E s)"
  unfolding client_open_data_connection_def
  by (rule stays_rules | (rule stay_pulls, rule assms(1), assumption) | rule stays assms)+

lemma stays_opened [stay_pulls]:
  "lasting E left \<Longrightarrow> client_open_data_connection E s = (r, t) \<Longrightarrow> within left n s \<Longrightarrow> within left n t"
  by (rule pair_withinD [OF stays_open])

lemma stays_format:
  assumes "lasting E left" and "within left n s"
  shows "pair_within left n (gen_list_format E m d st f s)"
  unfolding gen_list_format_def
  by (rule stays_rules | (rule stay_pulls, rule assms(1), assumption) | rule stays assms)+

lemma stays_formatted [stay_pulls]:
  "lasting E left \<Longrightarrow> gen_list_format E m d st f s = (r, t) \<Longrightarrow> within left n s \<Longrightarrow> within left n t"
  by (rule pair_withinD [OF stays_format])

lemma stays_exists [stay_pulls]: "lasting E left \<Longrightarrow> file_exists E p s = (b, t) \<Longrightarrow> within left n s \<Longrightarrow> within left n t"
  by (auto simp: file_exists_def split: prod.splits intro: within_syscall)

lemma stays_dopen [stay_pulls]: "lasting E left \<Longrightarrow> list_dopen E b p s = (d, t) \<Longrightarrow> within left n s \<Longrightarrow> within left n t"
  by (auto simp: list_dopen_def split: prod.splits if_splits intro: within_syscall)

lemma stays_position [stay_pulls]: "lasting E left \<Longrightarrow> retr_position E fd r x s = (p, t) \<Longrightarrow> within left n s \<Longrightarrow> within left n t"
  by (auto simp: retr_position_def split: prod.splits if_splits intro: within_syscall)

text \<open>What the transfer loops relate: nothing more is left after them.\<close>

definition used :: "('w \<Rightarrow> nat) \<Rightarrow> 'w ftp \<Rightarrow> 'w ftp \<Rightarrow> bool" where
  "used left s t \<longleftrightarrow> left (world t) \<le> left (world s)"

lemma used_preorder: "reflp (used left)" "transp (used left)"
  by (auto intro!: reflpI transpI simp: used_def)

lemma used_syscall: "lasting E left \<Longrightarrow> syscall E c s = (r, t) \<Longrightarrow> used left s t"
  using within_syscall [of E left c s r t "left (world s)"] by (simp add: used_def within_def)

lemma stays_extent [stay_pulls]:
  assumes "lasting E left"
    and "ftpvita_retr_extent (Some (retr_read E io)) (Some (retr_send E io)) (Some b) m st ex s = (res, t)" and "within left n s"
  shows "within left n t"
proof -
  have "used left s t"
  proof (rule retr_extent_rel [OF used_preorder _ _ assms(2)])
    show "retr_read E io c b n = (r, b', c') \<Longrightarrow> used left c c'" for c b n r b' c'
      by (auto simp: retr_read_def split: prod.splits intro: used_syscall [OF assms(1)])
    show "retr_send E io c b n = (r, e, c') \<Longrightarrow> used left c c'" for c b n r e c'
      by (auto simp: retr_send_def split: prod.splits intro: used_syscall [OF assms(1)])
  qed
  with assms(3) show ?thesis by (simp add: used_def within_def)
qed

section \<open>The loops\<close>

lemma send_all_used:
  assumes "lasting E left" and "client_send_all E fd b n s = Some (r, t)"
  shows "used left s t"
proof -
  have "used left s (snd (r, t))" if "lasting E left"
    using that
  proof (rule client_send_all.raw_induct [where P = "\<lambda>E fd b n s y. lasting E left \<longrightarrow> used left s (snd y)", OF _ assms(2), THEN mp, rotated])
    fix f E fd b n s y
    assume IH: "\<And>E fd b n s y. f E fd b n s = Some y \<Longrightarrow> lasting E left \<longrightarrow> used left s (snd y)"
      and eq: "(if 0 < n then let (r, s) = syscall E (Net (sceNetSend fd (take (unat n) b))) s
         in if sint (rc r) \<le> 0 then Some (if neg (rc r) then rc r else - 1, s)
            else f E fd (drop (unat (rc r)) b) (n - rc r) s
       else Some (0, s)) = Some y"
    show "lasting E left \<longrightarrow> used left s (snd y)"
    proof
      assume l: "lasting E left"
      obtain r s' where call: "syscall E (Net (sceNetSend fd (take (unat n) b))) s = (r, s')" by fastforce
      have "used left s s'" using used_syscall [OF l call] .
      with eq call IH [of E fd "drop (unat (rc r)) b" "n - rc r" s' y] l show "used left s (snd y)"
        by (auto simp: used_def split: if_splits)
    qed
  qed
  with assms(1) show ?thesis by simp
qed

lemma data_msg_returns:
  assumes "lasting E left" and "within left n s" and "length m < 2 ^ 32"
  shows "pair_returns left n (client_send_data_msg E m s)"
proof -
  have bounded: "send_bounded E" using assms(1) by (simp add: lasting_def)
  have "length m = unat (word_of_nat (length m) :: u32)" using assms(3) by (simp add: unat_of_nat take_bit_nat_eq_self)
  from client_send_all_returns [OF bounded this, of "data_fd (cl s)" s] obtain r t
    where run: "client_send_all E (data_fd (cl s)) m (word_of_nat (length m)) s = Some (r, t)" by blast
  with send_all_used [OF assms(1) run] assms(2) show ?thesis
    by (simp add: pair_returns_def client_send_data_msg_def used_def within_def)
qed

lemma list_text_length: "gen_list_format E 512 d st f s = (m, t) \<Longrightarrow> length m < 2 ^ 32"
  by (auto simp: gen_list_format_def snprintf_def Let_def split: prod.splits)

text \<open>One line of a listing.\<close>

lemma list_line_returns:
  assumes "lasting E left" and "within left n s" and "gen_list_format E 512 d st f s = (m, t)"
  shows "\<exists>r u. client_send_data_msg E m t = Some (r, u) \<and> within left n u"
  using data_msg_returns [OF assms(1) stays_formatted [OF assms(1,3,2)] list_text_length [OF assms(3)]] by (simp add: pair_returns_def)

lemma list_devices_returns:
  assumes "lasting E left"
  shows "within left n s \<Longrightarrow> pair_returns left n (list_devices E ds s)"
proof (induction ds arbitrary: s)
  case Nil
  then show ?case by (simp add: pair_returnsI)
next
  case (Cons d ds)
  obtain r u where stat: "syscall E (Io (sceIoGetstat (Some (device_name d)))) s = (r, u)" by fastforce
  have u: "within left n u" using within_syscall [OF assms stat Cons.prems] .
  obtain m v where line: "gen_list_format E 512 True (stat r) (device_name d) u = (m, v)" by fastforce
  from list_line_returns [OF assms u line] Cons.IH u Cons.prems stat line show ?case
    by (auto simp: Let_def intro: pair_returnsI)
qed

lemma list_entries_returns:
  assumes "lasting E left"
  shows "within left n s \<Longrightarrow> pair_returns left n (list_entries E dir s)"
proof (induction "left (world s)" arbitrary: s rule: less_induct)
  case less
  obtain r u where read: "syscall E (Io (sceIoDread dir)) s = (r, u)" by fastforce
  have u: "within left n u" using within_syscall [OF assms read less.prems] .
  show ?case
  proof (cases "0 < sint (rc r)")
    case False
    with u read show ?thesis by (subst list_entries.simps) (simp add: pair_returnsI)
  next
    case True
    obtain m v where line: "gen_list_format E 512 (SCE_S_ISDIR E (st_mode (stat r))) (stat r) (d_name r) u = (m, v)" by fastforce
    from list_line_returns [OF assms within_refl line] obtain q w where w: "client_send_data_msg E m v = Some (q, w)"
      "left (world w) \<le> left (world u)" by (auto simp: within_def)
    have "left (world w) < left (world s)" using w(2) input_falls [OF lasting_input [OF assms] read] True by simp
    moreover have "within left n w" using w(2) u by (simp add: within_def)
    ultimately show ?thesis using less.hyps True read line w(1) by (subst list_entries.simps) (auto intro: pair_returnsI)
  qed
qed

lemma store_stream_returns:
  assumes "lasting E left" and "within left n s"
  shows "pair_returns left n (ftpvita_store_stream (Some (store_receive E)) (Some (store_write E fd)) (Some b) m s)"
proof -
  let ?run = "ftpvita_store_stream (Some (store_receive E)) (Some (store_write E fd)) (Some b) m s"
  have receive: "used left c c' \<and> (0 < sint r \<longrightarrow> left (world c') < left (world c))"
    if "store_receive E c b k = (r, e, b', c')" for c b k r e b' c'
    using that used_syscall [OF assms(1)] input_falls [OF lasting_input [OF assms(1)]]
    by (fastforce simp: store_receive_def client_recv_data_raw_def split: prod.splits)
  have "write": "used left c c'" if "store_write E fd c b k = (w, c')" for c b k w c'
    using that used_syscall [OF assms(1)] by (auto simp: store_write_def split: prod.splits)
  have "\<exists>y. store_loop (store_receive E) (store_write E fd) m b res s = Some y" for res
    by (rule store_loop_returns [where \<mu> = "\<lambda>c. left (world c)"]) (use receive "write" in \<open>auto simp: used_def\<close>)
  then obtain res t where run: "?run = Some (res, t)" by (fastforce simp: ftpvita_store_stream_def Let_def)
  have "used left s t" by (rule store_stream_rel [OF used_preorder _ _ run]) (use receive "write" in blast)+
  with run assms(2) show ?thesis by (simp add: pair_returns_def used_def within_def)
qed

section \<open>The commands\<close>

lemma returns_unit: "within left n (f s) \<Longrightarrow> returns left n (Some (f s))"
  by (rule returns_Some)

lemma stays_list_finish [stays]: "lasting E left \<Longrightarrow> within left n s \<Longrightarrow> within left n (list_finish E b s)"
  unfolding list_finish_def by (intro stays)

lemma stays_if [stays]: "within left n t \<Longrightarrow> within left n u \<Longrightarrow> within left n (if b then t else u)"
  by simp

lemma send_LIST_returns:
  assumes "lasting E left" and "within left n s"
  shows "returns left n (send_LIST E path s)"
  unfolding send_LIST_def
  by (rule returns_case [OF list_devices_returns] returns_case [OF list_entries_returns] | rule stays_rules
    | (rule stay_pulls, rule assms(1), assumption) | rule stays assms | assumption)+

lemma cmd_LIST_returns:
  assumes "lasting E left" and "within left n s"
  shows "returns left n (cmd_LIST_func E s)"
  unfolding cmd_LIST_func_def
  by (rule stays_rules | rule send_LIST_returns | (rule stay_pulls, rule assms(1), assumption) | rule stays assms)+

lemma send_file_stays [stays]:
  assumes "lasting E left" and "within left n s"
  shows "within left n (send_file E path s)"
  unfolding send_file_def
  by (rule stays_rules | (rule stay_pulls, rule assms(1), assumption) | rule stays assms)+

lemma receive_file_returns:
  assumes "lasting E left" and "within left n s"
  shows "returns left n (receive_file E path s)"
  unfolding receive_file_def
  by (rule returns_case [OF store_stream_returns] | rule stays_rules
    | (rule stay_pulls, rule assms(1), assumption) | rule stays assms | assumption)+

lemma cmd_PASV_stays [stays]:
  assumes "lasting E left" and "within left n s"
  shows "within left n (cmd_PASV_func E s)"
  unfolding cmd_PASV_func_def
  by (rule stays_rules | (rule stay_pulls, rule assms(1), assumption) | rule stays assms)+

lemma cmd_PORT_stays [stays]:
  assumes "lasting E left" and "within left n s"
  shows "within left n (cmd_PORT_func E s)"
  unfolding cmd_PORT_func_def
  by (rule stays_rules | (rule stay_pulls, rule assms(1), assumption) | rule stays assms)+

lemmas small_commands = cmd_NOOP_func_def cmd_USER_func_def cmd_PASS_func_def cmd_QUIT_func_def cmd_SYST_func_def cmd_TYPE_func_def
  cmd_DELE_func_def delete_file_def cmd_RMD_func_def delete_dir_def cmd_MKD_func_def create_dir_def cmd_RNTO_func_def cmd_SIZE_func_def
  cmd_REST_func_def cmd_FEAT_func_def cmd_OPTS_func_def cmd_PWD_func_def cmd_RETR_func_def

lemma small_commands_stay:
  assumes "lasting E left" and "within left n s"
  shows "within left n (cmd_NOOP_func E s)" "within left n (cmd_USER_func E s)" "within left n (cmd_PASS_func E s)"
    "within left n (cmd_QUIT_func E s)" "within left n (cmd_SYST_func E s)" "within left n (cmd_TYPE_func E s)"
    "within left n (cmd_DELE_func E s)" "within left n (cmd_RMD_func E s)" "within left n (cmd_MKD_func E s)"
    "within left n (cmd_RNTO_func E s)" "within left n (cmd_SIZE_func E s)" "within left n (cmd_REST_func E s)"
    "within left n (cmd_FEAT_func E s)" "within left n (cmd_OPTS_func E s)" "within left n (cmd_PWD_func E s)"
    "within left n (cmd_RETR_func E s)"
  unfolding small_commands
  by (rule stays_rules | (rule stay_pulls, rule assms(1), assumption) | rule stays assms)+

lemma cmd_CDUP_returns:
  assumes "lasting E left" and "within left n s" and "cwd_ok E (cur_path (cl s))"
  shows "returns left n (cmd_CDUP_func E s)"
proof -
  obtain q where "dir_up (cur_path (cl s)) = Some q" using dir_up_cwd_ok [OF assms(3)] by blast
  then show ?thesis using assms(1,2) by (simp add: cmd_CDUP_func_def returns_Some stays_ctrl)
qed

lemma cmd_CWD_returns:
  assumes "lasting E left" and "within left n s" and "cwd_ok E (cur_path (cl s))"
  shows "returns left n (cmd_CWD_func E s)"
proof -
  obtain q where "dir_up (cur_path (cl s)) = Some q" using dir_up_cwd_ok [OF assms(3)] by blast
  then have up: "(case dir_up (cur_path (cl s)) of None \<Rightarrow> None | Some p \<Rightarrow> Some (f p)) = Some (f q)" for f :: "string \<Rightarrow> 'a ftp" by simp
  show ?thesis unfolding cmd_CWD_func_def up
    by (rule stays_rules | (rule stay_pulls, rule assms(1), assumption) | rule stays assms)+
qed

text \<open>The only null path that could be copied is one that the system finds.\<close>

lemma cmd_RNFR_returns:
  assumes "lasting E left" and "within left n s"
  shows "returns left n (cmd_RNFR_func E s)"
proof -
  obtain b u where u: "file_exists E (dest_path E s) s = (b, u)" by fastforce
  have "within left n u" using stays_exists [OF assms(1) u assms(2)] .
  moreover have "\<not> b" if "dest_path E s = None"
    using that u assms(1) by (auto simp: file_exists_def lasting_def null_path_fails_def syscall_def split: prod.splits)
      (metis fst_conv)
  ultimately show ?thesis using u assms(1)
    by (cases "dest_path E s") (auto simp: cmd_RNFR_func_def Let_def intro!: returns_Some stays_ctrl)
qed

lemma cmd_func_returns:
  assumes "lasting E left" and "within left n s" and "cwd_ok E (cur_path (cl s))"
  shows "returns left n (cmd_func E c s)"
  using assms cmd_LIST_returns [OF assms(1,2)] cmd_CDUP_returns [OF assms] cmd_CWD_returns [OF assms] cmd_RNFR_returns [OF assms(1,2)]
    receive_file_returns [OF assms(1,2)] receive_file_returns [OF assms(1), of n "set_cl (\<lambda>c. c\<lparr>restore_point := - 1\<rparr>) s"]
    small_commands_stay [OF assms(1,2)] cmd_PASV_stays [OF assms(1,2)] cmd_PORT_stays [OF assms(1,2)]
  by (cases c) (simp_all add: returns_Some cmd_STOR_func_def cmd_APPE_func_def Let_def)

section \<open>The client thread\<close>

lemma client_dispatch_returns:
  assumes "lasting E left" and "custom_returns left custom" and "cwd_ok E (cur_path (cl s))"
  shows "\<exists>y. client_dispatch E custom cmd s = Some y \<and> left (world (turn_end y)) \<le> left (world s)"
proof (cases "get_dispatch_func cmd s")
  case None
  with stays_ctrl [OF assms(1) within_refl] show ?thesis by (simp add: client_dispatch_def turn_end_def within_def)
next
  case (Some f)
  have "returns left (left (world s)) (run_dispatch E custom f s)"
  proof (cases f)
    case (Builtin c)
    then show ?thesis using cmd_func_returns [OF assms(1) within_refl assms(3)] by simp
  next
    case (Custom a)
    then show ?thesis using assms(2) by (simp add: custom_returns_def returns_def within_def)
  qed
  then obtain t where "run_dispatch E custom f s = Some t" "left (world t) \<le> left (world s)" by (auto simp: returns_def within_def)
  with Some show ?thesis by (simp add: client_dispatch_def turn_end_def)
qed

text \<open>A turn returns, and one that does not end the session has read a line.\<close>

lemma client_turn_returns:
  assumes "lasting E left" and "custom_returns left custom" and "cwd_ok E (cur_path (cl s))"
  shows "\<exists>y. client_turn E custom s = Some y \<and> (\<forall>u. y = Inr u \<longrightarrow> left (world u) < left (world s))"
proof -
  obtain r s1 where 1: "syscall E (Net (sceNetRecv (ctrl_sockfd (cl s)) 511)) s = (r, s1)" by fastforce
  show ?thesis
  proof (cases "0 < sint (rc r)")
    case False
    with 1 show ?thesis by (simp add: client_turn_def)
  next
    case True
    have less: "left (world s1) < left (world s)" using input_falls [OF lasting_input [OF assms(1)] 1] True by simp
    let ?s2 = "set_cl (\<lambda>c. c\<lparr>n_recv := rc r, recv_buffer := stored r 511\<rparr>) s1"
    show ?thesis
    proof (cases "ftpvita_parse_command_line (Some (stored r 511)) 16")
      case None
      have "left (world (client_send_ctrl_msg E m ?s2)) \<le> left (world s1)" for m
        using stays_ctrl [OF assms(1), of "left (world s1)" ?s2 m] by (simp add: within_def)
      with 1 True None less show ?thesis by (auto simp: client_turn_def intro: le_less_trans)
    next
      case (Some ca)
      obtain c a where ca: "ca = (c, a)" by (cases ca)
      let ?s3 = "exec E (Kernel (sceKernelDelayThread 1000)) (set_cl (\<lambda>c. c\<lparr>recv_cmd_args := Some a\<rparr>) ?s2)"
      have "cwd_ok E (cur_path (cl ?s3))" using assms(3) syscall_ftpD [OF 1] by simp
      from client_dispatch_returns [OF assms(1,2) this] obtain y
        where y: "client_dispatch E custom c ?s3 = Some y" "left (world (turn_end y)) \<le> left (world ?s3)" by blast
      have "left (world ?s3) \<le> left (world s1)"
        using within_exec [OF assms(1), of "left (world s1)" "set_cl (\<lambda>c. c\<lparr>recv_cmd_args := Some a\<rparr>) ?s2"] by (simp add: within_def)
      with 1 True Some ca y less show ?thesis by (intro exI [of _ y]) (auto simp: client_turn_def turn_end_def)
    qed
  qed
qed

lemma client_loop_returns:
  assumes "lasting E left" and "custom_returns left custom" and "514 \<le> PATH_MAX E" and "custom_ok E custom"
  shows "client_ok E (cl s) \<Longrightarrow> \<exists>t. client_loop E custom s = Some t"
proof (induction "left (world s)" arbitrary: s rule: less_induct)
  case less
  have "cwd_ok E (cur_path (cl s))" using less.prems by (simp add: client_ok_def)
  from client_turn_returns [OF assms(1,2) this] obtain y
    where y: "client_turn E custom s = Some y" "\<forall>u. y = Inr u \<longrightarrow> left (world u) < left (world s)" by blast
  show ?case
  proof (cases y)
    case (Inl t)
    with y(1) show ?thesis by (subst client_loop.simps) simp
  next
    case (Inr u)
    have "client_ok E (cl u)" using client_turn_ends [OF less.prems assms(3,4) y(1)] Inr by (simp add: ends_def command_post_def turn_end_def)
    with less.hyps y Inr show ?thesis by (subst client_loop.simps) simp
  qed
qed

text \<open>C2: the thread of a client ends. If the peer sends only finitely much and directories are finite (\<open>left\<close> bounds what can
  still be read), if \<open>sceNetSend\<close> does not claim to have sent more than it was given and no file has a null path, the thread of a
  connected client returns, whatever lines it receives and whichever calls fail: no command follows a null or dangling pointer, no
  loop of a transfer or a listing runs for ever, the session ends, and the client leaves the list.\<close>

theorem client_thread_ends:
  assumes "registry s ps" and "client_heap s p = Some c" and "p \<in> set ps" and "client_ok E c"
    and "finite_input E left" and "send_bounded E" and "null_path_fails E"
    and "514 \<le> PATH_MAX E" and "custom_ok E custom" and "custom_returns left custom"
  shows "\<exists>t. client_thread E custom p s = Some t \<and> registry t (remove1 p ps) \<and> client_heap t p = None"
proof -
  let ?s = "client_send_ctrl_msg E (''220 FTPVita Server ready.'' @ EOL) (s\<lparr>cl := c\<rparr>)"
  have l: "lasting E left" using assms(5-7) by (simp add: lasting_def)
  have ok: "client_ok E (cl ?s)" using assms(4) by (simp add: client_send_ctrl_msg_def)
  then obtain u where u: "client_loop E custom ?s = Some u" using client_loop_returns [OF l assms(10,8,9)] by blast
  have "same_server ?s u" using client_loop_ends [OF ok assms(8,9) u] by (simp add: ends_def owes_def)
  moreover have "same_server (s\<lparr>cl := c\<rparr>) ?s" by (simp add: client_send_ctrl_msg_def)
  ultimately have same: "client_heap u = client_heap s" "client_list u = client_list s" "number_clients u = number_clients s" "ident (cl u) = ident c"
    by (auto simp: same_server_def)
  have "registry (write_back p u) ps"
    by (rule registry_ident [OF assms(1)]) (use same assms(2) in \<open>auto simp: write_back_def\<close>)
  moreover have "client_heap (write_back p u) p = Some (cl u)" by (simp add: write_back_def)
  ultimately obtain t where "client_exit E p (write_back p u) = Some t" "registry t (remove1 p ps)" "client_heap t p = None"
    using client_exit_eq [OF _ _ assms(3)] by blast
  with u assms(2) show ?thesis by (simp add: client_thread_def)
qed

text \<open>A system that takes every message, finds no file at NULL, and answers from a list otherwise.\<close>

definition finite_env :: "ret list env" where
  "finite_env = script_env\<lparr>sys := (\<lambda>c w. case c of Net (sceNetSend fd bs) \<Rightarrow> (answer (word_of_nat (length bs)), w)
     | Io (sceIoGetstat None) \<Rightarrow> (answer (- 1), w) | _ \<Rightarrow> sys script_env c w)\<rparr>"

lemma finite_env_left: "finite_input finite_env length"
  unfolding finite_input_def
proof (intro allI)
  fix c w
  show "length (snd (sys finite_env c w)) \<le> length w \<and>
    (uses_up c (fst (sys finite_env c w)) \<longrightarrow> length (snd (sys finite_env c w)) < length w)"
    using script_falls [of c w] uses_up_code [of c "fst (sys script_env c w)"]
    by (auto simp: finite_env_def split: call.splits net_call.splits io_call.splits option.splits)
qed

lemma finite_env_sends: "send_bounded finite_env"
  by (simp add: send_bounded_def finite_env_def answer_def unat_of_nat)

theorem client_thread_ends_witness:
  "\<exists>t. client_thread finite_env (\<lambda>_ s. Some s) 64 (one_client\<lparr>world := [answer_text (''NOOP'' @ EOL), answer_text (''STOR a'' @ EOL)]\<rparr>) = Some t \<and>
     registry t []"
proof -
  let ?s = "one_client\<lparr>world := [answer_text (''NOOP'' @ EOL), answer_text (''STOR a'' @ EOL)]\<rparr>"
  have "null_path_fails finite_env" by (simp add: null_path_fails_def finite_env_def answer_def)
  moreover have "registry ?s [64]" using one_client_registry by (simp add: registry_def)
  moreover have "custom_returns length (\<lambda>_ s :: ret list ftp. Some s)" by (simp add: custom_returns_def)
  moreover have "custom_ok finite_env (\<lambda>_ s. Some s)" by (simp add: custom_ok_def may_end_def ends_def command_post_def)
  moreover have "client_heap ?s 64 = Some idle_client" by (simp add: one_client_def)
  moreover have "client_ok finite_env idle_client" using idle_client_ok by (simp add: client_ok_def cwd_ok_def finite_env_def)
  moreover have "514 \<le> PATH_MAX finite_env" by (simp add: finite_env_def script_env_def)
  ultimately show ?thesis
    using client_thread_ends [of ?s "[64]" 64 idle_client finite_env length "\<lambda>_ s. Some s"] finite_env_left finite_env_sends by auto
qed

end
