(* ===== verification/Ftp_Lifecycle.thy ===== *)
theory Ftp_Lifecycle
  imports Ftp_Server
begin

text \<open>
  The life of the FTP server: \<open>ftpvita_init\<close> with its chain of clean-ups, \<open>ftpvita_fini\<close>, and the
  registration of devices and custom commands.

  While \<open>ftpvita_init\<close> waits for the server thread, that thread runs: the parameter \<open>others\<close> is what it does to the
  state during a delay.
\<close>

section \<open>Devices and custom commands\<close>

abbreviation MAX_DEVICES :: nat where "MAX_DEVICES \<equiv> 16"
abbreviation MAX_CUSTOM_COMMANDS :: nat where "MAX_CUSTOM_COMMANDS \<equiv> 16"

fun add_device :: "string \<Rightarrow> device list \<Rightarrow> device list option" where
  "add_device devname [] = None"
| "add_device devname (d # ds) =
     (if \<not> device_valid d then Some (\<lparr>device_name = devname, device_valid = True\<rparr> # ds)
      else map_option (Cons d) (add_device devname ds))"

definition ftpvita_add_device :: "string \<Rightarrow> 'w ftp \<Rightarrow> bool \<times> 'w ftp" where
  "ftpvita_add_device devname s =
     (case add_device devname (device_list s) of None \<Rightarrow> (False, s) | Some ds \<Rightarrow> (True, s\<lparr>device_list := ds\<rparr>))"

fun del_device :: "string \<Rightarrow> device list \<Rightarrow> device list option" where
  "del_device devname [] = None"
| "del_device devname (d # ds) =
     (if devname = device_name d then Some (d\<lparr>device_valid := False\<rparr> # ds)
      else map_option (Cons d) (del_device devname ds))"

definition ftpvita_del_device :: "string \<Rightarrow> 'w ftp \<Rightarrow> bool \<times> 'w ftp" where
  "ftpvita_del_device devname s =
     (case del_device devname (device_list s) of None \<Rightarrow> (False, s) | Some ds \<Rightarrow> (True, s\<lparr>device_list := ds\<rparr>))"

fun add_custom :: "string \<Rightarrow> u32 \<Rightarrow> custom_command list \<Rightarrow> custom_command list option" where
  "add_custom cmd func [] = None"
| "add_custom cmd func (d # ds) =
     (if \<not> custom_valid d then Some (\<lparr>custom_cmd = Some cmd, custom_func = func, custom_valid = True\<rparr> # ds)
      else map_option (Cons d) (add_custom cmd func ds))"

definition ftpvita_ext_add_custom_command :: "string \<Rightarrow> u32 \<Rightarrow> 'w ftp \<Rightarrow> bool \<times> 'w ftp" where
  "ftpvita_ext_add_custom_command cmd func s =
     (case add_custom cmd func (custom_command_dispatchers s) of
        None \<Rightarrow> (False, s)
      | Some ds \<Rightarrow> (True, s\<lparr>custom_command_dispatchers := ds\<rparr>))"

text \<open>The search of \<open>ftpvita_ext_del_custom_command\<close>; \<open>None\<close> is the comparison with a name that is NULL.\<close>

fun del_custom :: "string \<Rightarrow> custom_command list \<Rightarrow> (bool \<times> custom_command list) option" where
  "del_custom cmd [] = Some (False, [])"
| "del_custom cmd (d # ds) =
     (case custom_cmd d of
        None \<Rightarrow> None
      | Some name \<Rightarrow>
          if cmd = name then Some (True, d\<lparr>custom_valid := False\<rparr> # ds)
          else map_option (\<lambda>(b, ds). (b, d # ds)) (del_custom cmd ds))"

definition ftpvita_ext_del_custom_command :: "string \<Rightarrow> 'w ftp \<Rightarrow> (bool \<times> 'w ftp) option" where
  "ftpvita_ext_del_custom_command cmd s =
     map_option (\<lambda>(b, ds). (b, s\<lparr>custom_command_dispatchers := ds\<rparr>)) (del_custom cmd (custom_command_dispatchers s))"

definition ftpvita_set_file_buf_size :: "u32 \<Rightarrow> 'w ftp \<Rightarrow> 'w ftp" where
  "ftpvita_set_file_buf_size n s = s\<lparr>file_buf_size := n\<rparr>"

section \<open>Initialization\<close>

abbreviation NET_CTL_ERROR_NOT_TERMINATED :: i32 where "NET_CTL_ERROR_NOT_TERMINATED \<equiv> 0x80412102"
abbreviation NET_INIT_SIZE :: u32 where "NET_INIT_SIZE \<equiv> 64 * 1024"
abbreviation SERVER_START_TIMEOUT_MS :: nat where "SERVER_START_TIMEOUT_MS \<equiv> 2000"

text \<open>The clean-up labels, each falling through to the next.\<close>

definition error_netinit :: "'w env \<Rightarrow> 'w ftp \<Rightarrow> 'w ftp" where
  "error_netinit E s =
     (if net_memory s \<noteq> 0 then (exec E (Kernel (free (net_memory s))) s)\<lparr>net_memory := 0\<rparr> else s)"

definition error_netctlinit :: "'w env \<Rightarrow> 'w ftp \<Rightarrow> 'w ftp" where
  "error_netctlinit E s = error_netinit E (if net_init s = 0 then (exec E (Net sceNetTerm) s)\<lparr>net_init := - 1\<rparr> else s)"

definition error_netctlgetinfo :: "'w env \<Rightarrow> 'w ftp \<Rightarrow> 'w ftp" where
  "error_netctlgetinfo E s =
     error_netctlinit E (if netctl_init s = 0 then (exec E (Net sceNetCtlTerm) s)\<lparr>netctl_init := - 1\<rparr> else s)"

definition error_server_thread :: "'w env \<Rightarrow> 'w ftp \<Rightarrow> 'w ftp" where
  "error_server_thread E s =
     error_netctlgetinfo E ((exec E (Kernel (sceKernelDeleteMutex (client_list_mtx s))) s)\<lparr>client_list_mtx := - 1\<rparr>)"

definition error_server_start :: "'w env \<Rightarrow> 'w ftp \<Rightarrow> 'w ftp" where
  "error_server_start E s =
     error_server_thread E ((exec E (Kernel (sceKernelDeleteThread (server_thid s))) s)\<lparr>server_thid := - 1\<rparr>)"

text \<open>The initialization of the network library: \<open>Inl\<close> is an error that has been cleaned up.\<close>

definition init_net :: "'w env \<Rightarrow> 'w ftp \<Rightarrow> i32 \<times> 'w ftp + 'w ftp" where
  "init_net E s =
     (let (r, s) = syscall E (Net sceNetShowNetstat) s
      in if rc r = 0 then Inr (s\<lparr>net_init := - 1\<rparr>)
         else if rc r = SCE_NET_ERROR_ENOTINIT E
         then let (m, s) = syscall E (Kernel (malloc NET_INIT_SIZE)) s; s = s\<lparr>net_memory := rc m\<rparr>
              in if net_memory s = 0 then Inl (- 1, error_netinit E s)
                 else let (r, s) = syscall E (Net (sceNetInit (net_memory s))) s; s = s\<lparr>net_init := rc r\<rparr>
                      in if neg (net_init s) then Inl (net_init s, error_netinit E s) else Inr s
         else Inl (rc r, s))"

definition ip_address :: "ret \<Rightarrow> string" where
  "ip_address r = cstr (map (mem r) [0 ..< 16])"

text \<open>NetCtl and the address; \<open>Inr\<close> carries the text of the address.\<close>

definition init_netctl :: "'w env \<Rightarrow> 'w ftp \<Rightarrow> i32 \<times> 'w ftp + string \<times> 'w ftp" where
  "init_netctl E s =
     (let (r, s) = syscall E (Net sceNetCtlInit) s; s = s\<lparr>netctl_init := rc r\<rparr>
      in if neg (netctl_init s) \<and> netctl_init s \<noteq> NET_CTL_ERROR_NOT_TERMINATED then Inl (netctl_init s, error_netctlinit E s)
         else let (r, s) = syscall E (Net sceNetCtlInetGetInfo) s
              in if neg (rc r) then Inl (rc r, error_netctlgetinfo E s)
                 else Inr (ip_address r, s\<lparr>vita_addr := sceNetInetPton E (ip_address r)\<rparr>))"

definition reset_server :: "'w ftp \<Rightarrow> 'w ftp" where
  "reset_server s = s\<lparr>device_list := map (\<lambda>d. d\<lparr>device_valid := False\<rparr>) (device_list s),
     custom_command_dispatchers := map (\<lambda>d. d\<lparr>custom_valid := False\<rparr>) (custom_command_dispatchers s),
     client_list := 0, number_clients := 0, next_client_num := 0, transfer_active := 0, reboot_quiesce_requested := 0,
     server_sockfd := - 1, server_start_status := SERVER_START_PENDING\<rparr>"

text \<open>The wait for the server thread; the first argument is the number of milliseconds left.\<close>

fun await_server :: "'w env \<Rightarrow> (nat \<Rightarrow> 'w ftp \<Rightarrow> 'w ftp) \<Rightarrow> nat \<Rightarrow> 'w ftp \<Rightarrow> 'w ftp" where
  "await_server E others 0 s = s"
| "await_server E others (Suc n) s =
     (if server_start_status s = SERVER_START_PENDING
      then await_server E others n (others n (exec E (Kernel (sceKernelDelayThread 1000)) s))
      else s)"

definition init_server :: "'w env \<Rightarrow> (nat \<Rightarrow> 'w ftp \<Rightarrow> 'w ftp) \<Rightarrow> 'w ftp \<Rightarrow> i32 \<times> 'w ftp" where
  "init_server E others s =
     (let (r, s) = syscall E (Kernel (sceKernelCreateMutex ''FTPVita_client_list_mutex'')) s; s = s\<lparr>client_list_mtx := rc r\<rparr>
      in if neg (client_list_mtx s) then (client_list_mtx s, error_netctlgetinfo E s)
         else let (r, s) = syscall E (Kernel (sceKernelCreateThread ''FTPVita_server_thread'')) s; s = s\<lparr>server_thid := rc r\<rparr>
              in if neg (server_thid s) then (server_thid s, error_server_thread E s)
                 else let s = reset_server s;
                          (r, s) = syscall E (Kernel (sceKernelStartThread (server_thid s))) s
                      in if neg (rc r) then (rc r, error_server_start E s)
                         else let s = await_server E others SERVER_START_TIMEOUT_MS s
                              in if server_start_status s \<noteq> 0
                                 then let ret = (if server_start_status s = SERVER_START_PENDING then - 1 else server_start_status s);
                                          s = close_server_socket E s;
                                          s = exec E (Kernel (sceKernelWaitThreadEnd (server_thid s))) s
                                      in (ret, error_server_start E s)
                                 else (0, s\<lparr>ftp_initialized := True\<rparr>))"

text \<open>The result, the address and port stored for the caller, and the state.\<close>

definition ftpvita_init :: "'w env \<Rightarrow> (nat \<Rightarrow> 'w ftp \<Rightarrow> 'w ftp) \<Rightarrow> 'w ftp \<Rightarrow> (i32 \<times> (string \<times> u16) option) \<times> 'w ftp" where
  "ftpvita_init E others s =
     (if ftp_initialized s then ((- 1, None), s)
      else case init_net E s of
             Inl (ret, s) \<Rightarrow> ((ret, None), s)
           | Inr s \<Rightarrow>
               (case init_netctl E s of
                  Inl (ret, s) \<Rightarrow> ((ret, None), s)
                | Inr (ip, s) \<Rightarrow> (case init_server E others s of (ret, s) \<Rightarrow> ((ret, Some (ip, FTP_PORT)), s))))"

section \<open>Shutdown\<close>

definition stop_server_thread :: "'w env \<Rightarrow> 'w ftp \<Rightarrow> 'w ftp" where
  "stop_server_thread E s =
     (if neg (server_thid s) then s
      else let s = exec E (Kernel (sceKernelWaitThreadEnd (server_thid s))) s
           in (exec E (Kernel (sceKernelDeleteThread (server_thid s))) s)\<lparr>server_thid := - 1\<rparr>)"

definition delete_list_mutex :: "'w env \<Rightarrow> 'w ftp \<Rightarrow> 'w ftp" where
  "delete_list_mutex E s =
     (if neg (client_list_mtx s) then s
      else (exec E (Kernel (sceKernelDeleteMutex (client_list_mtx s))) s)\<lparr>client_list_mtx := - 1\<rparr>)"

definition release_net :: "'w env \<Rightarrow> 'w ftp \<Rightarrow> 'w ftp" where
  "release_net E s =
     (let s = (if netctl_init s = 0 then exec E (Net sceNetCtlTerm) s else s);
          s = (if net_init s = 0 then exec E (Net sceNetTerm) s else s);
          s = (if net_memory s \<noteq> 0 then exec E (Kernel (free (net_memory s))) s else s)
      in s\<lparr>netctl_init := - 1, net_init := - 1, net_memory := 0\<rparr>)"

definition ftpvita_fini :: "'w env \<Rightarrow> 'w ftp \<Rightarrow> 'w ftp option" where
  "ftpvita_fini E s =
     (if \<not> ftp_initialized s then Some s
      else do {
        s \<leftarrow> Some (close_server_socket E (s\<lparr>ftp_initialized := False\<rparr>));
        s \<leftarrow> Some (stop_server_thread E s);
        s \<leftarrow> client_list_thread_end E s;
        s \<leftarrow> Some (delete_list_mutex E s);
        s \<leftarrow> Some (s\<lparr>client_list := 0, number_clients := 0, transfer_active := 0, reboot_quiesce_requested := 0\<rparr>);
        Some (release_net E s) })"

section \<open>What the server owns\<close>

definition server_owned :: "'w ftp \<Rightarrow> resource \<Rightarrow> int" where
  "server_owned s x = of_bool (\<not> neg (server_thid s) \<and> x = Thread (server_thid s)) +
     of_bool (\<not> neg (client_list_mtx s) \<and> x = Mutex (client_list_mtx s)) + holds (server_sockfd s) x +
     of_bool (net_init s = 0 \<and> x = NetLib) + of_bool (netctl_init s = 0 \<and> x = NetCtl) +
     of_bool (net_memory s \<noteq> 0 \<and> x = Mem (net_memory s))"

definition server_extra :: "'w ftp \<Rightarrow> resource \<Rightarrow> int" where
  "server_extra s x = balance (trace s) x - server_owned s x"

text \<open>A server that owns nothing.\<close>

definition server_clean :: "'w ftp \<Rightarrow> bool" where
  "server_clean s \<longleftrightarrow> neg (server_thid s) \<and> neg (client_list_mtx s) \<and> neg (server_sockfd s) \<and> net_init s \<noteq> 0 \<and>
     netctl_init s \<noteq> 0 \<and> net_memory s = 0"

text \<open>What the initialization relies on from the server thread: it touches the server socket and the start status
  only, and whatever socket it opens it records.\<close>

definition server_fields :: "'w ftp \<Rightarrow> i32 \<times> i32 \<times> i32 \<times> i32 \<times> u32 \<times> bool" where
  "server_fields s = (server_thid s, client_list_mtx s, net_init s, netctl_init s, net_memory s, ftp_initialized s)"

definition others_ok :: "(nat \<Rightarrow> 'w ftp \<Rightarrow> 'w ftp) \<Rightarrow> bool" where
  "others_ok others \<longleftrightarrow> (\<forall>i s. server_fields (others i s) = server_fields s \<and> (\<forall>x. server_extra (others i s) x = server_extra s x))"

named_theorems books \<open>unfolding of the accounts of the server\<close>

lemmas [books] = server_extra_def server_owned_def delta_def holds_def

lemma server_exec [simp]:
  "server_thid (exec E c s) = server_thid s" "client_list_mtx (exec E c s) = client_list_mtx s"
  "server_sockfd (exec E c s) = server_sockfd s" "net_init (exec E c s) = net_init s" "netctl_init (exec E c s) = netctl_init s"
  "net_memory (exec E c s) = net_memory s" "ftp_initialized (exec E c s) = ftp_initialized s"
  "server_start_status (exec E c s) = server_start_status s"
  by (simp_all add: exec_eq)

lemma server_syscall:
  assumes "syscall E c s = (r, t)"
  shows "server_thid t = server_thid s" "client_list_mtx t = client_list_mtx s"
    "server_sockfd t = server_sockfd s" "net_init t = net_init s" "netctl_init t = netctl_init s"
    "net_memory t = net_memory s" "ftp_initialized t = ftp_initialized s" "server_start_status t = server_start_status s"
    "balance (trace t) x = balance (trace s) x + delta (c, r) x"
  using assms by (auto simp: syscall_def split: prod.splits)

lemma error_netinit_books:
  "server_extra (error_netinit E s) x = server_extra s x" "net_memory (error_netinit E s) = 0"
  "server_thid (error_netinit E s) = server_thid s" "client_list_mtx (error_netinit E s) = client_list_mtx s"
  "server_sockfd (error_netinit E s) = server_sockfd s" "net_init (error_netinit E s) = net_init s"
  "netctl_init (error_netinit E s) = netctl_init s" "ftp_initialized (error_netinit E s) = ftp_initialized s"
  by (auto simp: error_netinit_def books)

lemma error_netctlinit_books:
  "server_extra (error_netctlinit E s) x = server_extra s x" "net_memory (error_netctlinit E s) = 0"
  "net_init (error_netctlinit E s) \<noteq> 0"
  "server_thid (error_netctlinit E s) = server_thid s" "client_list_mtx (error_netctlinit E s) = client_list_mtx s"
  "server_sockfd (error_netctlinit E s) = server_sockfd s"
  "netctl_init (error_netctlinit E s) = netctl_init s" "ftp_initialized (error_netctlinit E s) = ftp_initialized s"
  by (auto simp: error_netctlinit_def error_netinit_books) (auto simp: books)

lemma error_netctlgetinfo_books:
  "server_extra (error_netctlgetinfo E s) x = server_extra s x" "net_memory (error_netctlgetinfo E s) = 0"
  "net_init (error_netctlgetinfo E s) \<noteq> 0" "netctl_init (error_netctlgetinfo E s) \<noteq> 0"
  "server_thid (error_netctlgetinfo E s) = server_thid s" "client_list_mtx (error_netctlgetinfo E s) = client_list_mtx s"
  "server_sockfd (error_netctlgetinfo E s) = server_sockfd s" "ftp_initialized (error_netctlgetinfo E s) = ftp_initialized s"
  by (auto simp: error_netctlgetinfo_def error_netctlinit_books) (auto simp: books)

lemma error_server_thread_books:
  assumes "\<not> neg (client_list_mtx s)" and "neg (server_thid s)" and "neg (server_sockfd s)" and "\<not> ftp_initialized s"
  shows "server_extra (error_server_thread E s) x = server_extra s x" "server_clean (error_server_thread E s)"
    "\<not> ftp_initialized (error_server_thread E s)"
  using assms by (auto simp: error_server_thread_def error_netctlgetinfo_books server_clean_def) (auto simp: books)

lemma error_server_start_books:
  assumes "\<not> neg (client_list_mtx s)" and "\<not> neg (server_thid s)" and "neg (server_sockfd s)" and "\<not> ftp_initialized s"
  shows "server_extra (error_server_start E s) x = server_extra s x" "server_clean (error_server_start E s)"
    "\<not> ftp_initialized (error_server_start E s)"
proof -
  let ?s = "(exec E (Kernel (sceKernelDeleteThread (server_thid s))) s)\<lparr>server_thid := - 1\<rparr>"
  have "server_extra ?s x = server_extra s x" using assms by (auto simp: books)
  with error_server_thread_books [of ?s E] assms
  show "server_extra (error_server_start E s) x = server_extra s x" "server_clean (error_server_start E s)"
    "\<not> ftp_initialized (error_server_start E s)"
    by (simp_all add: error_server_start_def)
qed

text \<open>The state between the stages: nothing of the server itself exists yet.\<close>

definition server_absent :: "'w ftp \<Rightarrow> bool" where
  "server_absent s \<longleftrightarrow> neg (server_thid s) \<and> neg (client_list_mtx s) \<and> neg (server_sockfd s) \<and> \<not> ftp_initialized s"

lemma init_net_books:
  assumes "server_clean s" and "\<not> ftp_initialized s"
  shows "case init_net E s of
      Inl (ret, t) \<Rightarrow> server_extra t x = server_extra s x \<and> server_clean t \<and> \<not> ftp_initialized t
    | Inr t \<Rightarrow> server_extra t x = server_extra s x \<and> server_absent t \<and> netctl_init t \<noteq> 0"
proof -
  obtain r s1 where 1: "syscall E (Net sceNetShowNetstat) s = (r, s1)" by fastforce
  obtain m s2 where 2: "syscall E (Kernel (malloc NET_INIT_SIZE)) s1 = (m, s2)" by fastforce
  let ?s2 = "s2\<lparr>net_memory := rc m\<rparr>"
  obtain i s3 where 3: "syscall E (Net (sceNetInit (rc m))) ?s2 = (i, s3)" by fastforce
  let ?s3 = "s3\<lparr>net_init := rc i\<rparr>"
  note [simp] = server_syscall [OF 1] server_syscall [OF 2] server_syscall [OF 3]
  have "server_extra ?s2 x = server_extra s x" using assms by (auto simp: books server_clean_def)
  moreover have "server_extra ?s3 x = server_extra s x" using assms by (auto simp: books server_clean_def)
  moreover have "server_extra s1 x = server_extra s x" by (simp add: books)
  moreover have "server_extra (s1\<lparr>net_init := - 1\<rparr>) x = server_extra s x" using assms by (auto simp: books server_clean_def)
  ultimately show ?thesis
    using assms 1 2 3 by (auto simp: init_net_def Let_def error_netinit_books server_clean_def server_absent_def)
qed

lemma init_netctl_books:
  assumes "server_absent s" and "netctl_init s \<noteq> 0"
  shows "case init_netctl E s of
      Inl (ret, t) \<Rightarrow> server_extra t x = server_extra s x \<and> server_clean t \<and> \<not> ftp_initialized t
    | Inr (ip, t) \<Rightarrow> server_extra t x = server_extra s x \<and> server_absent t"
proof -
  obtain r s1 where 1: "syscall E (Net sceNetCtlInit) s = (r, s1)" by fastforce
  let ?s1 = "s1\<lparr>netctl_init := rc r\<rparr>"
  obtain i s2 where 2: "syscall E (Net sceNetCtlInetGetInfo) ?s1 = (i, s2)" by fastforce
  note [simp] = server_syscall [OF 1] server_syscall [OF 2]
  have "server_extra ?s1 x = server_extra s x" using assms by (auto simp: books)
  moreover have "server_extra s2 x = server_extra s x" using assms by (auto simp: books)
  moreover have "server_extra (s2\<lparr>vita_addr := a\<rparr>) x = server_extra s2 x" for a by (simp add: server_extra_def server_owned_def)
  ultimately show ?thesis
    using assms 1 2
    by (auto simp: init_netctl_def Let_def error_netctlinit_books error_netctlgetinfo_books server_clean_def server_absent_def)
qed

lemma await_server_books:
  assumes "others_ok others"
  shows "server_fields (await_server E others n s) = server_fields s \<and> server_extra (await_server E others n s) x = server_extra s x"
proof (induction n arbitrary: s)
  case (Suc n)
  let ?c = "Kernel (sceKernelDelayThread 1000)"
  have "server_extra (exec E ?c s) x = server_extra s x" "server_fields (exec E ?c s) = server_fields s"
    by (simp_all add: server_extra_def server_owned_def server_fields_def)
  with Suc assms show ?case by (auto simp: others_ok_def)
qed simp

lemma close_server_books:
  "server_extra (close_server_socket E s) x = server_extra s x" "neg (server_sockfd (close_server_socket E s))"
  "server_fields (close_server_socket E s) = server_fields s"
  by (auto simp: close_server_socket_def Let_def server_fields_def not_le) (auto simp: books)

lemma init_server_books:
  assumes "server_absent s" and "others_ok others" and "init_server E others s = (ret, t)"
  shows "server_extra t x = server_extra s x \<and>
    (if ftp_initialized t then ret = 0 \<and> server_start_status t = 0 \<and> \<not> neg (client_list_mtx t) else server_clean t)"
proof -
  obtain r s1 where 1: "syscall E (Kernel (sceKernelCreateMutex ''FTPVita_client_list_mutex'')) s = (r, s1)" by fastforce
  let ?s1 = "s1\<lparr>client_list_mtx := rc r\<rparr>"
  obtain i s2 where 2: "syscall E (Kernel (sceKernelCreateThread ''FTPVita_server_thread'')) ?s1 = (i, s2)" by fastforce
  let ?s2 = "s2\<lparr>server_thid := rc i\<rparr>"
  obtain j s3 where 3: "syscall E (Kernel (sceKernelStartThread (rc i))) (reset_server ?s2) = (j, s3)" by fastforce
  let ?s4 = "await_server E others SERVER_START_TIMEOUT_MS s3"
  let ?s5 = "exec E (Kernel (sceKernelWaitThreadEnd (server_thid (close_server_socket E ?s4)))) (close_server_socket E ?s4)"
  note [simp] = server_syscall [OF 1] server_syscall [OF 2] server_syscall [OF 3]
  have ex: "server_extra ?s1 x = server_extra s x" "server_extra ?s2 x = server_extra s x" "server_extra s3 x = server_extra s x"
    using assms(1) by (auto simp: books server_absent_def reset_server_def)
  note w = await_server_books [OF assms(2), of E SERVER_START_TIMEOUT_MS s3 x]
  have f4: "server_fields ?s4 = server_fields s3" "server_extra ?s4 x = server_extra s x" using w ex by auto
  have f5: "server_fields ?s5 = server_fields s3" "server_extra ?s5 x = server_extra s x" "neg (server_sockfd ?s5)"
    using f4 close_server_books [of E ?s4] by (auto simp: server_fields_def server_extra_def server_owned_def)
  have ok: "server_extra (?s4\<lparr>ftp_initialized := True\<rparr>) x = server_extra ?s4 x" by (simp add: server_extra_def server_owned_def)
  consider "neg (rc r)" | "\<not> neg (rc r)" "neg (rc i)" | "\<not> neg (rc r)" "\<not> neg (rc i)" "neg (rc j)"
    | "\<not> neg (rc r)" "\<not> neg (rc i)" "\<not> neg (rc j)" "server_start_status ?s4 \<noteq> 0"
    | "\<not> neg (rc r)" "\<not> neg (rc i)" "\<not> neg (rc j)" "server_start_status ?s4 = 0" by blast
  then show ?thesis
  proof cases
    case 1
    with assms \<open>syscall E _ s = _\<close> ex show ?thesis
      by (auto simp: init_server_def server_absent_def server_clean_def error_netctlgetinfo_books)
  next
    case c: 2
    have "t = error_server_thread E ?s2" using assms(3) 1 2 c by (auto simp: init_server_def Let_def)
    with error_server_thread_books [of ?s2 E] c assms(1) ex show ?thesis by (auto simp: server_absent_def)
  next
    case c: 3
    have "(ret, t) = (rc j, error_server_start E s3)" using assms(3) 1 2 3 c by (simp add: init_server_def Let_def reset_server_def)
    with error_server_start_books [of s3 E] c assms(1) ex show ?thesis by (auto simp: server_absent_def reset_server_def)
  next
    case c: 4
    have "t = error_server_start E ?s5" using assms(3) 1 2 3 c by (auto simp: init_server_def Let_def reset_server_def)
    with error_server_start_books [of ?s5 E] f5 c assms(1) show ?thesis
      by (auto simp: server_absent_def reset_server_def server_fields_def)
  next
    case c: 5
    have "(ret, t) = (0, ?s4\<lparr>ftp_initialized := True\<rparr>)" using assms(3) 1 2 3 c by (simp add: init_server_def Let_def reset_server_def)
    moreover have "client_list_mtx ?s4 = rc r" using f4(1) by (simp add: server_fields_def reset_server_def)
    ultimately show ?thesis using c f4 ok by simp
  qed
qed

lemma ftpvita_init_books:
  assumes "server_clean s" and "\<not> ftp_initialized s" and "others_ok others" and "ftpvita_init E others s = ((ret, addr), t)"
  shows "server_extra t x = server_extra s x \<and>
    (if ftp_initialized t then ret = 0 \<and> server_start_status t = 0 \<and> \<not> neg (client_list_mtx t) else server_clean t)"
proof (cases "init_net E s")
  case (Inl y)
  with assms init_net_books [where E = E and x = x, OF assms(1,2)] show ?thesis
    by (cases y) (auto simp: ftpvita_init_def)
next
  case (Inr s1)
  have s1: "server_extra s1 x = server_extra s x" "server_absent s1" "netctl_init s1 \<noteq> 0"
    using init_net_books [where E = E and x = x, OF assms(1,2)] Inr by auto
  show ?thesis
  proof (cases "init_netctl E s1")
    case (Inl y)
    with Inr s1 assms init_netctl_books [where E = E and x = x, OF s1(2,3)] show ?thesis
      by (cases y) (auto simp: ftpvita_init_def)
  next
    case Inr2: (Inr y)
    obtain ip s2 where y: "y = (ip, s2)" by fastforce
    have s2: "server_extra s2 x = server_extra s x" "server_absent s2"
      using init_netctl_books [where E = E and x = x, OF s1(2,3)] Inr2 y s1(1) by auto
    have "init_server E others s2 = (ret, t)"
      using assms(2,4) Inr Inr2 y by (auto simp: ftpvita_init_def split: prod.splits)
    from init_server_books [OF s2(2) assms(3) this, of x] s2(1) show ?thesis by simp
  qed
qed

lemma reap_balance:
  "map fst tr = concat (map (\<lambda>t. [Kernel (sceKernelWaitThreadEnd t), Kernel (sceKernelDeleteThread t)]) ts) \<Longrightarrow>
   balance tr x = - (\<Sum>t \<leftarrow> ts. of_bool (x = Thread t))"
proof (induction ts arbitrary: tr)
  case (Cons t ts)
  then obtain r r' tr' where "tr = (Kernel (sceKernelWaitThreadEnd t), r) # (Kernel (sceKernelDeleteThread t), r') # tr'"
    "map fst tr' = concat (map (\<lambda>t. [Kernel (sceKernelWaitThreadEnd t), Kernel (sceKernelDeleteThread t)]) ts)"
    by (auto simp: map_eq_Cons_conv)
  with Cons.IH [of tr'] show ?case by (auto simp: delta_def)
qed simp

lemma registry_initialized [simp]: "registry (s\<lparr>ftp_initialized := b\<rparr>) ps = registry s ps"
  by (simp add: registry_def)

lemma close_server_list: "client_heap (close_server_socket E s) = client_heap s" "registry (close_server_socket E s) ps = registry s ps"
  by (simp_all add: close_server_socket_def Let_def registry_def)

lemma stop_server_thread_books:
  "neg (server_thid (stop_server_thread E s))" "client_list_mtx (stop_server_thread E s) = client_list_mtx s"
  "server_sockfd (stop_server_thread E s) = server_sockfd s" "net_init (stop_server_thread E s) = net_init s"
  "netctl_init (stop_server_thread E s) = netctl_init s" "net_memory (stop_server_thread E s) = net_memory s"
  "ftp_initialized (stop_server_thread E s) = ftp_initialized s" "client_heap (stop_server_thread E s) = client_heap s"
  "registry (stop_server_thread E s) ps = registry s ps"
  "server_extra (stop_server_thread E s) x = server_extra s x"
  by (auto simp: stop_server_thread_def Let_def registry_def) (auto simp: books)

text \<open>The last part of the shutdown releases what the server still owns.\<close>

lemma release_net_books:
  fixes s :: "'w ftp"
  assumes "neg (server_thid s)" and "neg (server_sockfd s)" and "\<not> ftp_initialized s" and "registry s []"
  shows "let t = release_net E ((delete_list_mutex E s)\<lparr>client_list := 0, number_clients := 0, transfer_active := 0,
             reboot_quiesce_requested := 0\<rparr>)
    in server_clean t \<and> \<not> ftp_initialized t \<and> registry t [] \<and> balance (trace t) x = balance (trace s) x - server_owned s x"
proof -
  let ?u = "delete_list_mutex E s"
  have u: "server_extra ?u x = server_extra s x" "neg (client_list_mtx ?u)" "neg (server_thid ?u)" "neg (server_sockfd ?u)"
    "\<not> ftp_initialized ?u" "client_heap ?u = client_heap s"
    using assms by (auto simp: delete_list_mutex_def) (auto simp: books)
  let ?v = "?u\<lparr>client_list := 0, number_clients := 0, transfer_active := 0, reboot_quiesce_requested := 0\<rparr>"
  have v: "balance (trace (release_net E v)) x = balance (trace v) x - of_bool (net_init v = 0 \<and> x = NetLib) -
      of_bool (netctl_init v = 0 \<and> x = NetCtl) - of_bool (net_memory v \<noteq> 0 \<and> x = Mem (net_memory v))"
    "server_thid (release_net E v) = server_thid v" "client_list_mtx (release_net E v) = client_list_mtx v"
    "server_sockfd (release_net E v) = server_sockfd v" "ftp_initialized (release_net E v) = ftp_initialized v"
    "net_init (release_net E v) = - 1" "netctl_init (release_net E v) = - 1" "net_memory (release_net E v) = 0"
    "registry (release_net E v) ps = registry v ps" for v :: "'w ftp" and ps
    by (auto simp: release_net_def Let_def delta_def registry_def)
  have "balance (trace ?v) x - of_bool (net_init ?v = 0 \<and> x = NetLib) - of_bool (netctl_init ?v = 0 \<and> x = NetCtl) -
      of_bool (net_memory ?v \<noteq> 0 \<and> x = Mem (net_memory ?v)) = server_extra ?u x"
    using u(2-4) by (simp add: server_extra_def server_owned_def)
  then have "balance (trace (release_net E ?v)) x = balance (trace s) x - server_owned s x"
    unfolding v(1) u(1) by (simp add: server_extra_def)
  moreover have "registry ?v []" using assms(4) u(6) by (simp add: registry_def)
  ultimately show ?thesis using u(2-5) by (simp add: server_clean_def v Let_def del: registry_def)
qed

lemma ftpvita_fini_books:
  assumes init: "ftp_initialized s" and reg: "registry s ps" and mtx: "\<not> neg (client_list_mtx s)"
  shows "\<exists>t. ftpvita_fini E s = Some t \<and> server_clean t \<and> \<not> ftp_initialized t \<and> registry t [] \<and>
    client_heap t = detached (set ps) (client_heap s) \<and>
    (\<forall>x. balance (trace t) x = balance (trace s) x - server_owned s x -
       (\<Sum>p \<leftarrow> ps. of_bool (x = Thread (thid (the (client_heap s p))))))"
proof -
  let ?s1 = "close_server_socket E (s\<lparr>ftp_initialized := False\<rparr>)"
  let ?s2 = "stop_server_thread E ?s1"
  have f1: "server_fields ?s1 = server_fields (s\<lparr>ftp_initialized := False\<rparr>)" "neg (server_sockfd ?s1)"
    "server_extra ?s1 x = server_extra s x" for x
    using close_server_books [of E "s\<lparr>ftp_initialized := False\<rparr>"] by (auto simp: server_extra_def server_owned_def)
  have s2: "client_list_mtx ?s2 = client_list_mtx s" "neg (server_sockfd ?s2)" "\<not> ftp_initialized ?s2" "registry ?s2 ps"
    "client_heap ?s2 = client_heap s" "server_extra ?s2 x = server_extra s x" for x
    using f1 reg by (auto simp: server_fields_def stop_server_thread_books close_server_list)
  have "\<not> neg (client_list_mtx ?s2)" using s2(1) mtx by simp
  from client_list_thread_end_eq [OF s2(4) this, of E] obtain u w tr tr' where
    run: "client_list_thread_end E ?s2 = Some u" and tr: "\<forall>x. balance tr x = 0"
    "map fst tr' = concat (map (\<lambda>p. let t = thid (the (client_heap ?s2 p)) in
      [Kernel (sceKernelWaitThreadEnd t), Kernel (sceKernelDeleteThread t)]) ps)"
    and u: "u = ?s2\<lparr>world := w, trace := trace ?s2 @ tr @ tr', client_list := 0,
      client_heap := detached (set ps) (client_heap ?s2), number_clients := 0, transfer_active := 0\<rparr>"
    and empty: "registry u []" by blast
  let ?threads = "\<lambda>x. \<Sum>p \<leftarrow> ps. of_bool (x = Thread (thid (the (client_heap s p))))"
  have reap: "balance tr' x = - ?threads x" for x
    using reap_balance [of tr' "map (\<lambda>p. thid (the (client_heap s p))) ps" x] tr(2) s2(5)
    by (simp add: Let_def comp_def)
  let ?t = "release_net E ((delete_list_mutex E u)\<lparr>client_list := 0, number_clients := 0, transfer_active := 0,
     reboot_quiesce_requested := 0\<rparr>)"
  have "ftpvita_fini E s = Some ?t" using init run by (simp add: ftpvita_fini_def)
  moreover have "neg (server_thid u)" "neg (server_sockfd u)" "\<not> ftp_initialized u" "server_owned u = server_owned ?s2"
    using s2 u by (simp_all add: stop_server_thread_books server_owned_def fun_eq_iff)
  then have t: "server_clean ?t \<and> \<not> ftp_initialized ?t \<and> registry ?t [] \<and>
      balance (trace ?t) x = balance (trace u) x - server_owned ?s2 x" for x
    using release_net_books [OF _ _ _ empty, where E = E and x = x] by (simp add: Let_def)
  have "balance (trace ?t) x = balance (trace s) x - server_owned s x - ?threads x" for x
    using t [of x] s2(6) [of x] tr(1) reap [of x] u by (simp add: server_extra_def)
  moreover have "client_heap ?t = detached (set ps) (client_heap s)"
    using s2(5) u by (simp add: release_net_def delete_list_mutex_def Let_def)
  ultimately show ?thesis using t by blast
qed

section \<open>The client list during the initialization\<close>

definition list_fields :: "'w ftp \<Rightarrow> (u32 \<Rightarrow> ftpvita_client_info option) \<times> u32 \<times> i32" where
  "list_fields s = (client_heap s, client_list s, number_clients s)"

lemma list_fields_calls [simp]:
  "list_fields (exec E c s) = list_fields s" "syscall E c s = (r, t) \<Longrightarrow> list_fields t = list_fields s"
  using syscall_list [of E c s r t] by (auto simp: list_fields_def)

lemma list_fields_upd [simp]:
  "list_fields (s\<lparr>net_memory := m\<rparr>) = list_fields s" "list_fields (s\<lparr>net_init := i\<rparr>) = list_fields s"
  "list_fields (s\<lparr>netctl_init := i\<rparr>) = list_fields s" "list_fields (s\<lparr>client_list_mtx := i\<rparr>) = list_fields s"
  "list_fields (s\<lparr>server_thid := i\<rparr>) = list_fields s" "list_fields (s\<lparr>server_sockfd := i\<rparr>) = list_fields s"
  "list_fields (s\<lparr>vita_addr := a\<rparr>) = list_fields s" "list_fields (s\<lparr>ftp_initialized := b\<rparr>) = list_fields s"
  "list_fields (reset_server s) = (client_heap s, 0, 0)"
  by (simp_all add: list_fields_def reset_server_def)

lemma list_fields_errors [simp]:
  "list_fields (error_netinit E s) = list_fields s" "list_fields (error_netctlinit E s) = list_fields s"
  "list_fields (error_netctlgetinfo E s) = list_fields s" "list_fields (error_server_thread E s) = list_fields s"
  "list_fields (error_server_start E s) = list_fields s" "list_fields (close_server_socket E s) = list_fields s"
  by (simp_all add: error_netinit_def error_netctlinit_def error_netctlgetinfo_def error_server_thread_def error_server_start_def
      close_server_socket_def Let_def)

lemma await_server_list:
  assumes "\<And>i f. list_fields (others i f) = list_fields f"
  shows "list_fields (await_server E others n s) = list_fields s"
  by (induction n arbitrary: s) (simp_all add: assms)

lemma init_net_list: "init_net E s = Inl (r, t) \<or> init_net E s = Inr t \<Longrightarrow> list_fields t = list_fields s"
  by (auto simp: init_net_def Let_def split: prod.splits if_splits)

lemma init_netctl_list: "init_netctl E s = Inl (r, t) \<or> init_netctl E s = Inr (ip, t) \<Longrightarrow> list_fields t = list_fields s"
  by (auto simp: init_netctl_def Let_def split: prod.splits if_splits)

lemma init_server_list:
  assumes "init_server E others s = (r, t)" and "\<And>i f. list_fields (others i f) = list_fields f"
  shows "list_fields t \<in> {list_fields s, (client_heap s, 0, 0)}"
proof -
  have heap: "client_heap u = client_heap v" if "list_fields u = list_fields v" for u v :: "'a ftp"
    using that by (simp add: list_fields_def)
  show ?thesis using assms(1)
    by (auto simp: init_server_def Let_def await_server_list [OF assms(2)] split: prod.splits if_splits
        dest!: list_fields_calls(2) dest: heap)
qed

lemma ftpvita_init_list:
  assumes "ftpvita_init E others s = ((r, addr), t)" and "\<And>i f. list_fields (others i f) = list_fields f"
  shows "list_fields t \<in> {list_fields s, (client_heap s, 0, 0)}"
proof -
  have heap: "client_heap u = client_heap v" if "list_fields u = list_fields v" for u v :: "'a ftp"
    using that by (simp add: list_fields_def)
  show ?thesis using assms(1)
    by (auto simp: ftpvita_init_def split: if_splits sum.splits prod.splits
        dest!: init_net_list [OF disjI1] init_net_list [OF disjI2] init_netctl_list [OF disjI1] init_netctl_list [OF disjI2]
        init_server_list [OF _ assms(2)] dest: heap)
qed

section \<open>Registration\<close>

lemma add_device_eq:
  "add_device n ds = Some ds' \<Longrightarrow> \<exists>as d bs. ds = as @ d # bs \<and> list_all device_valid as \<and> \<not> device_valid d \<and>
     ds' = as @ \<lparr>device_name = n, device_valid = True\<rparr> # bs"
proof (induction ds arbitrary: ds')
  case (Cons a ds)
  then show ?case
  proof (cases "device_valid a")
    case True
    with Cons obtain es where "add_device n ds = Some es" "ds' = a # es" by auto
    with Cons.IH [of es] obtain as d bs where "ds = as @ d # bs" "list_all device_valid as" "\<not> device_valid d"
      "es = as @ \<lparr>device_name = n, device_valid = True\<rparr> # bs" by blast
    with True \<open>ds' = a # es\<close> show ?thesis by (intro exI [of _ "a # as"] exI [of _ d] exI [of _ bs]) simp
  qed (auto intro!: exI [of _ "[]"])
qed simp

lemma add_device_full: "add_device n ds = None \<longleftrightarrow> list_all device_valid ds"
  by (induction ds) auto

lemma add_custom_full: "add_custom n f ds = None \<longleftrightarrow> list_all custom_valid ds"
  by (induction ds) auto

lemma find_custom_added: "add_custom n f ds = Some ds' \<Longrightarrow> find_custom n ds = None \<Longrightarrow> find_custom n ds' = Some f"
  by (induction ds arbitrary: ds') (auto split: if_splits)

lemma find_custom_others: "add_custom n f ds = Some ds' \<Longrightarrow> m \<noteq> n \<Longrightarrow> find_custom m ds' = find_custom m ds"
  by (induction ds arbitrary: ds') (auto split: if_splits)

lemma find_custom_either:
  "add_custom n f ds = Some ds' \<Longrightarrow> find_custom n ds = Some g \<Longrightarrow> find_custom n ds' = Some g \<or> find_custom n ds' = Some f"
  by (induction ds arbitrary: ds') (auto split: if_splits)

section \<open>Properties\<close>


definition stopped_server :: "ret list ftp" where
  "stopped_server = (script_ftp [answer 0, answer 0, answer_text ''10.0.0.2'', answer 2, answer 3, answer 0, answer 0] idle_client)
     \<lparr>ftp_initialized := False, server_thid := - 1, server_sockfd := - 1, client_list_mtx := - 1, netctl_init := - 1\<rparr>"

text \<open>A server thread that reports success at once.\<close>

definition prompt_thread :: "nat \<Rightarrow> ret list ftp \<Rightarrow> ret list ftp" where
  "prompt_thread i s = s\<lparr>server_start_status := 0\<rparr>"

lemma prompt_thread_ok: "others_ok prompt_thread"
  by (simp add: others_ok_def prompt_thread_def server_fields_def server_extra_def server_owned_def)

lemma await_prompt:
  assumes "server_start_status s = SERVER_START_PENDING"
  shows "await_server E prompt_thread 2000 s = prompt_thread 1999 (exec E (Kernel (sceKernelDelayThread 1000)) s)"
proof -
  have "await_server E prompt_thread n s = s" if "server_start_status s = 0" for n s
    using that by (cases n) simp_all
  then show ?thesis using await_server.simps(2) [of E prompt_thread 1999 s] assms by (simp add: prompt_thread_def)
qed

text \<open>A start that succeeds: the mutex is 2, the thread is 3.\<close>

lemma prompt_start:
  assumes "world s = [answer 0, answer 0, answer_text ''10.0.0.2'', answer 2, answer 3, answer 0, answer 0]" and "\<not> ftp_initialized s"
    and "\<And>c (u :: ret list ftp). (\<forall>d. c \<noteq> Io (sceIoDread d)) \<Longrightarrow> syscall E c u = syscall script_env c u"
  shows "\<exists>addr t. ftpvita_init E prompt_thread s = ((0, addr), t) \<and> world t = [] \<and> ftp_initialized t \<and> client_list_mtx t = 2"
  using assms(1,2)
  by (simp add: ftpvita_init_def init_net_def init_netctl_def init_server_def assms(3) script_syscall await_prompt reset_server_def
      prompt_thread_def exec_def Let_def) (simp_all add: answer_def answer_text_def)


text \<open>C31: shutdown releases everything. On an initialized server with any clients, \<open>ftpvita_fini\<close> returns with a server
  that is marked as down, owns nothing and has an empty client list; it has released exactly what the server
  owned, and deleted the thread of every connected client once. A second shutdown does nothing.\<close>

theorem fini_releases_all:
  assumes "ftp_initialized s" and "registry s ps" and "\<not> neg (client_list_mtx s)"
  shows "\<exists>t. ftpvita_fini E s = Some t \<and> server_clean t \<and> \<not> ftp_initialized t \<and> registry t [] \<and>
    (\<forall>x. balance (trace t) x = balance (trace s) x - server_owned s x -
       (\<Sum>p \<leftarrow> ps. of_bool (x = Thread (thid (the (client_heap s p)))))) \<and> ftpvita_fini E t = Some t"
  using ftpvita_fini_books [OF assms, of E] by (auto simp: ftpvita_fini_def)

theorem fini_releases_all_witness:
  "\<exists>t. ftpvita_fini script_env one_client = Some t \<and> server_clean t \<and> balance (trace t) (Thread 1) = - 1 \<and>
     balance (trace t) (Thread 3) = - 1 \<and> balance (trace t) (Sock 5) = - 1"
proof -
  have "ftp_initialized one_client" "\<not> neg (client_list_mtx one_client)" by (simp_all add: one_client_def script_ftp_def)
  from fini_releases_all [OF this(1) one_client_registry this(2), of script_env] show ?thesis
    by (auto simp: server_owned_def holds_def one_client_def script_ftp_def idle_client_def)
qed

text \<open>A custom command is dispatched after it has been registered. Registration fails exactly when every slot is
  in use. After it has succeeded, a name that was unknown is dispatched to the new handler, the name of a command of
  the server still to that command, and a name that was registered before to one of its two handlers; no
  other name changes.\<close>

theorem custom_command_dispatched:
  assumes "ftpvita_ext_add_custom_command cmd func s = (ok, t)"
  shows "(ok \<longleftrightarrow> \<not> list_all custom_valid (custom_command_dispatchers s)) \<and>
    (ok \<longrightarrow> (case get_dispatch_func cmd s of
        None \<Rightarrow> get_dispatch_func cmd t = Some (Custom func)
      | Some (Builtin c) \<Rightarrow> get_dispatch_func cmd t = Some (Builtin c)
      | Some (Custom g) \<Rightarrow> get_dispatch_func cmd t \<in> {Some (Custom g), Some (Custom func)})) \<and>
    (\<forall>c. c \<noteq> cmd \<longrightarrow> get_dispatch_func c t = get_dispatch_func c s)"
proof (cases "add_custom cmd func (custom_command_dispatchers s)")
  case None
  then show ?thesis using assms add_custom_full [of cmd func "custom_command_dispatchers s"]
    by (simp add: ftpvita_ext_add_custom_command_def)
next
  case (Some ds)
  then have t: "ok" "t = s\<lparr>custom_command_dispatchers := ds\<rparr>" "\<not> list_all custom_valid (custom_command_dispatchers s)"
    using assms add_custom_full [of cmd func "custom_command_dispatchers s"] by (auto simp: ftpvita_ext_add_custom_command_def)
  then show ?thesis
    using find_custom_added [OF Some] find_custom_others [OF Some] find_custom_either [OF Some]
    by (auto simp: get_dispatch_func_def split: option.splits)
qed

definition custom_slots :: "ret list ftp" where
  "custom_slots = (script_ftp [] idle_client)\<lparr>custom_command_dispatchers :=
     replicate MAX_CUSTOM_COMMANDS \<lparr>custom_cmd = None, custom_func = 0, custom_valid = False\<rparr>\<rparr>"

theorem custom_command_dispatched_witness:
  "\<exists>t. ftpvita_ext_add_custom_command ''PROM'' 77 custom_slots = (True, t) \<and> get_dispatch_func ''PROM'' t = Some (Custom 77)"
proof -
  obtain ok t where run: "ftpvita_ext_add_custom_command ''PROM'' 77 custom_slots = (ok, t)" by fastforce
  have "\<not> list_all custom_valid (custom_command_dispatchers custom_slots)"
    by (simp add: custom_slots_def numeral_eq_Suc)
  moreover have "get_dispatch_func ''PROM'' custom_slots = None"
    by (simp add: get_dispatch_func_def cmd_dispatch_table_def custom_slots_def numeral_eq_Suc)
  ultimately show ?thesis using custom_command_dispatched [OF run] run by simp
qed

text \<open>Deleting a custom command on a table with a free slot. The search compares the name with every slot until it
  matches, in use or not; a slot that was never used has no name. A name that is not registered is therefore
  compared with a null pointer (\<open>None\<close>), unless all sixteen slots have been used before.\<close>

theorem del_custom_reaches_null:
  assumes "as @ d # bs = custom_command_dispatchers s" and "custom_cmd d = None"
    and "\<forall>a \<in> set as. custom_cmd a \<noteq> None \<and> custom_cmd a \<noteq> Some cmd"
  shows "ftpvita_ext_del_custom_command cmd s = None"
proof -
  have "del_custom cmd (as @ d # bs) = None" using assms(3)
    by (induction as) (auto simp: assms(2))
  then show ?thesis by (simp add: ftpvita_ext_del_custom_command_def flip: assms(1))
qed

theorem del_custom_reaches_null_witness: "ftpvita_ext_del_custom_command ''PROM'' custom_slots = None"
  by (rule del_custom_reaches_null [of "[]" "\<lparr>custom_cmd = None, custom_func = 0, custom_valid = False\<rparr>"
        "replicate 15 \<lparr>custom_cmd = None, custom_func = 0, custom_valid = False\<rparr>"])
    (simp_all add: custom_slots_def numeral_eq_Suc)

text \<open>Deleting a device twice succeeds twice. \<open>ftpvita_del_device\<close> does not look at the \<open>valid\<close> flag of a slot: after a
  device has been deleted, deleting it again still reports success, as the name of a slot outlives its use.\<close>

theorem del_device_ignores_valid:
  assumes "ftpvita_del_device devname s = (True, t)"
  shows "ftpvita_del_device devname t = (True, t)"
proof -
  have twice: "del_device devname ds = Some es \<Longrightarrow> del_device devname es = Some es" for ds es
  proof (induction ds arbitrary: es)
    case (Cons d ds)
    then show ?case by (cases d) (auto split: if_splits)
  qed simp
  with assms show ?thesis by (auto simp: ftpvita_del_device_def split: option.splits)
qed

theorem del_device_ignores_valid_witness:
  "\<exists>t. ftpvita_del_device ''ux0:'' ((script_ftp [] idle_client)\<lparr>device_list := [\<lparr>device_name = ''ux0:'', device_valid = True\<rparr>]\<rparr>) = (True, t) \<and>
     device_list t = [\<lparr>device_name = ''ux0:'', device_valid = False\<rparr>] \<and> ftpvita_del_device ''ux0:'' t = (True, t)"
proof -
  let ?s = "(script_ftp [] idle_client)\<lparr>device_list := [\<lparr>device_name = ''ux0:'', device_valid = True\<rparr>]\<rparr>"
  let ?t = "?s\<lparr>device_list := [\<lparr>device_name = ''ux0:'', device_valid = False\<rparr>]\<rparr>"
  have "ftpvita_del_device ''ux0:'' ?s = (True, ?t)" by (simp add: ftpvita_del_device_def)
  with del_device_ignores_valid [OF this] show ?thesis by (intro exI [of _ ?t]) simp
qed

end
