(* ===== verification/Plugin_State.thy ===== *)
theory Plugin_State
  imports Ftp_Lifecycle
begin

text \<open>
  The state of the whole plugin: that of the FTP server (with the world and the trace), and the globals of
  \<^verbatim>\<open>cmd.c\<close>, \<^verbatim>\<open>cmd_definitions.c\<close>, \<^verbatim>\<open>net.c\<close> and \<^verbatim>\<open>main.c\<close>. C integers that are only used as flags are Booleans; the function
  pointer \<open>shellShot\<close> is an address, 0 for NULL.
\<close>

record 'w plugin =
  ftpd :: "'w ftp"
  shellShot :: u32
  shellshot_initialized :: bool
  shellshot_available :: bool
  loader_thid :: i32
  loader_sockfd :: i32
  active_client_sockfd :: i32
  loader_start_status :: i32
  run :: bool
  all_is_up :: bool
  net_connected :: bool
  net_thid :: i32
  netctl_cb_id :: i32
  desired_connected :: bool
  netctl_initialized :: bool

text \<open>A call with its answer, and a call whose answer is ignored.\<close>

definition ask :: "'w env \<Rightarrow> call \<Rightarrow> 'w plugin \<Rightarrow> ret \<times> 'w plugin" where
  "ask E c s = (case syscall E c (ftpd s) of (r, f) \<Rightarrow> (r, s\<lparr>ftpd := f\<rparr>))"

definition tell :: "'w env \<Rightarrow> call \<Rightarrow> 'w plugin \<Rightarrow> 'w plugin" where
  "tell E c s = snd (ask E c s)"

lemma tell_eq: "tell E c s = s\<lparr>ftpd := exec E c (ftpd s)\<rparr>"
  by (simp add: tell_def ask_def exec_def split: prod.split)

lemma ask_eq: "ask E c s = (fst (syscall E c (ftpd s)), s\<lparr>ftpd := snd (syscall E c (ftpd s))\<rparr>)"
  by (simp add: ask_def split: prod.split)

text \<open>The calls so far and the accounts of their resources.\<close>

abbreviation calls :: "'w plugin \<Rightarrow> event list" where
  "calls s \<equiv> trace (ftpd s)"

lemma calls_ask: "ask E c s = (r, t) \<Longrightarrow> calls t = calls s @ [(c, r)]"
  by (auto simp: ask_def dest: syscall_trace split: prod.splits)

lemma calls_tell: "calls (tell E c s) = calls s @ [(c, fst (ask E c s))]"
  by (simp add: tell_eq ask_eq)

end
