(* ===== verification/Archive.thy ===== *)
theory Archive
  imports Prelude "HOL-Library.Monad_Syntax"
begin

text \<open>
  The parts of \<^verbatim>\<open>package_installer.c\<close> that only look at memory: little-endian and big-endian numbers, the test
  of the paths in an archive, and the lookup in a \<^verbatim>\<open>param.sfo\<close> file.

  A buffer is the list of its bytes. Every access is checked: \<open>None\<close> is an access outside the buffer, which
  the theorems exclude. Offsets are natural numbers where the source computes them in 64 bits from
  32-bit fields, so that no sum wraps.
\<close>

unbundle bit_operations_syntax

section \<open>Bytes and numbers\<close>

definition byte_at :: "string \<Rightarrow> nat \<Rightarrow> u8 option" where
  "byte_at buf i = (if i < length buf then Some (of_char (buf ! i)) else None)"

definition read_le16 :: "string \<Rightarrow> nat \<Rightarrow> u16 option" where
  "read_le16 buf i = do {
     b0 \<leftarrow> byte_at buf i;
     b1 \<leftarrow> byte_at buf (i + 1);
     Some (ucast b0 OR push_bit 8 (ucast b1)) }"

definition read_le32 :: "string \<Rightarrow> nat \<Rightarrow> u32 option" where
  "read_le32 buf i = do {
     b0 \<leftarrow> byte_at buf i;
     b1 \<leftarrow> byte_at buf (i + 1);
     b2 \<leftarrow> byte_at buf (i + 2);
     b3 \<leftarrow> byte_at buf (i + 3);
     Some (ucast b0 OR push_bit 8 (ucast b1) OR push_bit 16 (ucast b2) OR push_bit 24 (ucast b3)) }"

definition read_be32 :: "string \<Rightarrow> nat \<Rightarrow> u32 option" where
  "read_be32 buf i = do {
     b0 \<leftarrow> byte_at buf i;
     b1 \<leftarrow> byte_at buf (i + 1);
     b2 \<leftarrow> byte_at buf (i + 2);
     b3 \<leftarrow> byte_at buf (i + 3);
     Some (push_bit 24 (ucast b0) OR push_bit 16 (ucast b1) OR push_bit 8 (ucast b2) OR ucast b3) }"

text \<open>The C library on a buffer: the bytes of a range, \<open>memchr\<close> for the terminator, and a string read up to its
  terminator (the second operand of \<open>strcmp\<close>).\<close>

definition mem_read :: "string \<Rightarrow> nat \<Rightarrow> nat \<Rightarrow> string option" where
  "mem_read buf i n = (if i + n \<le> length buf then Some (take n (drop i buf)) else None)"

definition has_nul :: "string \<Rightarrow> nat \<Rightarrow> nat \<Rightarrow> bool option" where
  "has_nul buf i n = map_option (\<lambda>bs. NUL \<in> set bs) (mem_read buf i n)"

definition string_at :: "string \<Rightarrow> nat \<Rightarrow> string option" where
  "string_at buf i = (if NUL \<in> set (drop i buf) then Some (cstr (drop i buf)) else None)"

function bounded_length_loop :: "string \<Rightarrow> nat \<Rightarrow> nat \<Rightarrow> nat \<Rightarrow> nat option" where
  "bounded_length_loop buf i limit n =
     (if n < limit
      then (case byte_at buf (i + n) of
              None \<Rightarrow> None
            | Some b \<Rightarrow> if b \<noteq> 0 then bounded_length_loop buf i limit (n + 1) else Some n)
      else Some n)"
  by pat_completeness auto
termination by (relation "measure (\<lambda>(buf, i, limit, n). limit - n)") auto

declare bounded_length_loop.simps [simp del]

definition bounded_string_length :: "string \<Rightarrow> nat \<Rightarrow> nat \<Rightarrow> nat option" where
  "bounded_string_length buf i limit = bounded_length_loop buf i limit 0"

section \<open>Paths in an archive\<close>

text \<open>The loop over the components; the argument is what is left from \<open>component\<close> on.\<close>

function safe_components :: "string \<Rightarrow> bool" where
  "safe_components component =
     (if component = [] then True
      else let name = takeWhile (\<lambda>c. c \<noteq> CHR ''/'') component; rest = drop (length name) component
           in if name = [] \<or> name = ''.'' \<or> name = ''..'' then False
              else if rest = [] \<or> tl rest = [] then True
              else safe_components (tl rest))"
  by pat_completeness auto
termination by (relation "measure length") auto

declare safe_components.simps [simp del]

definition is_safe_archive_path :: "string \<Rightarrow> bool" where
  "is_safe_archive_path path =
     (if path = [] \<or> path ! 0 = CHR ''/'' \<or> path ! 0 = CHR 0x5C \<or> CHR '':'' \<in> set path \<or> CHR 0x5C \<in> set path
      then False else safe_components path)"

section \<open>The system file\<close>

abbreviation INSTALL_ERROR_ARGUMENT :: i32 where "INSTALL_ERROR_ARGUMENT \<equiv> - 0x7101"
abbreviation INSTALL_ERROR_ARCHIVE :: i32 where "INSTALL_ERROR_ARCHIVE \<equiv> - 0x7102"
abbreviation INSTALL_ERROR_ARCHIVE_PATH :: i32 where "INSTALL_ERROR_ARCHIVE_PATH \<equiv> - 0x7103"
abbreviation INSTALL_ERROR_ARCHIVE_TYPE :: i32 where "INSTALL_ERROR_ARCHIVE_TYPE \<equiv> - 0x7104"
abbreviation INSTALL_ERROR_ARCHIVE_SIZE :: i32 where "INSTALL_ERROR_ARCHIVE_SIZE \<equiv> - 0x7105"
abbreviation INSTALL_ERROR_SFO :: i32 where "INSTALL_ERROR_SFO \<equiv> - 0x7106"
abbreviation INSTALL_ERROR_TITLE_ID :: i32 where "INSTALL_ERROR_TITLE_ID \<equiv> - 0x7107"
abbreviation INSTALL_ERROR_MEMORY :: i32 where "INSTALL_ERROR_MEMORY \<equiv> - 0x7108"
abbreviation INSTALL_ERROR_IO :: i32 where "INSTALL_ERROR_IO \<equiv> - 0x7109"

record SfoHeader =
  magic :: u32
  key_offset :: u32
  value_offset :: u32
  sfo_count :: u32

record SfoEntry =
  name_offset :: u16
  value_size :: u32
  data_offset :: u32

abbreviation (input) sizeof_SfoHeader :: nat where "sizeof_SfoHeader \<equiv> 20"
abbreviation (input) sizeof_SfoEntry :: nat where "sizeof_SfoEntry \<equiv> 16"

text \<open>The fields that the code reads of the packed structures.\<close>

definition sfo_header :: "string \<Rightarrow> SfoHeader option" where
  "sfo_header buf = do {
     m \<leftarrow> read_le32 buf 0;
     k \<leftarrow> read_le32 buf 8;
     v \<leftarrow> read_le32 buf 12;
     n \<leftarrow> read_le32 buf 16;
     Some \<lparr>magic = m, key_offset = k, value_offset = v, sfo_count = n\<rparr> }"

definition sfo_entry :: "string \<Rightarrow> nat \<Rightarrow> SfoEntry option" where
  "sfo_entry buf index = do {
     n \<leftarrow> read_le16 buf (sizeof_SfoHeader + sizeof_SfoEntry * index);
     v \<leftarrow> read_le32 buf (sizeof_SfoHeader + sizeof_SfoEntry * index + 4);
     d \<leftarrow> read_le32 buf (sizeof_SfoHeader + sizeof_SfoEntry * index + 12);
     Some \<lparr>name_offset = n, value_size = v, data_offset = d\<rparr> }"

text \<open>One turn of the loop: \<open>Inl e\<close> returns the error, \<open>Inr None\<close> continues, \<open>Inr (Some v)\<close> returns the value.\<close>

definition sfo_turn :: "string \<Rightarrow> SfoHeader \<Rightarrow> string \<Rightarrow> nat \<Rightarrow> nat \<Rightarrow> (i32 + string option) option" where
  "sfo_turn buf header key value_limit index = do {
     entry \<leftarrow> sfo_entry buf index;
     key_at \<leftarrow> Some (unat (key_offset header) + unat (name_offset entry));
     data_at \<leftarrow> Some (unat (value_offset header) + unat (data_offset entry));
     if length buf \<le> key_at \<or> length buf \<le> data_at \<or> value_size entry = 0 \<or>
        length buf - data_at < unat (value_size entry) then Some (Inl INSTALL_ERROR_SFO)
     else do {
       key_ends \<leftarrow> has_nul buf key_at (length buf - key_at);
       data_ends \<leftarrow> has_nul buf data_at (unat (value_size entry));
       if \<not> key_ends \<or> \<not> data_ends then Some (Inl INSTALL_ERROR_SFO)
       else do {
         name \<leftarrow> string_at buf key_at;
         if name \<noteq> key then Some (Inr None)
         else do {
           n \<leftarrow> bounded_string_length buf data_at (unat (value_size entry));
           n \<leftarrow> Some (if value_limit \<le> n then value_limit - 1 else n);
           bytes \<leftarrow> mem_read buf data_at n;
           Some (Inr (Some bytes)) } } } }"

function sfo_loop :: "string \<Rightarrow> SfoHeader \<Rightarrow> string \<Rightarrow> nat \<Rightarrow> nat \<Rightarrow> (i32 + string) option" where
  "sfo_loop buf header key value_limit index =
     (if index < unat (sfo_count header)
      then (case sfo_turn buf header key value_limit index of
              None \<Rightarrow> None
            | Some (Inl e) \<Rightarrow> Some (Inl e)
            | Some (Inr (Some v)) \<Rightarrow> Some (Inr v)
            | Some (Inr None) \<Rightarrow> sfo_loop buf header key value_limit (index + 1))
      else Some (Inl INSTALL_ERROR_SFO))"
  by pat_completeness auto
termination by (relation "measure (\<lambda>(buf, h, key, l, index). unat (sfo_count h) - index)") auto

declare sfo_loop.simps [simp del]

definition sfo_string :: "string \<Rightarrow> string \<Rightarrow> nat \<Rightarrow> (i32 + string) option" where
  "sfo_string buf key value_limit =
     (if length buf < sizeof_SfoHeader \<or> value_limit = 0 then Some (Inl INSTALL_ERROR_SFO)
      else do {
        header \<leftarrow> sfo_header buf;
        if magic header \<noteq> 0x46535000 \<or> (length buf - sizeof_SfoHeader) div sizeof_SfoEntry < unat (sfo_count header)
        then Some (Inl INSTALL_ERROR_SFO)
        else sfo_loop buf header key value_limit 0 })"

section \<open>Title identifiers\<close>

definition title_char :: "char \<Rightarrow> bool" where
  "title_char c \<longleftrightarrow> (65 \<le> (of_char c :: nat) \<and> (of_char c :: nat) \<le> 90) \<or> is_digit c"

definition valid_title_id :: "string \<Rightarrow> bool" where
  "valid_title_id title_id \<longleftrightarrow> length title_id = 9 \<and> list_all title_char title_id"

section \<open>Reading numbers\<close>

lemma byte_at_ok: "i < length buf \<Longrightarrow> byte_at buf i = Some (of_char (buf ! i))"
  by (simp add: byte_at_def)

lemma read_le_ok:
  "i + 2 \<le> length buf \<Longrightarrow> \<exists>n. read_le16 buf i = Some n"
  "i + 4 \<le> length buf \<Longrightarrow> \<exists>n. read_le32 buf i = Some n"
  "i + 4 \<le> length buf \<Longrightarrow> \<exists>n. read_be32 buf i = Some n"
  by (simp_all add: read_le16_def read_le32_def read_be32_def byte_at_ok)

text \<open>The bytes of a number, lowest first.\<close>

definition le_bytes :: "nat \<Rightarrow> nat \<Rightarrow> string" where
  "le_bytes n x = map (\<lambda>i. char_of (x div 256 ^ i)) [0..<n]"

lemma byte_at_append: "byte_at (pre @ bs) (length pre + i) = byte_at bs i"
  by (auto simp: byte_at_def)

lemma of_char_word: "(of_char c :: 'a::len word) = word_of_nat (of_char c)"
  by (simp add: of_nat_of_char)

lemma of_char_u8 [simp]: "(of_char c :: u8) = 0 \<longleftrightarrow> c = NUL"
proof -
  have "(of_char c :: nat) < 256" by (metis mod_less_divisor of_char_mod_256 zero_less_numeral)
  moreover have "256 dvd n \<longleftrightarrow> n = 0" if "n < 256" for n :: nat using that by (cases n) (auto dest: dvd_imp_le)
  ultimately have "(of_char c :: u8) = 0 \<longleftrightarrow> (of_char c :: nat) = 0"
    unfolding of_char_word by (simp add: word_of_nat_eq_0_iff)
  also have "\<dots> \<longleftrightarrow> c = NUL" using of_char_eq_iff [of c NUL, where 'a = nat] by simp
  finally show ?thesis .
qed

lemma byte_at_le_bytes: "i < n \<Longrightarrow> byte_at (le_bytes n x @ post) i = Some (word_of_nat (x div 256 ^ i))"
proof -
  have "(of_char (char_of (m :: nat)) :: u8) = word_of_nat m" for m
    unfolding of_char_word by (simp add: word_of_nat_eq_iff take_bit_eq_mod)
  then show "i < n \<Longrightarrow> ?thesis" by (simp add: byte_at_def le_bytes_def nth_append)
qed

text \<open>Byte \<open>k\<close> of a word, and a word put together from its bytes.\<close>

definition byte_of :: "'a::len word \<Rightarrow> nat \<Rightarrow> u8" where
  "byte_of w k = word_of_nat (unat w div 256 ^ k)"

lemma bit_byte_of: "8 \<le> LENGTH('a) \<Longrightarrow> bit (ucast (byte_of (w :: 'a::len word) k) :: 'a word) i \<longleftrightarrow> i < 8 \<and> bit w (8 * k + i)"
proof -
  have "unat w div 256 ^ k = drop_bit (8 * k) (unat w)" by (simp add: drop_bit_eq_div power_mult)
  then show "8 \<le> LENGTH('a) \<Longrightarrow> ?thesis" by (auto simp: byte_of_def bit_simps)
qed

lemma join_u16: "ucast (byte_of w 0) OR push_bit 8 (ucast (byte_of w 1)) = (w :: u16)" (is "?join = w")
proof (rule bit_word_eqI)
  fix i :: nat
  assume "i < LENGTH(16)"
  then have "i < 16" by simp
  then consider "i < 8" | "8 \<le> i" "i - 8 < 8" by linarith
  then show "bit ?join i = bit w i"
    using \<open>i < 16\<close> by cases (simp_all add: bit_or_iff bit_push_bit_iff bit_byte_of)
qed

lemma join_u32:
  "ucast (byte_of w 0) OR push_bit 8 (ucast (byte_of w 1)) OR push_bit 16 (ucast (byte_of w 2)) OR
     push_bit 24 (ucast (byte_of w 3)) = (w :: u32)" (is "?join = w")
proof (rule bit_word_eqI)
  fix i :: nat
  assume "i < LENGTH(32)"
  then have "i < 32" by simp
  then consider "i < 8" | "8 \<le> i" "i - 8 < 8" | "16 \<le> i" "i - 16 < 8" | "24 \<le> i" "i - 24 < 8" by linarith
  then show "bit ?join i = bit w i"
    using \<open>i < 32\<close> by cases (auto simp add: bit_or_iff bit_push_bit_iff bit_byte_of)
qed

lemma read_le_bytes:
  "read_le16 (pre @ le_bytes 2 (unat v) @ post) (length pre) = Some v"
  "read_le32 (pre @ le_bytes 4 (unat w) @ post) (length pre) = Some w"
  "read_be32 (pre @ rev (le_bytes 4 (unat w)) @ post) (length pre) = Some w"
proof -
  have at: "byte_at (pre @ bs) (length pre) = byte_at bs 0" "byte_at (pre @ bs) (Suc (length pre)) = byte_at bs 1"
    "byte_at (pre @ bs) (Suc (Suc (length pre))) = byte_at bs 2" for bs
    using byte_at_append [of pre bs 0] byte_at_append [of pre bs 1] byte_at_append [of pre bs 2] by simp_all
  have bytes: "byte_at (le_bytes n (unat v) @ post) i = Some (byte_of v i)" if "i < n" for v :: "'a::len word" and n i
    using byte_at_le_bytes [OF that] by (simp add: byte_of_def)
  show "read_le16 (pre @ le_bytes 2 (unat v) @ post) (length pre) = Some v"
    by (simp add: read_le16_def at byte_at_append bytes join_u16 [of v, simplified])
  show "read_le32 (pre @ le_bytes 4 (unat w) @ post) (length pre) = Some w"
    by (simp add: read_le32_def at byte_at_append bytes join_u32 [of w, simplified])
  have rev: "byte_at (rev (le_bytes 4 (unat w)) @ post) i = Some (byte_of w (3 - i))" if "i < 4" for i
    using that bytes [of "3 - i" 4 w] nth_upt [of 0 "3 - i" 4] by (simp add: byte_at_def rev_nth le_bytes_def nth_append)
  have "push_bit 24 (ucast (byte_of w 3)) OR push_bit 16 (ucast (byte_of w 2)) OR push_bit 8 (ucast (byte_of w 1)) OR
      ucast (byte_of w 0) = w"
    by (subst (4) join_u32 [of w, symmetric]) (simp only: or.commute or.left_commute or.assoc)
  then show "read_be32 (pre @ rev (le_bytes 4 (unat w)) @ post) (length pre) = Some w"
    by (simp add: read_be32_def at byte_at_append rev)
qed

section \<open>Lookup in the system file\<close>

lemma cstr_take_prefix: "k \<le> length (cstr (take n xs)) \<Longrightarrow> take k xs = take k (cstr (take n xs))"
proof (induction xs arbitrary: k n)
  case (Cons x xs)
  then show ?case by (cases n; cases k) (auto split: if_splits)
qed simp

lemma bounded_length_loop_eq:
  "n \<le> limit \<Longrightarrow> i + limit \<le> length buf \<Longrightarrow>
     bounded_length_loop buf i limit n = Some (n + length (cstr (take (limit - n) (drop (i + n) buf))))"
proof (induction buf i limit n rule: bounded_length_loop.induct)
  case (1 buf i limit n)
  show ?case
  proof (cases "n < limit")
    case True
    then have "take (limit - n) (drop (i + n) buf) = buf ! (i + n) # take (limit - Suc n) (drop (i + Suc n) buf)"
      using 1(3) by (simp add: take_Cons' Cons_nth_drop_Suc [symmetric])
    then show ?thesis using 1 True by (subst bounded_length_loop.simps) (simp add: byte_at_def)
  next
    case False
    with 1(2) show ?thesis by (subst bounded_length_loop.simps) simp
  qed
qed

lemma bounded_string_length_eq:
  "i + limit \<le> length buf \<Longrightarrow> bounded_string_length buf i limit = Some (length (cstr (take limit (drop i buf))))"
  by (simp add: bounded_string_length_def bounded_length_loop_eq)

text \<open>The name and the value of an entry, and the entries that the lookup accepts.\<close>

definition entry_key :: "string \<Rightarrow> SfoHeader \<Rightarrow> SfoEntry \<Rightarrow> string" where
  "entry_key buf h e = cstr (drop (unat (key_offset h) + unat (name_offset e)) buf)"

definition entry_value :: "string \<Rightarrow> SfoHeader \<Rightarrow> SfoEntry \<Rightarrow> string" where
  "entry_value buf h e = cstr (take (unat (value_size e)) (drop (unat (value_offset h) + unat (data_offset e)) buf))"

definition entry_ok :: "string \<Rightarrow> SfoHeader \<Rightarrow> SfoEntry \<Rightarrow> bool" where
  "entry_ok buf h e \<longleftrightarrow> NUL \<in> set (drop (unat (key_offset h) + unat (name_offset e)) buf) \<and>
     unat (value_offset h) + unat (data_offset e) + unat (value_size e) \<le> length buf \<and>
     NUL \<in> set (take (unat (value_size e)) (drop (unat (value_offset h) + unat (data_offset e)) buf))"

lemma sfo_turn_eq:
  assumes "sfo_entry buf index = Some e" and "0 < limit"
  shows "sfo_turn buf h key limit index =
    Some (if \<not> entry_ok buf h e then Inl INSTALL_ERROR_SFO
          else if entry_key buf h e \<noteq> key then Inr None
          else Inr (Some (take (limit - 1) (entry_value buf h e))))"
proof -
  let ?k = "unat (key_offset h) + unat (name_offset e)" and ?d = "unat (value_offset h) + unat (data_offset e)"
  let ?n = "unat (value_size e)"
  have unfold: "sfo_turn buf h key limit index =
     (if length buf \<le> ?k \<or> length buf \<le> ?d \<or> ?n = 0 \<or> length buf - ?d < ?n then Some (Inl INSTALL_ERROR_SFO)
      else if NUL \<notin> set (drop ?k buf) \<or> NUL \<notin> set (take ?n (drop ?d buf)) then Some (Inl INSTALL_ERROR_SFO)
      else if cstr (drop ?k buf) \<noteq> key then Some (Inr None)
      else do { n \<leftarrow> bounded_string_length buf ?d ?n; n \<leftarrow> Some (if limit \<le> n then limit - 1 else n);
        bytes \<leftarrow> mem_read buf ?d n; Some (Inr (Some bytes)) })"
    using assms(1) by (auto simp: sfo_turn_def has_nul_def mem_read_def string_at_def unat_eq_0 not_less)
  have found: "do { n \<leftarrow> bounded_string_length buf ?d ?n; n \<leftarrow> Some (if limit \<le> n then limit - 1 else n);
      bytes \<leftarrow> mem_read buf ?d n; Some (Inr (Some bytes)) } = Some (Inr (Some (take (limit - 1) (entry_value buf h e))))"
    if "?d + ?n \<le> length buf"
  proof -
    let ?v = "entry_value buf h e"
    have "length ?v \<le> ?n"
      unfolding entry_value_def cstr_def using length_takeWhile_le [of _ "take ?n (drop ?d buf)"] le_trans by fastforce
    moreover have "take k (drop ?d buf) = take k ?v" if "k \<le> length ?v" for k
      using that unfolding entry_value_def by (rule cstr_take_prefix)
    ultimately show ?thesis using that assms(2)
      by (simp add: bounded_string_length_eq mem_read_def flip: entry_value_def) auto
  qed
  show ?thesis
  proof (cases "entry_ok buf h e")
    case True
    then have nul: "drop ?k buf \<noteq> []" "?d + ?n \<le> length buf" "take ?n (drop ?d buf) \<noteq> []"
      unfolding entry_ok_def by (metis empty_iff list.set(1))+
    from nul(1) have "?k < length buf" by simp
    moreover from nul(3) have "?d < length buf" "0 < ?n" by auto
    moreover note nul(2)
    ultimately show ?thesis using True found unfolding unfold by (auto simp: entry_ok_def entry_key_def)
  next
    case False
    then show ?thesis unfolding unfold by (auto simp: entry_ok_def)
  qed
qed

lemma sfo_entry_ok: "20 + 16 * (index + 1) \<le> length buf \<Longrightarrow> \<exists>e. sfo_entry buf index = Some e"
  using read_le_ok(1) [of "20 + 16 * index" buf] read_le_ok(2) [of "20 + 16 * index + 4" buf]
    read_le_ok(2) [of "20 + 16 * index + 12" buf] by (auto simp: sfo_entry_def)

text \<open>What the loop finds: the first entry with the name, all entries up to it being well formed.\<close>

definition sfo_found :: "string \<Rightarrow> SfoHeader \<Rightarrow> string \<Rightarrow> nat \<Rightarrow> nat \<Rightarrow> string \<Rightarrow> bool" where
  "sfo_found buf h key limit index v \<longleftrightarrow> (\<exists>i e. index \<le> i \<and> i < unat (sfo_count h) \<and> sfo_entry buf i = Some e \<and>
     entry_ok buf h e \<and> entry_key buf h e = key \<and> v = take (limit - 1) (entry_value buf h e) \<and>
     (\<forall>j. index \<le> j \<and> j < i \<longrightarrow> (\<exists>d. sfo_entry buf j = Some d \<and> entry_ok buf h d \<and> entry_key buf h d \<noteq> key)))"

lemma sfo_found_skip:
  assumes e: "sfo_entry buf index = Some e" and skip: "entry_ok buf h e" "entry_key buf h e \<noteq> key"
  shows "sfo_found buf h key limit index = sfo_found buf h key limit (index + 1)"
proof (rule ext, rule iffI)
  fix v
  assume "sfo_found buf h key limit index v"
  then obtain i d where i: "index \<le> i" "i < unat (sfo_count h)" "sfo_entry buf i = Some d" "entry_ok buf h d"
    "entry_key buf h d = key" "v = take (limit - 1) (entry_value buf h d)"
    "\<forall>j. index \<le> j \<and> j < i \<longrightarrow> (\<exists>d. sfo_entry buf j = Some d \<and> entry_ok buf h d \<and> entry_key buf h d \<noteq> key)"
    unfolding sfo_found_def by blast
  moreover have "i \<noteq> index" using i(3,5) e skip by auto
  ultimately show "sfo_found buf h key limit (index + 1) v" unfolding sfo_found_def
    by (intro exI [of _ i] exI [of _ d]) auto
next
  fix v
  assume "sfo_found buf h key limit (index + 1) v"
  then obtain i d where i: "index + 1 \<le> i" "i < unat (sfo_count h)" "sfo_entry buf i = Some d" "entry_ok buf h d"
    "entry_key buf h d = key" "v = take (limit - 1) (entry_value buf h d)"
    "\<forall>j. index + 1 \<le> j \<and> j < i \<longrightarrow> (\<exists>d. sfo_entry buf j = Some d \<and> entry_ok buf h d \<and> entry_key buf h d \<noteq> key)"
    unfolding sfo_found_def by blast
  moreover have "\<exists>d. sfo_entry buf j = Some d \<and> entry_ok buf h d \<and> entry_key buf h d \<noteq> key"
    if "index \<le> j" "j < i" for j
    using that i(7) e skip by (cases "j = index") auto
  ultimately show "sfo_found buf h key limit index v" unfolding sfo_found_def
    by (intro exI [of _ i] exI [of _ d]) auto
qed

lemma sfo_loop_spec:
  assumes "20 + 16 * unat (sfo_count h) \<le> length buf" and "0 < limit"
  shows "\<exists>x. sfo_loop buf h key limit index = Some x \<and>
    (case x of Inl e \<Rightarrow> e = INSTALL_ERROR_SFO \<and> (\<nexists>v. sfo_found buf h key limit index v)
             | Inr v \<Rightarrow> sfo_found buf h key limit index v)"
  using assms
proof (induction buf h key limit index rule: sfo_loop.induct)
  case (1 buf h key limit index)
  show ?case
  proof (cases "index < unat (sfo_count h)")
    case True
    then obtain e where e: "sfo_entry buf index = Some e" using sfo_entry_ok [of index buf] 1(2) by fastforce
    note turn = sfo_turn_eq [OF e 1(3), of h key] and unfold = sfo_loop.simps [of buf h key limit index]
    consider "\<not> entry_ok buf h e" | "entry_ok buf h e" "entry_key buf h e = key" | "entry_ok buf h e" "entry_key buf h e \<noteq> key"
      by blast
    then show ?thesis
    proof cases
      case bad: 1
      then have "\<not> sfo_found buf h key limit index v" for v
        using e unfolding sfo_found_def by (metis le_neq_implies_less option.inject order_refl)
      then show ?thesis using bad turn True unfold by simp
    next
      case hit: 2
      then have "sfo_found buf h key limit index (take (limit - 1) (entry_value buf h e))"
        using e True unfolding sfo_found_def by (intro exI [of _ index] exI [of _ e]) auto
      then show ?thesis using hit turn True unfold by simp
    next
      case skip: 3
      then have step: "sfo_turn buf h key limit index = Some (Inr None)" using turn by simp
      show ?thesis unfolding sfo_found_skip [OF e skip] using 1(1) [OF True step refl refl 1(2,3)] unfold True step by simp
    qed
  next
    case False
    then show ?thesis by (subst sfo_loop.simps) (simp add: sfo_found_def)
  qed
qed

section \<open>Components of a path\<close>

fun split_slash :: "string \<Rightarrow> string list" where
  "split_slash [] = [[]]"
| "split_slash (c # p) =
     (if c = CHR ''/'' then [] # split_slash p
      else case split_slash p of [] \<Rightarrow> [[c]] | n # ns \<Rightarrow> (c # n) # ns)"

text \<open>The names in a path, a slash at its end being ignored.\<close>

definition path_names :: "string \<Rightarrow> string list" where
  "path_names p = (if last (split_slash p) = [] then butlast (split_slash p) else split_slash p)"

text \<open>Where a path leads from a directory, which is given by the names from the root.\<close>

fun resolve :: "string list \<Rightarrow> string list \<Rightarrow> string list" where
  "resolve dir [] = dir"
| "resolve dir (n # ns) =
     resolve (if n = [] \<or> n = ''.'' then dir else if n = ''..'' then butlast dir else dir @ [n]) ns"

lemma split_slash_not_Nil [simp]: "split_slash p \<noteq> []"
  by (cases p) (auto split: list.split)

lemma split_slash_one: "CHR ''/'' \<notin> set p \<Longrightarrow> split_slash p = [p]"
  by (induction p) auto

lemma split_slash_append: "CHR ''/'' \<notin> set n \<Longrightarrow> split_slash (n @ CHR ''/'' # p) = n # split_slash p"
  by (induction n) auto

lemma resolve_plain: "\<forall>n \<in> set ns. n \<notin> {[], ''.'', ''..''} \<Longrightarrow> resolve dir ns = dir @ ns"
  by (induction ns arbitrary: dir) auto

lemma resolve_append: "resolve dir (ms @ ns) = resolve (resolve dir ms) ns"
  by (induction ms arbitrary: dir) auto

lemma resolve_names: "resolve dir (split_slash p) = resolve dir (path_names p)"
proof (cases "last (split_slash p) = []")
  case True
  then have "split_slash p = butlast (split_slash p) @ [[]]" by (metis append_butlast_last_id split_slash_not_Nil)
  then have "resolve dir (split_slash p) = resolve dir (butlast (split_slash p) @ [[]])" by simp
  then show ?thesis using True by (simp add: path_names_def resolve_append)
qed (simp add: path_names_def)

lemma safe_components_iff: "p \<noteq> [] \<Longrightarrow> safe_components p \<longleftrightarrow> (\<forall>n \<in> set (path_names p). n \<notin> {[], ''.'', ''..''})"
proof (induction p rule: safe_components.induct)
  case (1 p)
  define n where "n = takeWhile (\<lambda>c. c \<noteq> CHR ''/'') p"
  define r where "r = drop (length n) p"
  have p: "p = n @ r" unfolding n_def r_def by (metis dropWhile_eq_drop takeWhile_dropWhile_id)
  have slash: "CHR ''/'' \<notin> set n" by (auto simp: n_def dest: set_takeWhileD)
  have step: "safe_components p \<longleftrightarrow> n \<notin> {[], ''.'', ''..''} \<and> (r = [] \<or> tl r = [] \<or> safe_components (tl r))"
    using 1(2) unfolding safe_components.simps [of p] Let_def n_def [symmetric] r_def [symmetric] by simp
  show ?case
  proof (cases "r = []")
    case True
    with p split_slash_one [OF slash] have "split_slash p = [n]" by simp
    then show ?thesis using step True 1(2) p by (simp add: path_names_def)
  next
    case False
    have "r = dropWhile (\<lambda>c. c \<noteq> CHR ''/'') p" unfolding r_def n_def by (rule dropWhile_eq_drop [symmetric])
    with False have "hd r = CHR ''/''" using hd_dropWhile [of "\<lambda>c. c \<noteq> CHR ''/''" p] by simp
    with False have "r = CHR ''/'' # tl r" by (cases r) simp_all
    then have split: "split_slash p = n # split_slash (tl r)" using p split_slash_append [OF slash, of "tl r"] by simp
    show ?thesis
    proof (cases "tl r = []")
      case True
      then show ?thesis using step split by (simp add: path_names_def)
    next
      case more: False
      then have "path_names p = n # path_names (tl r)" using split by (simp add: path_names_def)
      moreover have "safe_components (tl r) \<longleftrightarrow> (\<forall>n \<in> set (path_names (tl r)). n \<notin> {[], ''.'', ''..''})"
        if "n \<notin> {[], ''.'', ''..''}"
        using 1(1) [OF 1(2) n_def r_def _ _ more] that False more by auto
      ultimately show ?thesis using step False more by auto
    qed
  qed
qed

lemma safe_archive_path_iff:
  "is_safe_archive_path p \<longleftrightarrow> p \<noteq> [] \<and> CHR '':'' \<notin> set p \<and> CHR 0x5C \<notin> set p \<and>
     (\<forall>n \<in> set (path_names p). n \<notin> {[], ''.'', ''..''})"
proof (cases p)
  case (Cons c q)
  have "c = CHR ''/'' \<Longrightarrow> \<exists>n \<in> set (path_names p). n = []" using Cons
    by (cases "q = []") (auto simp: path_names_def)
  then show ?thesis using Cons safe_components_iff [of p] by (auto simp: is_safe_archive_path_def)
qed (simp add: is_safe_archive_path_def)

lemma sfo_string_spec:
  "\<exists>x. sfo_string buf key limit = Some x \<and>
     (case x of
        Inl e \<Rightarrow> e = INSTALL_ERROR_SFO \<and>
          (0 = limit \<or> (\<nexists>h. sfo_header buf = Some h \<and> magic h = 0x46535000 \<and>
            20 + 16 * unat (sfo_count h) \<le> length buf \<and> (\<exists>v. sfo_found buf h key limit 0 v)))
      | Inr v \<Rightarrow> length v < limit \<and> NUL \<notin> set v \<and>
          (\<exists>h. sfo_header buf = Some h \<and> magic h = 0x46535000 \<and> sfo_found buf h key limit 0 v))"
proof (cases "length buf < 20 \<or> limit = 0")
  case True
  moreover have "\<not> 20 + n \<le> length buf" if "length buf < 20" for n using that by simp
  ultimately show ?thesis by (auto simp: sfo_string_def)
next
  case False
  then obtain h where h: "sfo_header buf = Some h"
    using read_le_ok(2) [of 0 buf] read_le_ok(2) [of 8 buf] read_le_ok(2) [of 12 buf] read_le_ok(2) [of 16 buf]
    by (auto simp: sfo_header_def)
  have fits: "unat (sfo_count h) \<le> (length buf - 20) div 16 \<longleftrightarrow> 20 + 16 * unat (sfo_count h) \<le> length buf"
    using False by (simp add: less_eq_div_iff_mult_less_eq) linarith
  have bounded: "length v < limit \<and> NUL \<notin> set v" if "sfo_found buf h key limit 0 v" for v
    using that False cstr_no_NUL by (fastforce simp: sfo_found_def entry_value_def dest: in_set_takeD)
  show ?thesis
  proof (cases "magic h = 0x46535000 \<and> 20 + 16 * unat (sfo_count h) \<le> length buf")
    case True
    then have run: "sfo_string buf key limit = sfo_loop buf h key limit 0"
      using False h fits by (auto simp: sfo_string_def)
    from True False obtain x where x: "sfo_loop buf h key limit 0 = Some x"
      "case x of Inl e \<Rightarrow> e = INSTALL_ERROR_SFO \<and> (\<nexists>v. sfo_found buf h key limit 0 v) | Inr v \<Rightarrow> sfo_found buf h key limit 0 v"
      using sfo_loop_spec [of h buf limit key 0] by auto
    then show ?thesis using run h True bounded by (intro exI [of _ x]) (auto split: sum.splits)
  next
    case other: False
    then have "sfo_string buf key limit = Some (Inl INSTALL_ERROR_SFO)"
      using False h fits by (auto simp: sfo_string_def not_less)
    then show ?thesis using other h by auto
  qed
qed

lemma sfo_string_ok:
  "\<exists>x. sfo_string buf key limit = Some x \<and> (\<forall>e. x = Inl e \<longrightarrow> e = INSTALL_ERROR_SFO) \<and>
     (\<forall>v. x = Inr v \<longrightarrow> length v < limit \<and> NUL \<notin> set v)"
proof -
  obtain x where "sfo_string buf key limit = Some x" "case x of Inl e \<Rightarrow> e = INSTALL_ERROR_SFO | Inr v \<Rightarrow> length v < limit \<and> NUL \<notin> set v"
    using sfo_string_spec [of buf key limit] by (metis (no_types, lifting) sum.case_eq_if)
  then show ?thesis by (intro exI [of _ x]) (auto split: sum.splits)
qed

section \<open>Properties\<close>

text \<open>C17: the test of archive paths. \<open>is_safe_archive_path\<close> accepts exactly the paths without colon and backslash
  all of whose components are proper names (a slash at the end being ignored); and following an accepted path
  from any directory leads to the file with these names below that directory, so never outside of it.\<close>

theorem safe_archive_path_stays_inside:
  "(is_safe_archive_path p \<longleftrightarrow> p \<noteq> [] \<and> CHR '':'' \<notin> set p \<and> CHR 0x5C \<notin> set p \<and>
      (\<forall>n \<in> set (path_names p). n \<notin> {[], ''.'', ''..''})) \<and>
   (is_safe_archive_path p \<longrightarrow> path_names p \<noteq> [] \<and> resolve dir (split_slash p) = dir @ path_names p)"
proof -
  have "path_names p \<noteq> []" if "is_safe_archive_path p"
  proof
    assume none: "path_names p = []"
    then have "split_slash p = [[]]"
      by (metis append_butlast_last_id path_names_def self_append_conv2 split_slash_not_Nil)
    then have "p = []" by (cases p) (auto split: if_splits list.splits)
    with that show False by (simp add: is_safe_archive_path_def)
  qed
  then show ?thesis using resolve_plain [of "path_names p" dir] resolve_names [of dir p]
    by (auto simp: safe_archive_path_iff)
qed

theorem safe_archive_path_stays_inside_witness:
  "is_safe_archive_path ''sce_sys/livearea/'' \<and> \<not> is_safe_archive_path ''data/../../tai/config.txt'' \<and>
   resolve [''ux0:data''] (split_slash ''sce_sys/livearea/'') = [''ux0:data'', ''sce_sys'', ''livearea'']"
  using safe_archive_path_stays_inside [of "''sce_sys/livearea/''" "[''ux0:data'']"]
    safe_archive_path_stays_inside [of "''data/../../tai/config.txt''" "[]"] by (simp add: path_names_def)

text \<open>C36: the lookup in a system file never reads outside its buffer, whatever the file contains. It returns the value
  of the first entry with the given name, cut to the space of the caller, when all entries up to that one lie
  within the file and are terminated, and an error in every other case.\<close>

theorem sfo_string_finds:
  "\<exists>x. sfo_string buf key limit = Some x \<and>
     (case x of
        Inl e \<Rightarrow> e = INSTALL_ERROR_SFO \<and>
          \<not> (0 < limit \<and> (\<exists>h v. sfo_header buf = Some h \<and> magic h = 0x46535000 \<and>
            20 + 16 * unat (sfo_count h) \<le> length buf \<and> sfo_found buf h key limit 0 v))
      | Inr v \<Rightarrow> length v < limit \<and> NUL \<notin> set v \<and>
          (\<exists>h. sfo_header buf = Some h \<and> magic h = 0x46535000 \<and> sfo_found buf h key limit 0 v))"
proof -
  obtain x where "sfo_string buf key limit = Some x" and "case x of
        Inl e \<Rightarrow> e = INSTALL_ERROR_SFO \<and>
          (0 = limit \<or> (\<nexists>h. sfo_header buf = Some h \<and> magic h = 0x46535000 \<and>
            20 + 16 * unat (sfo_count h) \<le> length buf \<and> (\<exists>v. sfo_found buf h key limit 0 v)))
      | Inr v \<Rightarrow> length v < limit \<and> NUL \<notin> set v \<and>
          (\<exists>h. sfo_header buf = Some h \<and> magic h = 0x46535000 \<and> sfo_found buf h key limit 0 v)"
    using sfo_string_spec [of buf key limit] by blast
  then show ?thesis by (cases x) auto
qed

end
