(* ===== verification/Calls.thy ===== *)
theory Calls
  imports Sys "HOL-Library.Monad_Syntax"
begin

text \<open>
  Accounting for code that has no state but the system's: the package installer and parts of the command
  server. \<open>did A s D t\<close> says that the way from \<open>s\<close> to \<open>t\<close> consists of calls only, that all of them are of the
  kind \<open>A\<close>, and that they have acquired the resources \<open>D\<close> more often than released them.
\<close>

definition did :: "(call \<Rightarrow> bool) \<Rightarrow> ('w, 'z) sysst_scheme \<Rightarrow> (resource \<Rightarrow> int) \<Rightarrow> ('w, 'z) sysst_scheme \<Rightarrow> bool" where
  "did A s D t \<longleftrightarrow> (\<exists>w tr. t = s\<lparr>world := w, trace := trace s @ tr\<rparr> \<and> (\<forall>e \<in> set tr. A (fst e)) \<and> (\<forall>x. balance tr x = D x))"

abbreviation settled :: "(call \<Rightarrow> bool) \<Rightarrow> ('w, 'z) sysst_scheme \<Rightarrow> ('w, 'z) sysst_scheme \<Rightarrow> bool" where
  "settled A s t \<equiv> did A s (\<lambda>_. 0) t"

named_theorems flow \<open>rules that walk through the control flow of an operation\<close>
named_theorems charges \<open>rules for calls that acquire or release\<close>
named_theorems keeps \<open>rules for operations after which nothing more is owed\<close>

lemma did_refl: "(\<And>x. D x = 0) \<Longrightarrow> did A s D s"
  unfolding did_def by (intro exI [of _ "world s"] exI [of _ "[]"]) simp

lemma settled_refl [simp]: "settled A s s"
  by (simp add: did_refl)

lemma did_eq: "did A s D t \<Longrightarrow> (\<And>x. D' x = D x) \<Longrightarrow> did A s D' t"
  by (simp add: did_def)

lemma did_trans:
  assumes "did A s D t" and "did A t D' u"
  shows "did A s (\<lambda>x. D x + D' x) u"
proof -
  obtain w tr w' tr' where "t = s\<lparr>world := w, trace := trace s @ tr\<rparr>" "\<forall>e \<in> set tr. A (fst e)" "\<forall>x. balance tr x = D x"
    "u = t\<lparr>world := w', trace := trace t @ tr'\<rparr>" "\<forall>e \<in> set tr'. A (fst e)" "\<forall>x. balance tr' x = D' x"
    using assms unfolding did_def by blast
  then show ?thesis unfolding did_def by (intro exI [of _ w'] exI [of _ "tr @ tr'"]) auto
qed

lemma did_settled: "did A s D t \<Longrightarrow> settled A t u \<Longrightarrow> did A s D u"
  using did_trans [of A s D t "\<lambda>_. 0" u] by simp

lemma did_mono: "did A s D t \<Longrightarrow> (\<And>c. A c \<Longrightarrow> B c) \<Longrightarrow> did B s D t"
  unfolding did_def by blast

lemma did_balance: "did A s D t \<Longrightarrow> balance (trace t) x = balance (trace s) x + D x"
  by (auto simp: did_def)

lemma did_more: "did A s D t \<Longrightarrow> sysst.more t = sysst.more s"
  by (auto simp: did_def)

lemma did_trace: "did A s D t \<Longrightarrow> \<exists>tr. trace t = trace s @ tr \<and> (\<forall>e \<in> set tr. A (fst e))"
  by (auto simp: did_def)

lemma did_one: "syscall E c t = (r, u) \<Longrightarrow> A c \<Longrightarrow> did A t (\<lambda>x. delta (c, r) x) u"
  unfolding did_def syscall_def by (auto intro!: exI [of _ "world u"] exI [of _ "[(c, r)]"] split: prod.splits)

lemma did_syscall [charges]:
  "syscall E c t = (r, u) \<Longrightarrow> A c \<Longrightarrow> did A s (\<lambda>x. D x - delta (c, r) x) t \<Longrightarrow> did A s D u"
  using did_trans [OF _ did_one, of A s "\<lambda>x. D x - delta (c, r) x" t E c r u] by simp

lemma did_exec:
  assumes "A c" and "\<And>r. did A s (\<lambda>x. D x - delta (c, r) x) t"
  shows "did A s D (exec E c t)"
  unfolding exec_def by (rule did_syscall [OF _ assms]) (rule prod.collapse [symmetric])

lemma did_neutral: "neutral c \<Longrightarrow> syscall E c t = (r, u) \<Longrightarrow> A c \<Longrightarrow> did A s D t \<Longrightarrow> did A s D u"
  using did_syscall [of E c t r u A s D] by (simp add: neutral_def delta_def)

lemma settled_call: "syscall E c s = (r, u) \<Longrightarrow> neutral c \<Longrightarrow> A c \<Longrightarrow> settled A s u"
  using did_neutral [of c E s r u A s "\<lambda>_. 0"] by simp

lemmas did_neutral_calls [keeps] = neutral_calls [THEN did_neutral] neutral_app_calls [THEN did_neutral]

text \<open>An operation with a result meets its contract if each of its branches ends with a result \<open>v\<close> that satisfies
  \<open>Q\<close> and owing the resources \<open>F v\<close>; most operations owe nothing.\<close>

definition leaves ::
  "(call \<Rightarrow> bool) \<Rightarrow> ('w, 'z) sysst_scheme \<Rightarrow> ('a \<Rightarrow> resource \<Rightarrow> int) \<Rightarrow> ('a \<Rightarrow> bool) \<Rightarrow> ('a \<times> ('w, 'z) sysst_scheme) option \<Rightarrow> bool" where
  "leaves A s F Q y \<longleftrightarrow> (\<forall>v t. y = Some (v, t) \<longrightarrow> did A s (F v) t \<and> Q v)"

abbreviation meets :: "(call \<Rightarrow> bool) \<Rightarrow> ('w, 'z) sysst_scheme \<Rightarrow> ('a \<Rightarrow> bool) \<Rightarrow> ('a \<times> ('w, 'z) sysst_scheme) option \<Rightarrow> bool" where
  "meets A s Q y \<equiv> leaves A s (\<lambda>_ _. 0) Q y"

lemma leavesI [flow]: "did A s (F v) t \<Longrightarrow> Q v \<Longrightarrow> leaves A s F Q (Some (v, t))"
  by (simp add: leaves_def)

lemma leaves_None [flow]: "leaves A s F Q None"
  by (simp add: leaves_def)

lemma leaves_case_prod [flow]:
  "(\<And>r u. m = (r, u) \<Longrightarrow> leaves A s F Q (f r u)) \<Longrightarrow> leaves A s F Q (case m of (r, u) \<Rightarrow> f r u)"
  by (simp split: prod.split)

lemma leaves_case_prod_app [flow]:
  "(\<And>r u. m = (r, u) \<Longrightarrow> leaves A s F Q (f r u x)) \<Longrightarrow> leaves A s F Q ((case m of (r, u) \<Rightarrow> f r u) x)"
  by (simp split: prod.split)

lemma leaves_let [flow]: "leaves A s F Q (f x) \<Longrightarrow> leaves A s F Q (let v = x in f v)"
  by (simp add: Let_def)

lemma leaves_if [flow]:
  "(b \<Longrightarrow> leaves A s F Q t) \<Longrightarrow> (\<not> b \<Longrightarrow> leaves A s F Q u) \<Longrightarrow> leaves A s F Q (if b then t else u)"
  by simp

lemma leaves_option [flow]:
  "(x = None \<Longrightarrow> leaves A s F Q t) \<Longrightarrow> (\<And>v. x = Some v \<Longrightarrow> leaves A s F Q (f v)) \<Longrightarrow>
   leaves A s F Q (case x of None \<Rightarrow> t | Some v \<Rightarrow> f v)"
  by (cases x) simp_all

lemma leaves_sum [flow]:
  "(\<And>v. x = Inl v \<Longrightarrow> leaves A s F Q (f v)) \<Longrightarrow> (\<And>v. x = Inr v \<Longrightarrow> leaves A s F Q (g v)) \<Longrightarrow>
   leaves A s F Q (case x of Inl v \<Rightarrow> f v | Inr v \<Rightarrow> g v)"
  by (cases x) simp_all

lemma leaves_bind [flow]: "(\<And>v. x = Some v \<Longrightarrow> leaves A s F Q (f v)) \<Longrightarrow> leaves A s F Q (x \<bind> f)"
  by (cases x) (simp_all add: leaves_def)

text \<open>A call whose result is returned as it is.\<close>

lemma leaves_tail:
  "(\<And>v t. x = Some (v, t) \<Longrightarrow> did A s (F v) t) \<Longrightarrow> (\<And>v t. x = Some (v, t) \<Longrightarrow> Q v) \<Longrightarrow> leaves A s F Q x"
  by (simp add: leaves_def)

lemma leaves_from: "settled A s t \<Longrightarrow> leaves A t F Q y \<Longrightarrow> leaves A s F Q y"
  using did_trans [of A s "\<lambda>_. 0" t] by (fastforce simp: leaves_def)

lemma meetsI: "(\<And>v t. y = Some (v, t) \<Longrightarrow> settled A s t \<and> Q v) \<Longrightarrow> meets A s Q y"
  by (simp add: leaves_def)

lemma meetsD: "meets A s Q (Some (v, t)) \<Longrightarrow> settled A s t \<and> Q v"
  by (simp add: leaves_def)

lemma keep_of: "meets A t Q y \<Longrightarrow> y = Some (v, u) \<Longrightarrow> did A s D t \<Longrightarrow> did A s D u"
  by (auto simp: leaves_def intro: did_settled)

lemma keep_if: "(if b then Some (x, t) else y) = Some (v, u) \<Longrightarrow> meets A t Q y \<Longrightarrow> did A s D t \<Longrightarrow> did A s D u"
  by (auto simp: leaves_def intro: did_settled split: if_splits)

lemma charge_of: "leaves A t F Q y \<Longrightarrow> y = Some (v, u) \<Longrightarrow> did A s (\<lambda>x. D x - F v x) t \<Longrightarrow> did A s D u"
  using did_trans [of A s "\<lambda>x. D x - F v x" t "F v" u] by (simp add: leaves_def)

end
