(* ===== verification/Package_Files.thy ===== *)
theory Package_Files
  imports Archive Calls
begin

text \<open>
  The file operations of \<^verbatim>\<open>package_installer.c\<close>: removing a tree, creating directories, complete reads and writes,
  unpacking one member of an archive, finding the central directory, and unpacking an archive into the
  staging directory.

  Functions whose loops depend on the system (directory listings, short reads, the decompressor) are partial:
  \<open>None\<close> is no return. They return the C result and the state. A fixed buffer starts with zeros where the
  source leaves it uninitialized; it is only looked at after it has been filled.
\<close>

section \<open>Directories\<close>

abbreviation (input) INSTALL_PATH_MAX :: nat where "INSTALL_PATH_MAX \<equiv> 1024"

definition INSTALL_STAGE :: string where
  "INSTALL_STAGE = ''ux0:data/vitacompanion-package''"

text \<open>\<open>remove_tree\<close> (without a handle) and the loop over the entries of an open directory (with its handle).\<close>

partial_function (option) remove_at ::
  "'w env \<Rightarrow> string \<Rightarrow> i32 option \<Rightarrow> ('w, 'z) sysst_scheme \<Rightarrow> (i32 \<times> ('w, 'z) sysst_scheme) option" where
  "remove_at E path handle s =
     (case handle of
        None \<Rightarrow>
          (let (r, s) = syscall E (Io (sceIoGetstat (Some path))) s
           in if neg (rc r) then Some (0, s)
              else if \<not> SCE_S_ISDIR E (st_mode (stat r))
              then let (r, s) = syscall E (Io (sceIoRemove (Some path))) s in Some (rc r, s)
              else let (r, s) = syscall E (Io (sceIoDopen (Some path))) s; directory = rc r
                   in if neg directory then Some (directory, s)
                      else do {
                        (result, s) \<leftarrow> remove_at E path (Some directory) s;
                        let (_, s) = syscall E (Io (sceIoDclose directory)) s;
                        if neg result then Some (result, s)
                        else let (r, s) = syscall E (Io (sceIoRmdir (Some path))) s in Some (rc r, s) })
      | Some directory \<Rightarrow>
          (let (r, s) = syscall E (Io (sceIoDread directory)) s
           in if sint (rc r) \<le> 0 then Some (rc r, s)
              else if d_name r = ''.'' \<or> d_name r = ''..'' then remove_at E path (Some directory) s
              else let child = path @ ''/'' @ d_name r
                   in if INSTALL_PATH_MAX \<le> length child then Some (INSTALL_ERROR_ARCHIVE_PATH, s)
                      else do {
                        (result, s) \<leftarrow> remove_at E child None s;
                        if neg result then Some (result, s) else remove_at E path (Some directory) s }))"

definition remove_tree :: "'w env \<Rightarrow> string \<Rightarrow> ('w, 'z) sysst_scheme \<Rightarrow> (i32 \<times> ('w, 'z) sysst_scheme) option" where
  "remove_tree E path s = remove_at E path None s"

text \<open>A directory that may exist already.\<close>

definition make_directory :: "'w env \<Rightarrow> string \<Rightarrow> ('w, 'z) sysst_scheme \<Rightarrow> i32 \<times> ('w, 'z) sysst_scheme" where
  "make_directory E current s =
     (let (r, s) = syscall E (Io (sceIoMkdir (Some current))) s; result = rc r
      in if neg result
         then let (r, s) = syscall E (Io (sceIoGetstat (Some current))) s
              in if neg (rc r) \<or> \<not> SCE_S_ISDIR E (st_mode (stat r)) then (result, s) else (0, s)
         else (0, s))"

text \<open>The loop of \<open>ensure_directory\<close>; \<open>cursor\<close> is an index into \<open>current\<close>.\<close>

function make_parents :: "'w env \<Rightarrow> string \<Rightarrow> nat \<Rightarrow> ('w, 'z) sysst_scheme \<Rightarrow> i32 \<times> ('w, 'z) sysst_scheme" where
  "make_parents E current cursor s =
     (if length current \<le> cursor then (0, s)
      else if current ! cursor \<noteq> CHR ''/'' then make_parents E current (cursor + 1) s
      else if 0 < cursor \<and> current ! (cursor - 1) \<noteq> CHR '':''
      then let (result, s) = make_directory E (take cursor current) s
           in if neg result then (result, s) else make_parents E current (cursor + 1) s
      else make_parents E current (cursor + 1) s)"
  by pat_completeness auto
termination by (relation "measure (\<lambda>(E, current, cursor, s). length current - cursor)") auto

declare make_parents.simps [simp del]

definition ensure_directory :: "'w env \<Rightarrow> string \<Rightarrow> ('w, 'z) sysst_scheme \<Rightarrow> i32 \<times> ('w, 'z) sysst_scheme" where
  "ensure_directory E path s =
     (if length path = 0 \<or> INSTALL_PATH_MAX \<le> length path then (INSTALL_ERROR_ARCHIVE_PATH, s)
      else let (result, s) = (if CHR '':'' \<in> set path
                              then make_parents E path (length (takeWhile (\<lambda>c. c \<noteq> CHR '':'') path)) s else (0, s))
           in if neg result then (result, s) else make_directory E path s)"

definition ensure_parent_directory :: "'w env \<Rightarrow> string \<Rightarrow> ('w, 'z) sysst_scheme \<Rightarrow> i32 \<times> ('w, 'z) sysst_scheme" where
  "ensure_parent_directory E path s =
     (if length path = 0 \<or> INSTALL_PATH_MAX \<le> length path then (INSTALL_ERROR_ARCHIVE_PATH, s)
      else if CHR ''/'' \<notin> set path then (INSTALL_ERROR_ARCHIVE_PATH, s)
      else ensure_directory E (take (length path - Suc (length (takeWhile (\<lambda>c. c \<noteq> CHR ''/'') (rev path)))) path) s)"

section \<open>Complete reads and writes\<close>

text \<open>What \<open>read_at\<close> has stored in the buffer is returned with the result.\<close>

partial_function (option) read_loop ::
  "'w env \<Rightarrow> i32 \<Rightarrow> u32 \<Rightarrow> u32 \<Rightarrow> string \<Rightarrow> ('w, 'z) sysst_scheme \<Rightarrow> ((i32 \<times> string) \<times> ('w, 'z) sysst_scheme) option" where
  "read_loop E file len finished buffer s =
     (if finished < len
      then let (r, s) = syscall E (Io (sceIoRead file (len - finished))) s
           in if sint (rc r) \<le> 0 then Some ((if neg (rc r) then rc r else INSTALL_ERROR_IO, buffer), s)
              else read_loop E file len (finished + rc r)
                     (take (unat finished) buffer @ fill r (len - finished) (drop (unat finished) buffer)) s
      else Some ((0, buffer), s))"

definition read_at ::
  "'w env \<Rightarrow> i32 \<Rightarrow> i64 \<Rightarrow> u32 \<Rightarrow> ('w, 'z) sysst_scheme \<Rightarrow> ((i32 \<times> string) \<times> ('w, 'z) sysst_scheme) option" where
  "read_at E file offset len s =
     (let (r, s) = syscall E (Io (sceIoLseek file offset SCE_SEEK_SET)) s
      in if neg (off r) then Some ((INSTALL_ERROR_IO, replicate (unat len) NUL), s)
         else read_loop E file len 0 (replicate (unat len) NUL) s)"

partial_function (option) write_loop ::
  "'w env \<Rightarrow> i32 \<Rightarrow> string \<Rightarrow> u32 \<Rightarrow> u32 \<Rightarrow> ('w, 'z) sysst_scheme \<Rightarrow> (i32 \<times> ('w, 'z) sysst_scheme) option" where
  "write_loop E file buffer len finished s =
     (if finished < len
      then let (r, s) = syscall E (Io (sceIoWrite file (take (unat (len - finished)) (drop (unat finished) buffer)))) s
           in if sint (rc r) \<le> 0 then Some (if neg (rc r) then rc r else INSTALL_ERROR_IO, s)
              else write_loop E file buffer len (finished + rc r) s
      else Some (0, s))"

definition write_all :: "'w env \<Rightarrow> i32 \<Rightarrow> string \<Rightarrow> u32 \<Rightarrow> ('w, 'z) sysst_scheme \<Rightarrow> (i32 \<times> ('w, 'z) sysst_scheme) option" where
  "write_all E file buffer len s = write_loop E file buffer len 0 s"

section \<open>A member of an archive\<close>

abbreviation (input) INSTALL_IO_BUFFER :: u32 where "INSTALL_IO_BUFFER \<equiv> 64 * 1024"
abbreviation (input) Z_OK :: i32 where "Z_OK \<equiv> 0"
abbreviation (input) Z_STREAM_END :: i32 where "Z_STREAM_END \<equiv> 1"

record unpack =
  compressed_left :: u32
  checksum :: u32
  produced_total :: u32

definition chunk_size :: "u32 \<Rightarrow> u32" where
  "chunk_size n = (if n < INSTALL_IO_BUFFER then n else INSTALL_IO_BUFFER)"

function stored_loop ::
  "'w env \<Rightarrow> i32 \<Rightarrow> i32 \<Rightarrow> unpack \<Rightarrow> ('w, 'z) sysst_scheme \<Rightarrow> ((i32 \<times> unpack) \<times> ('w, 'z) sysst_scheme) option" where
  "stored_loop E input output z s =
     (if 0 < compressed_left z
      then let n = chunk_size (compressed_left z); (r, s) = syscall E (Io (sceIoRead input n)) s
           in if rc r \<noteq> n then Some ((if neg (rc r) then rc r else INSTALL_ERROR_IO, z), s)
              else do {
                let z = z\<lparr>checksum := crc32 E (checksum z) (stored r n)\<rparr>;
                (result, s) \<leftarrow> write_all E output (stored r n) n s;
                if neg result then Some ((result, z), s)
                else stored_loop E input output
                       (z\<lparr>compressed_left := compressed_left z - n, produced_total := produced_total z + n\<rparr>) s }
      else Some ((0, z), s))"
  by pat_completeness auto
termination
proof (relation "measure (\<lambda>(E, input, output, z, s). unat (compressed_left z))", goal_cases)
  case (2 E fd fd2 z s n p r s1 z1 q result t)
  have "0 < n" "n \<le> compressed_left z" using 2(1,2) by (auto simp: chunk_size_def not_less)
  then show ?case using 2 by (auto simp: unat_sub word_less_nat_alt word_le_nat_alt)
qed auto

declare stored_loop.simps [simp del]

text \<open>Refilling the input of the decompressor; a negative result is an error. \<open>pending\<close> is the input that is left.\<close>

definition refill ::
  "'w env \<Rightarrow> i32 \<Rightarrow> string \<Rightarrow> unpack \<Rightarrow> ('w, 'z) sysst_scheme \<Rightarrow> (i32 \<times> string \<times> unpack) \<times> ('w, 'z) sysst_scheme" where
  "refill E input pending z s =
     (if pending = [] \<and> 0 < compressed_left z
      then let n = chunk_size (compressed_left z); (r, s) = syscall E (Io (sceIoRead input n)) s
           in if rc r \<noteq> n then ((if neg (rc r) then rc r else INSTALL_ERROR_IO, pending, z), s)
              else ((0, stored r n, z\<lparr>compressed_left := compressed_left z - n\<rparr>), s)
      else ((0, pending, z), s))"

text \<open>What a call of \<open>inflate\<close> leaves: word 0 of its answer is \<open>avail_in\<close>, word 1 is \<open>avail_out\<close>, and the output buffer
  is its memory.\<close>

definition inflate_rest :: "string \<Rightarrow> ret \<Rightarrow> string" where
  "inflate_rest pending r = drop (length pending - unat (out r 0)) pending"

definition inflate_produced :: "ret \<Rightarrow> u32" where
  "inflate_produced r = INSTALL_IO_BUFFER - out r 1"

definition inflate_output :: "ret \<Rightarrow> string" where
  "inflate_output r = map (mem r) [0..<min (unat (inflate_produced r)) 0x10000]"

text \<open>Checking and writing what was produced.\<close>

definition put_output ::
  "'w env \<Rightarrow> i32 \<Rightarrow> ret \<Rightarrow> unpack \<Rightarrow> ('w, 'z) sysst_scheme \<Rightarrow> ((i32 \<times> unpack) \<times> ('w, 'z) sysst_scheme) option" where
  "put_output E output r z s =
     (if 0 < inflate_produced r
      then do {
        let z = z\<lparr>checksum := crc32 E (checksum z) (inflate_output r)\<rparr>;
        (result, s) \<leftarrow> write_all E output (inflate_output r) (inflate_produced r) s;
        if neg result then Some ((result, z), s)
        else Some ((result, z\<lparr>produced_total := produced_total z + inflate_produced r\<rparr>), s) }
      else Some ((0, z), s))"

partial_function (option) inflate_loop ::
  "'w env \<Rightarrow> i32 \<Rightarrow> i32 \<Rightarrow> string \<Rightarrow> unpack \<Rightarrow> ('w, 'z) sysst_scheme \<Rightarrow> ((i32 \<times> unpack) \<times> ('w, 'z) sysst_scheme) option" where
  "inflate_loop E input output pending z s =
     (case refill E input pending z s of
        ((result, pending, z), s) \<Rightarrow>
          if neg result then Some ((result, z), s)
          else let (r, s) = syscall E (Zlib (inflate pending INSTALL_IO_BUFFER)) s; pending = inflate_rest pending r
               in do {
                 ((result, z), s) \<leftarrow> put_output E output r z s;
                 if neg result then Some ((result, z), s)
                 else if rc r = Z_STREAM_END then Some ((result, z), s)
                 else if rc r \<noteq> Z_OK \<or> (inflate_produced r = 0 \<and> pending = [] \<and> compressed_left z = 0)
                 then Some ((INSTALL_ERROR_ARCHIVE, z), s)
                 else inflate_loop E input output pending z s })"

definition inflate_data ::
  "'w env \<Rightarrow> i32 \<Rightarrow> i32 \<Rightarrow> unpack \<Rightarrow> ('w, 'z) sysst_scheme \<Rightarrow> ((i32 \<times> unpack) \<times> ('w, 'z) sysst_scheme) option" where
  "inflate_data E input output z s =
     (let (r, s) = syscall E (Zlib inflateInit2) s
      in if rc r \<noteq> Z_OK then Some ((INSTALL_ERROR_ARCHIVE, z), s)
         else do {
           (res, s) \<leftarrow> inflate_loop E input output [] z s;
           let (_, s) = syscall E (Zlib inflateEnd) s;
           Some (res, s) })"

definition unpack_data ::
  "'w env \<Rightarrow> i32 \<Rightarrow> i32 \<Rightarrow> u32 \<Rightarrow> u32 \<Rightarrow> u16 \<Rightarrow> ('w, 'z) sysst_scheme \<Rightarrow> ((i32 \<times> unpack) \<times> ('w, 'z) sysst_scheme) option" where
  "unpack_data E input output compressed_size uncompressed_size zip_method s =
     (let z = \<lparr>compressed_left = compressed_size, checksum = crc32 E 0 [], produced_total = 0\<rparr>
      in if zip_method = 0
         then if compressed_size \<noteq> uncompressed_size then Some ((INSTALL_ERROR_ARCHIVE_SIZE, z), s)
              else stored_loop E input output z s
         else if zip_method = 8 then inflate_data E input output z s
         else Some ((INSTALL_ERROR_ARCHIVE_TYPE, z), s))"

text \<open>The calls after the data: freeing the buffers, closing the output and, on failure, removing the file.\<close>

definition finish_member ::
  "'w env \<Rightarrow> u32 \<Rightarrow> u32 \<Rightarrow> i32 \<Rightarrow> string \<Rightarrow> i32 \<Rightarrow> ('w, 'z) sysst_scheme \<Rightarrow> (i32 \<times> ('w, 'z) sysst_scheme) option" where
  "finish_member E input_buffer output_buffer output destination result s =
     (let (_, s) = syscall E (Kernel (free input_buffer)) s;
          (_, s) = syscall E (Kernel (free output_buffer)) s;
          (_, s) = syscall E (Io (sceIoClose output)) s
      in if neg result then let (_, s) = syscall E (Io (sceIoRemove (Some destination))) s in Some (result, s)
         else Some (result, s))"

definition extract_zip_data ::
  "'w env \<Rightarrow> i32 \<Rightarrow> i64 \<Rightarrow> u32 \<Rightarrow> u32 \<Rightarrow> u16 \<Rightarrow> u32 \<Rightarrow> string \<Rightarrow> ('w, 'z) sysst_scheme \<Rightarrow> (i32 \<times> ('w, 'z) sysst_scheme) option" where
  "extract_zip_data E input data_at compressed_size uncompressed_size zip_method expected_crc destination s =
     (let (result, s) = ensure_parent_directory E destination s
      in if neg result then Some (result, s)
         else let (r, s) = syscall E (Io (sceIoOpen (Some destination) [SCE_O_WRONLY, SCE_O_CREAT, SCE_O_TRUNC])) s; output = rc r
              in if neg output then Some (output, s)
                 else let (r, s) = syscall E (Io (sceIoLseek input data_at SCE_SEEK_SET)) s
                      in if neg (off r)
                         then let (_, s) = syscall E (Io (sceIoClose output)) s;
                                  (_, s) = syscall E (Io (sceIoRemove (Some destination))) s
                              in Some (INSTALL_ERROR_IO, s)
                         else let (m1, s) = syscall E (Kernel (malloc INSTALL_IO_BUFFER)) s;
                                  (m2, s) = syscall E (Kernel (malloc INSTALL_IO_BUFFER)) s
                              in if rc m1 = 0 \<or> rc m2 = 0
                                 then finish_member E (rc m1) (rc m2) output destination INSTALL_ERROR_MEMORY s
                                 else do {
                                   ((result, z), s) \<leftarrow> unpack_data E input output compressed_size uncompressed_size zip_method s;
                                   let result = (if \<not> neg result \<and> (produced_total z \<noteq> uncompressed_size \<or> checksum z \<noteq> expected_crc)
                                                 then INSTALL_ERROR_ARCHIVE else result);
                                   finish_member E (rc m1) (rc m2) output destination result s })"

section \<open>The central directory\<close>

definition tail_size :: "i64 \<Rightarrow> u32" where
  "tail_size file_size = (if sint file_size < 0x10016 then ucast file_size else 0x10016)"

text \<open>The search for the end record from an index downwards; \<open>Inr\<close> is the offset and the number of entries.\<close>

definition end_record :: "string \<Rightarrow> i64 \<Rightarrow> nat \<Rightarrow> (i32 + u32 \<times> u16) option" where
  "end_record tail file_size index = do {
     disk \<leftarrow> read_le16 tail (index + 4);
     central_disk \<leftarrow> read_le16 tail (index + 6);
     entries_on_disk \<leftarrow> read_le16 tail (index + 8);
     entries \<leftarrow> read_le16 tail (index + 10);
     central_size \<leftarrow> read_le32 tail (index + 12);
     central_offset \<leftarrow> read_le32 tail (index + 16);
     Some (if disk = 0 \<and> central_disk = 0 \<and> entries = entries_on_disk \<and> entries \<noteq> 0xFFFF \<and>
              (ucast central_offset + ucast central_size :: u64) \<le> file_size
           then Inr (central_offset, entries) else Inl INSTALL_ERROR_ARCHIVE) }"

fun scan_tail :: "string \<Rightarrow> i64 \<Rightarrow> nat \<Rightarrow> (i32 + u32 \<times> u16) option" where
  "scan_tail tail file_size index =
     (case read_le32 tail index of
        None \<Rightarrow> None
      | Some signature \<Rightarrow>
          if signature = 0x06054B50 then end_record tail file_size index
          else (case index of 0 \<Rightarrow> Some (Inl INSTALL_ERROR_ARCHIVE) | Suc i \<Rightarrow> scan_tail tail file_size i))"

declare scan_tail.simps [simp del]

definition find_central_directory ::
  "'w env \<Rightarrow> i32 \<Rightarrow> i64 \<Rightarrow> ('w, 'z) sysst_scheme \<Rightarrow> ((i32 + u32 \<times> u16) \<times> ('w, 'z) sysst_scheme) option" where
  "find_central_directory E file file_size s =
     (let n = tail_size file_size; (m, s) = syscall E (Kernel (malloc n)) s
      in if rc m = 0 then Some (Inl INSTALL_ERROR_MEMORY, s)
         else do {
           ((result, tail), s) \<leftarrow> read_at E file (file_size - ucast n) n s;
           found \<leftarrow> (if neg result then Some (Inl result) else scan_tail tail file_size (unat (n - 22)));
           let (_, s) = syscall E (Kernel (free (rc m))) s;
           Some (found, s) })"

section \<open>The whole archive\<close>

record central =
  flags :: u16
  zip_method :: u16
  expected_crc :: u32
  compressed_size :: u32
  uncompressed_size :: u32
  name_size :: u16
  extra_size :: u16
  comment_size :: u16
  disk :: u16
  attributes :: u32
  local_offset :: u32

definition central_header :: "string \<Rightarrow> central option" where
  "central_header bytes = do {
     fl \<leftarrow> read_le16 bytes 8;
     me \<leftarrow> read_le16 bytes 10;
     cr \<leftarrow> read_le32 bytes 16;
     cs \<leftarrow> read_le32 bytes 20;
     us \<leftarrow> read_le32 bytes 24;
     ns \<leftarrow> read_le16 bytes 28;
     es \<leftarrow> read_le16 bytes 30;
     ms \<leftarrow> read_le16 bytes 32;
     di \<leftarrow> read_le16 bytes 34;
     at \<leftarrow> read_le32 bytes 38;
     lo \<leftarrow> read_le32 bytes 42;
     Some \<lparr>flags = fl, zip_method = me, expected_crc = cr, compressed_size = cs, uncompressed_size = us, name_size = ns,
       extra_size = es, comment_size = ms, disk = di, attributes = at, local_offset = lo\<rparr> }"

definition next_entry :: "i64 \<Rightarrow> central \<Rightarrow> i64" where
  "next_entry cursor c = cursor + 46 + ucast (name_size c) + ucast (extra_size c) + ucast (comment_size c)"

definition unsupported :: "central \<Rightarrow> i64 \<Rightarrow> i64 \<Rightarrow> bool" where
  "unsupported c cursor file_size \<longleftrightarrow> flags c AND 1 \<noteq> 0 \<or> disk c \<noteq> 0 \<or> name_size c = 0 \<or> 512 \<le> name_size c \<or>
     compressed_size c = 0xFFFFFFFF \<or> uncompressed_size c = 0xFFFFFFFF \<or> local_offset c = 0xFFFFFFFF \<or>
     (zip_method c \<noteq> 0 \<and> zip_method c \<noteq> 8) \<or> sint file_size < sint (next_entry cursor c)"

definition unix_type :: "central \<Rightarrow> u32" where
  "unix_type c = drop_bit 16 (attributes c) AND 0xF000"

abbreviation (input) INSTALL_TOTAL_MAX :: u64 where "INSTALL_TOTAL_MAX \<equiv> 4 * 1024 * 1024 * 1024"

text \<open>The member that a directory entry names: a directory is created, a file is unpacked.\<close>

definition extract_file ::
  "'w env \<Rightarrow> i32 \<Rightarrow> i64 \<Rightarrow> central \<Rightarrow> string \<Rightarrow> ('w, 'z) sysst_scheme \<Rightarrow> (i32 \<times> ('w, 'z) sysst_scheme) option" where
  "extract_file E file file_size c destination s = do {
     ((result, local), s) \<leftarrow> read_at E file (ucast (local_offset c)) 30 s;
     signature \<leftarrow> read_le32 local 0;
     local_method \<leftarrow> read_le16 local 8;
     if neg result \<or> signature \<noteq> 0x04034B50 \<or> local_method \<noteq> zip_method c then Some (INSTALL_ERROR_ARCHIVE, s)
     else do {
       local_name_size \<leftarrow> read_le16 local 26;
       local_extra_size \<leftarrow> read_le16 local 28;
       let data_at = ucast (local_offset c) + 30 + ucast local_name_size + ucast local_extra_size;
       if file_size < data_at + ucast (compressed_size c) then Some (INSTALL_ERROR_ARCHIVE, s)
       else extract_zip_data E file data_at (compressed_size c) (uncompressed_size c) (zip_method c) (expected_crc c) destination s } }"

definition stage_path :: "string \<Rightarrow> string" where
  "stage_path entry_path = INSTALL_STAGE @ ''/'' @ entry_path"

definition extract_member ::
  "'w env \<Rightarrow> i32 \<Rightarrow> i64 \<Rightarrow> central \<Rightarrow> string \<Rightarrow> ('w, 'z) sysst_scheme \<Rightarrow> (i32 \<times> ('w, 'z) sysst_scheme) option" where
  "extract_member E file file_size c name s =
     (let destination = stage_path (cstr name); is_directory = (name ! (unat (name_size c) - 1) = CHR ''/'')
      in if INSTALL_PATH_MAX \<le> length destination then Some (INSTALL_ERROR_ARCHIVE_PATH, s)
         else if is_directory then Some (ensure_directory E (take (length destination - 1) destination) s)
         else extract_file E file file_size c destination s)"

text \<open>One turn of the loop of \<open>extract_vpk\<close>: the result, the next cursor and the new total.\<close>

definition extract_entry ::
  "'w env \<Rightarrow> i32 \<Rightarrow> i64 \<Rightarrow> i64 \<Rightarrow> u64 \<Rightarrow> ('w, 'z) sysst_scheme \<Rightarrow> ((i32 \<times> i64 \<times> u64) \<times> ('w, 'z) sysst_scheme) option" where
  "extract_entry E file file_size cursor total_size s = do {
     ((result, header), s) \<leftarrow> read_at E file cursor 46 s;
     signature \<leftarrow> read_le32 header 0;
     c \<leftarrow> central_header header;
     if neg result \<or> signature \<noteq> 0x02014B50 then Some ((INSTALL_ERROR_ARCHIVE, cursor, total_size), s)
     else if unsupported c cursor file_size then Some ((INSTALL_ERROR_ARCHIVE, cursor, total_size), s)
     else do {
       ((result, name), s) \<leftarrow> read_at E file (cursor + 46) (ucast (name_size c)) s;
       if neg result then Some ((result, cursor, total_size), s)
       else if \<not> is_safe_archive_path (cstr name) then Some ((INSTALL_ERROR_ARCHIVE_PATH, cursor, total_size), s)
       else if unix_type c \<noteq> 0 \<and> unix_type c \<noteq> 0x8000 \<and> unix_type c \<noteq> 0x4000
       then Some ((INSTALL_ERROR_ARCHIVE_TYPE, cursor, total_size), s)
       else if INSTALL_TOTAL_MAX - total_size < ucast (uncompressed_size c)
       then Some ((INSTALL_ERROR_ARCHIVE_SIZE, cursor, total_size), s)
       else do {
         (result, s) \<leftarrow> extract_member E file file_size c name s;
         Some ((result, next_entry cursor c, total_size + ucast (uncompressed_size c)), s) } } }"

text \<open>The loop; the number is that of the entries left.\<close>

fun extract_entries ::
  "'w env \<Rightarrow> i32 \<Rightarrow> i64 \<Rightarrow> nat \<Rightarrow> i64 \<Rightarrow> u64 \<Rightarrow> ('w, 'z) sysst_scheme \<Rightarrow> (i32 \<times> ('w, 'z) sysst_scheme) option" where
  "extract_entries E file file_size 0 cursor total_size s = Some (0, s)"
| "extract_entries E file file_size (Suc n) cursor total_size s = do {
     ((result, cursor, total_size), s) \<leftarrow> extract_entry E file file_size cursor total_size s;
     if neg result then Some (result, s) else extract_entries E file file_size n cursor total_size s }"

definition extract_vpk :: "'w env \<Rightarrow> string \<Rightarrow> ('w, 'z) sysst_scheme \<Rightarrow> (i32 \<times> ('w, 'z) sysst_scheme) option" where
  "extract_vpk E vpk_path s =
     (let (r, s) = syscall E (Io (sceIoOpen (Some vpk_path) [SCE_O_RDONLY])) s; file = rc r
      in if neg file then Some (file, s)
         else let (r, s) = syscall E (Io (sceIoLseek file 0 SCE_SEEK_END)) s; file_size = off r
              in if sint file_size < 22
                 then let (_, s) = syscall E (Io (sceIoClose file)) s in Some (INSTALL_ERROR_ARCHIVE, s)
                 else do {
                   (found, s) \<leftarrow> find_central_directory E file file_size s;
                   (result, s) \<leftarrow> (case found of
                       Inl e \<Rightarrow> Some (e, s)
                     | Inr (central_offset, entry_count) \<Rightarrow>
                         extract_entries E file file_size (unat entry_count) (ucast central_offset) 0 s);
                   let (_, s) = syscall E (Io (sceIoClose file)) s;
                   Some (result, s) })"

definition read_file :: "'w env \<Rightarrow> string \<Rightarrow> ('w, 'z) sysst_scheme \<Rightarrow> ((i32 + u32 \<times> string) \<times> ('w, 'z) sysst_scheme) option" where
  "read_file E path s =
     (let (r, s) = syscall E (Io (sceIoOpen (Some path) [SCE_O_RDONLY])) s; file = rc r
      in if neg file then Some (Inl file, s)
         else let (r, s) = syscall E (Io (sceIoLseek file 0 SCE_SEEK_END)) s; end_offset = off r
              in if sint end_offset \<le> 0 \<or> 1024 * 1024 < sint end_offset
                 then let (_, s) = syscall E (Io (sceIoClose file)) s in Some (Inl INSTALL_ERROR_SFO, s)
                 else let (r, s) = syscall E (Io (sceIoLseek file 0 SCE_SEEK_SET)) s
                 in if neg (off r)
                    then let (_, s) = syscall E (Io (sceIoClose file)) s in Some (Inl INSTALL_ERROR_IO, s)
                    else let (m, s) = syscall E (Kernel (malloc (ucast end_offset))) s
                         in if rc m = 0
                            then let (_, s) = syscall E (Io (sceIoClose file)) s in Some (Inl INSTALL_ERROR_MEMORY, s)
                            else do {
                              ((result, buffer), s) \<leftarrow> read_loop E file (ucast end_offset) 0 (replicate (unat end_offset) NUL) s;
                              if neg result
                              then let (_, s) = syscall E (Kernel (free (rc m))) s;
                                       (_, s) = syscall E (Io (sceIoClose file)) s
                                   in Some (Inl result, s)
                              else let (_, s) = syscall E (Io (sceIoClose file)) s
                                   in Some (Inr (rc m, buffer), s) })"

end
