(* ===== verification/Package_Safety.thy ===== *)
theory Package_Safety
  imports Package_Files
begin

text \<open>
  What unpacking may do to the system. \<open>confined\<close> is the kind of call that it is limited to: files are created
  and removed below the staging directory only. Every operation is shown to consist of such calls and to give
  back what it acquires, whatever the archive contains and however its calls end.
\<close>

section \<open>Confinement\<close>

definition proper :: "string \<Rightarrow> bool" where
  "proper n \<longleftrightarrow> n \<notin> {[], ''.'', ''..''}"

text \<open>The staging directory or a path below it; the same up to a slash at its end; and a directory that may be
  created: the parent of the staging directory, the staging directory, or something in it or in a directory
  below it.\<close>

definition below :: "string \<Rightarrow> bool" where
  "below p \<longleftrightarrow> (\<exists>ns. split_slash p = split_slash INSTALL_STAGE @ ns \<and> (\<forall>n \<in> set ns. proper n))"

definition staged :: "string \<Rightarrow> bool" where
  "staged p \<longleftrightarrow> (\<exists>ns. path_names p = split_slash INSTALL_STAGE @ ns \<and> (\<forall>n \<in> set ns. proper n))"

definition makeable :: "string \<Rightarrow> bool" where
  "makeable p \<longleftrightarrow> split_slash p = [''ux0:data''] \<or>
     (\<exists>ns. split_slash p = split_slash INSTALL_STAGE @ ns \<and> (\<forall>n \<in> set (butlast ns). proper n))"

fun confined :: "call \<Rightarrow> bool" where
  "confined (Io (sceIoOpen (Some p) fl)) = (fl = [SCE_O_RDONLY] \<or> staged p)"
| "confined (Io (sceIoOpen None fl)) = False"
| "confined (Io (sceIoMkdir p)) = (\<exists>q. p = Some q \<and> makeable q)"
| "confined (Io (sceIoRemove p)) = (\<exists>q. p = Some q \<and> staged q)"
| "confined (Io (sceIoRmdir p)) = (\<exists>q. p = Some q \<and> staged q)"
| "confined (Io (sceIoRename p q)) = False"
| "confined (Io _) = True"
| "confined (Kernel (malloc _)) = True"
| "confined (Kernel (free _)) = True"
| "confined (Zlib _) = True"
| "confined (App (load_module _)) = True"
| "confined (App (unload_module _)) = True"
| "confined (App scePromoterUtilityInit) = True"
| "confined (App scePromoterUtilityExit) = True"
| "confined (App (scePromoterUtilityPromotePkgWithRif p)) = (p = INSTALL_STAGE)"
| "confined _ = False"

lemma split_slash_join: "split_slash (p @ CHR ''/'' # q) = split_slash p @ split_slash q"
  by (induction p) (auto split: list.split)

lemma path_names_join: "path_names (p @ CHR ''/'' # q) = split_slash p @ path_names q"
  by (simp add: path_names_def split_slash_join butlast_append)

lemma split_slash_no_slash: "n \<in> set (split_slash p) \<Longrightarrow> CHR ''/'' \<notin> set n"
  by (induction p arbitrary: n) (auto split: if_splits list.splits)

lemma below_staged: "below p \<Longrightarrow> staged p"
  unfolding below_def staged_def path_names_def
  by (auto simp: proper_def INSTALL_STAGE_def last_append)

lemma below_child: "below p \<Longrightarrow> CHR ''/'' \<notin> set n \<Longrightarrow> proper n \<Longrightarrow> below (p @ ''/'' @ n)"
  by (auto simp: below_def split_slash_join split_slash_one)

lemma below_stage: "below INSTALL_STAGE"
  unfolding below_def by (intro exI [of _ "[]"]) simp

section \<open>Removing a tree\<close>

text \<open>A directory lists names: not empty and without a slash.\<close>

definition names_ok :: "'w env \<Rightarrow> bool" where
  "names_ok E \<longleftrightarrow> (\<forall>d w. 0 < sint (rc (fst (sys E (Io (sceIoDread d)) w))) \<longrightarrow>
     d_name (fst (sys E (Io (sceIoDread d)) w)) \<noteq> [] \<and> CHR ''/'' \<notin> set (d_name (fst (sys E (Io (sceIoDread d)) w))))"

lemma names_okD:
  "names_ok E \<Longrightarrow> syscall E (Io (sceIoDread d)) s = (r, t) \<Longrightarrow> 0 < sint (rc r) \<Longrightarrow> d_name r \<noteq> [] \<and> CHR ''/'' \<notin> set (d_name r)"
  by (auto simp: names_ok_def syscall_def split: prod.splits) (metis fst_conv)+

lemma child_below:
  "names_ok E \<Longrightarrow> syscall E (Io (sceIoDread d)) s = (r, t) \<Longrightarrow> \<not> sint (rc r) \<le> 0 \<Longrightarrow>
     \<not> (d_name r = ''.'' \<or> d_name r = ''..'') \<Longrightarrow> below p \<Longrightarrow> below (p @ ''/'' @ d_name r)"
  using names_okD [of E d s r t] below_child [of p "d_name r"] by (auto simp: proper_def)

lemma remove_at_keeps:
  assumes "names_ok E" and "remove_at E path handle s = Some (r, t)" and "below path"
  shows "settled confined s t"
proof -
  have "names_ok E \<longrightarrow> below path \<longrightarrow> settled confined s (snd (r, t))"
  proof (rule remove_at.raw_induct [where P = "\<lambda>E path handle s y. names_ok E \<longrightarrow> below path \<longrightarrow> settled confined s (snd y)",
        OF _ assms(2)], intro impI, goal_cases)
    case (1 f E path handle s y)
    have IH: "f E p h u = Some (r, t) \<Longrightarrow> below p \<Longrightarrow> did confined s D u \<Longrightarrow> did confined s D t" for p h u r t D
      using 1(1) [of E p h u "(r, t)"] 1(3) by (auto intro: did_settled)
    note names = child_below [OF 1(3)] below_staged [OF 1(4)]
    obtain r t where y: "y = (r, t)" by fastforce
    have "meets confined s (\<lambda>_. True) (Some y)"
      unfolding 1(2) [symmetric]
      by (rule flow | rule leaves_tail | hypsubst | (rule keeps, assumption) | (rule IH, assumption) | (rule charges, assumption) | rule did_refl
          | rule TrueI | (simp add: names delta_def; fail) | (rule names, assumption+, rule 1(4)) | rule 1(4))+
    then show ?case unfolding y leaves_def by simp
  qed
  with assms show ?thesis by simp
qed

lemma remove_tree_meets: "names_ok E \<Longrightarrow> below path \<Longrightarrow> meets confined s (\<lambda>_. True) (remove_tree E path s)"
  using remove_at_keeps by (fastforce simp: leaves_def remove_tree_def)

section \<open>Creating directories\<close>

text \<open>A path all of whose directories are below the staging directory.\<close>

definition ensurable :: "string \<Rightarrow> bool" where
  "ensurable p \<longleftrightarrow> (\<exists>ns. split_slash p = split_slash INSTALL_STAGE @ ns \<and> (\<forall>n \<in> set (butlast ns). proper n))"

lemma ensurable_makeable: "ensurable p \<Longrightarrow> makeable p"
  by (simp add: ensurable_def makeable_def)

lemma stage_names: "split_slash INSTALL_STAGE = [''ux0:data'', ''vitacompanion-package'']"
  by (simp add: INSTALL_STAGE_def)

lemma ensurable_prefix:
  assumes "ensurable p" and "i < length p" and "p ! i = CHR ''/''"
  shows "makeable (take i p)"
proof -
  obtain ns where ns: "split_slash p = [''ux0:data'', ''vitacompanion-package''] @ ns" "\<forall>n \<in> set (butlast ns). proper n"
    using assms(1) by (auto simp: ensurable_def stage_names)
  define ms rs where "ms = split_slash (take i p)" and "rs = split_slash (drop (Suc i) p)"
  have "p = take i p @ CHR ''/'' # drop (Suc i) p" using assms(2,3) id_take_nth_drop by fastforce
  then have split: "ms @ rs = [''ux0:data'', ''vitacompanion-package''] @ ns"
    using ns(1) split_slash_join [of "take i p" "drop (Suc i) p"] by (simp add: ms_def rs_def)
  have "ms \<noteq> []" "rs \<noteq> []" by (simp_all add: ms_def rs_def)
  with split consider "ms = [''ux0:data'']" | ks where "ms = [''ux0:data'', ''vitacompanion-package''] @ ks" "ns = ks @ rs"
    by (cases ms; cases "tl ms") auto
  then show ?thesis
  proof cases
    case 1
    then show ?thesis by (simp add: makeable_def ms_def)
  next
    case 2
    then have "\<forall>n \<in> set (butlast ks). proper n" using ns(2) \<open>rs \<noteq> []\<close> by (auto simp: butlast_append dest: in_set_butlastD)
    with 2(1) show ?thesis by (auto simp: makeable_def ms_def stage_names)
  qed
qed

lemma make_directory_keeps:
  "make_directory E p t = (r, u) \<Longrightarrow> makeable p \<Longrightarrow> did confined s D t \<Longrightarrow> did confined s D u"
  unfolding make_directory_def Let_def
  by (elim did_settled, auto split: prod.splits if_splits intro!: did_refl elim!: did_neutral_calls)

lemma make_parents_settled:
  assumes "\<And>i. i < length p \<Longrightarrow> p ! i = CHR ''/'' \<Longrightarrow> makeable (take i p)"
  shows "make_parents E p i s = (r, t) \<Longrightarrow> settled confined s t"
  using assms
proof (induction E p i s rule: make_parents.induct)
  case (1 E p i s)
  have here: "did confined s (\<lambda>_. 0) u" if "i < length p" "p ! i = CHR ''/''" "make_directory E (take i p) s = (q, u)" for q u
    using make_directory_keeps [OF that(3) 1(5) [OF that(1,2)], of s] by simp
  note run = 1(4) [unfolded make_parents.simps [of E p i s]]
  consider "length p \<le> i" | "i < length p" "p ! i \<noteq> CHR ''/''"
    | q u where "i < length p" "p ! i = CHR ''/''" "0 < i \<and> p ! (i - 1) \<noteq> CHR '':''" "make_directory E (take i p) s = (q, u)"
    | "i < length p" "p ! i = CHR ''/''" "\<not> (0 < i \<and> p ! (i - 1) \<noteq> CHR '':'')"
    by (metis linorder_not_le surj_pair)
  then show ?case
  proof cases
    case 1
    with run show ?thesis by simp
  next
    case 2
    with run "1.IH"(1) "1.prems"(2) show ?thesis by simp
  next
    case (3 q u)
    then show ?thesis using run "1.IH"(2) [of "(q, u)" q u] "1.prems"(2) here [OF 3(1,2,4)]
      by (auto split: if_splits intro: did_settled)
  next
    case 4
    with run "1.IH"(3) "1.prems"(2) show ?thesis by (auto split: if_splits)
  qed
qed

lemma ensure_directory_keeps:
  assumes "ensure_directory E p t = (r, u)" and "ensurable p" and "did confined s D t"
  shows "did confined s D u"
proof -
  have parents: "settled confined v w" if "make_parents E p i v = (q, w)" for i v q w
    using make_parents_settled [OF ensurable_prefix [OF assms(2)]] that by blast
  have "settled confined t u" using assms(1) ensurable_makeable [OF assms(2)]
    by (auto simp: ensure_directory_def Let_def split: prod.splits if_splits intro: make_directory_keeps dest: parents)
  with assms(3) show ?thesis by (rule did_settled)
qed

text \<open>A path whose directories, but not necessarily its last name, are below the staging directory.\<close>

definition inside :: "string \<Rightarrow> bool" where
  "inside p \<longleftrightarrow> (\<exists>ns. ns \<noteq> [] \<and> split_slash p = split_slash INSTALL_STAGE @ ns \<and> (\<forall>n \<in> set (butlast ns). proper n))"

lemma inside_parent:
  assumes "inside p"
  shows "ensurable (take (length p - Suc (length (takeWhile (\<lambda>c. c \<noteq> CHR ''/'') (rev p)))) p)"
proof -
  obtain ns where ns: "ns \<noteq> []" "split_slash p = split_slash INSTALL_STAGE @ ns" "\<forall>n \<in> set (butlast ns). proper n"
    using assms by (auto simp: inside_def)
  have "CHR ''/'' \<in> set p"
  proof (rule ccontr)
    assume "CHR ''/'' \<notin> set p"
    then have "split_slash p = [p]" by (rule split_slash_one)
    with ns(1,2) show False by (simp add: stage_names)
  qed
  then obtain u v where p: "p = u @ CHR ''/'' # v" "CHR ''/'' \<notin> set v" by (metis split_list_last)
  then have "takeWhile (\<lambda>c. c \<noteq> CHR ''/'') (rev p) = rev v" by (simp add: takeWhile_append)
  then have cut: "take (length p - Suc (length (takeWhile (\<lambda>c. c \<noteq> CHR ''/'') (rev p)))) p = u" using p(1) by simp
  have "split_slash u @ [v] = split_slash INSTALL_STAGE @ ns" using ns(2) p by (simp add: split_slash_join split_slash_one)
  with ns(1) have "split_slash u = split_slash INSTALL_STAGE @ butlast ns" by (metis butlast_append butlast_snoc)
  with ns(3) show ?thesis unfolding cut ensurable_def by (auto dest: in_set_butlastD)
qed

lemma ensure_parent_keeps:
  "ensure_parent_directory E p t = (r, u) \<Longrightarrow> inside p \<Longrightarrow> did confined s D t \<Longrightarrow> did confined s D u"
  by (auto simp: ensure_parent_directory_def split: if_splits intro: ensure_directory_keeps inside_parent)

section \<open>Reads and writes\<close>

lemma settled_read: "syscall E (Io (sceIoRead fd n)) s = (r, u) \<Longrightarrow> settled confined s u"
  by (erule settled_call) simp_all

lemma length_refilled:
  "m < n \<Longrightarrow> unat n \<le> length b \<Longrightarrow> length (take (unat m) b @ fill r (n - m) (drop (unat m) b)) = length b"
  using word_less_nat_alt [of m n] by (subst length_append, subst length_fill) (simp_all add: unat_sub word_le_nat_alt)

lemma read_loop_meets:
  assumes "unat n \<le> length b"
  shows "meets confined s (\<lambda>(e, b'). length b' = length b) (read_loop E fd n m b s)"
proof -
  have "settled confined s t \<and> length (snd v) = length b" if run: "read_loop E fd n m b s = Some (v, t)" for v t
  proof -
    have "unat n \<le> length b \<longrightarrow> settled confined s (snd (v, t)) \<and> length (snd (fst (v, t))) = length b"
    proof (rule read_loop.raw_induct [where P = "\<lambda>E fd n m b s y.
          unat n \<le> length b \<longrightarrow> settled confined s (snd y) \<and> length (snd (fst y)) = length b", OF _ run], intro impI, goal_cases)
      case (1 f E fd n m b s y)
      obtain v t where y: "y = (v, t)" by fastforce
      have IH: "f E fd n k b' u = Some (v, t) \<Longrightarrow> unat n \<le> length b' \<Longrightarrow> settled confined u t \<and> length (snd v) = length b'"
        for k b' u v t using 1(1) [of E fd n k b' u "(v, t)"] by simp
      obtain r u where call: "syscall E (Io (sceIoRead fd (n - m))) s = (r, u)" by fastforce
      then have "settled confined s u" by (rule settled_call) simp_all
      let ?b = "take (unat m) b @ fill r (n - m) (drop (unat m) b)"
      consider "\<not> m < n" | "m < n" "sint (rc r) \<le> 0" | "m < n" "0 < sint (rc r)" by linarith
      then show ?case
      proof cases
        case 3
        with 1(2) call y have "f E fd n (m + rc r) ?b u = Some (v, t)" by simp
        from IH [OF this] length_refilled [OF 3(1) 1(3), of r] 1(3) \<open>settled confined s u\<close>
        show ?thesis unfolding y by (simp add: did_settled)
      qed (use 1(2) call \<open>settled confined s u\<close> in auto)
    qed
    with assms show ?thesis by simp
  qed
  then show ?thesis by (auto simp: leaves_def)
qed

lemma read_at_meets: "meets confined s (\<lambda>(e, b). length b = unat n) (read_at E fd p n s)"
proof -
  have loop: "meets confined u (\<lambda>(e, b). length b = unat n) (read_loop E fd n 0 (replicate (unat n) NUL) u)" for u
    using read_loop_meets [of n "replicate (unat n) NUL" u E fd 0] by simp
  show ?thesis unfolding read_at_def
    by (rule flow | rule leaves_from [OF _ loop] | (rule keeps, assumption) | rule did_refl | (simp; fail))+
qed

lemma write_loop_meets: "meets confined s (\<lambda>r. r = 0 \<or> neg r) (write_loop E fd b n m s)"
proof -
  have "settled confined s t \<and> (r = 0 \<or> neg r)" if run: "write_loop E fd b n m s = Some (r, t)" for r t
  proof -
    have "settled confined s (snd (r, t)) \<and> (fst (r, t) = 0 \<or> neg (fst (r, t)))"
    proof (rule write_loop.raw_induct [where P = "\<lambda>E fd b n m s y. settled confined s (snd y) \<and> (fst y = 0 \<or> neg (fst y))",
          OF _ run], goal_cases)
      case (1 f E fd b n m s y)
      let ?c = "Io (sceIoWrite fd (take (unat (n - m)) (drop (unat m) b)))"
      obtain r u where call: "syscall E ?c s = (r, u)" by fastforce
      then have "settled confined s u" by (rule settled_call) simp_all
      with 1(2) call 1(1) [of E fd b n "m + rc r" u y] show ?case
        by (auto split: if_splits intro: did_settled)
    qed
    then show ?thesis by simp
  qed
  then show ?thesis by (simp add: leaves_def)
qed

lemma write_all_meets: "meets confined s (\<lambda>r. r = 0 \<or> neg r) (write_all E fd b n s)"
  unfolding write_all_def by (rule write_loop_meets)

lemmas io_keeps [keeps] = keep_of [OF read_at_meets] keep_of [OF write_all_meets]

section \<open>Unpacking a member\<close>

lemma chunk_size_bounds: "0 < n \<Longrightarrow> 0 < chunk_size n" "chunk_size n \<le> n"
  by (auto simp: chunk_size_def not_less)

lemma chunk_progress: "0 < n \<Longrightarrow> unat (n - chunk_size n) < unat n"
  using chunk_size_bounds [of n] by (simp add: unat_sub word_less_nat_alt)

lemma stored_loop_meets:
  fixes s :: "('w, 'z) sysst_scheme"
  shows "meets confined s (\<lambda>_. True) (stored_loop E fi fo z s)"
proof (induction "unat (compressed_left z)" arbitrary: z s rule: less_induct)
  case less
  show ?case
    by (subst stored_loop.simps)
      (rule flow | rule leaves_from [OF _ less] | hypsubst | (rule keeps, assumption) | rule did_refl
        | (simp add: chunk_progress; fail))+
qed

lemma refill_keeps [keeps]: "refill E fi b z t = (v, u) \<Longrightarrow> did confined s D t \<Longrightarrow> did confined s D u"
  by (rule did_settled, assumption) (auto simp: refill_def Let_def split: prod.splits if_splits dest: settled_read)

lemma put_output_meets: "meets confined s (\<lambda>_. True) (put_output E fo r z s)"
  unfolding put_output_def
  by (rule flow | hypsubst | (rule keeps, assumption) | rule did_refl | (simp; fail))+

lemmas put_output_keeps [keeps] = keep_of [OF put_output_meets]

lemma inflate_loop_meets: "meets confined s (\<lambda>_. True) (inflate_loop E fi fo b z s)"
proof -
  have "settled confined s t" if run: "inflate_loop E fi fo b z s = Some (v, t)" for v t
  proof -
    have "settled confined s (snd (v, t))"
    proof (rule inflate_loop.raw_induct [where P = "\<lambda>E fi fo b z s y. settled confined s (snd y)", OF _ run], goal_cases)
      case (1 f E fi fo b z s y)
      have IH: "f E fi fo b z u = Some (v, t) \<Longrightarrow> did confined s D u \<Longrightarrow> did confined s D t" for b z u v t D
        using 1(1) [of E fi fo b z u "(v, t)"] by (auto intro: did_settled)
      have "meets confined s (\<lambda>_. True) (Some y)"
        unfolding 1(2) [symmetric]
        by (rule flow | rule leaves_tail | hypsubst | (rule keeps, assumption) | (rule IH, assumption) | rule did_refl | (simp; fail))+
      then show ?case by (cases y) (simp add: leaves_def)
    qed
    then show ?thesis by simp
  qed
  then show ?thesis by (simp add: leaves_def)
qed

lemmas loop_keeps [keeps] = keep_of [OF stored_loop_meets] keep_of [OF inflate_loop_meets]

lemma inflate_data_meets: "meets confined s (\<lambda>_. True) (inflate_data E fi fo z s)"
  unfolding inflate_data_def
  by (rule flow | hypsubst | (rule keeps, assumption) | (rule charges, assumption) | rule did_refl | (simp add: delta_def; fail))+

lemma unpack_data_meets: "meets confined s (\<lambda>_. True) (unpack_data E fi fo cs us m s)"
  unfolding unpack_data_def
  by (rule flow | rule stored_loop_meets inflate_data_meets | rule did_refl | (simp; fail))+

lemmas unpack_data_keeps [keeps] = keep_of [OF unpack_data_meets]

lemma finish_member_keeps [charges]:
  assumes "finish_member E p q fo dest res t = Some (v, u)" and "staged dest"
    and "did confined s (\<lambda>x. D x + of_bool (p \<noteq> 0 \<and> x = Mem p) + of_bool (q \<noteq> 0 \<and> x = Mem q) + of_bool (x = File fo)) t"
  shows "did confined s D u"
proof -
  obtain r1 t1 r2 t2 r3 t3 where calls: "syscall E (Kernel (free p)) t = (r1, t1)" "syscall E (Kernel (free q)) t1 = (r2, t2)"
    "syscall E (Io (sceIoClose fo)) t2 = (r3, t3)" by (metis surj_pair)
  have "did confined s D t3"
    by (rule did_syscall [OF calls(3)] did_syscall [OF calls(2)] did_syscall [OF calls(1)] | simp; fail)+
      (rule did_eq [OF assms(3)], auto simp: delta_def)
  with assms(1,2) calls show ?thesis
    by (auto simp: finish_member_def Let_def split: prod.splits if_splits intro: did_neutral [rotated])
qed

lemmas directory_keeps [keeps] = make_directory_keeps ensure_directory_keeps ensure_parent_keeps

lemma extract_zip_data_meets:
  assumes "inside dest" and "staged dest"
  shows "meets confined s (\<lambda>_. True) (extract_zip_data E fi at cs us me crc dest s)"
  unfolding extract_zip_data_def
  by (rule flow | hypsubst | (rule keeps, assumption) | (rule charges, assumption) | rule did_refl
      | rule leaves_tail | (simp add: assms; fail) | (auto simp: delta_def; fail) | rule TrueI)+

section \<open>The archive\<close>

lemma tail_size_bounds:
  assumes "22 \<le> sint n"
  shows "22 \<le> unat (tail_size n)"
proof (cases "sint n < 0x10016")
  case True
  have eq: "sint n = int (unat n)" using assms by (intro sint_nonneg) simp
  then have "int (unat n) < 0x10016" "22 \<le> int (unat n)" using True assms by (simp_all only:)
  then have n: "unat n < 0x10016" "22 \<le> unat n" by linarith+
  then have "unat (ucast n :: u32) = unat n" by (simp add: unsigned_ucast_eq take_bit_nat_eq_self)
  with True n(2) show ?thesis by (simp add: tail_size_def)
qed (simp add: tail_size_def)

text \<open>The search reads within the tail of the archive.\<close>

lemma end_record_ok: "i + 22 \<le> length buf \<Longrightarrow> \<exists>x. end_record buf n i = Some x"
  using read_le_ok(1) [of "i + 4" buf] read_le_ok(1) [of "i + 6" buf] read_le_ok(1) [of "i + 8" buf]
    read_le_ok(1) [of "i + 10" buf] read_le_ok(2) [of "i + 12" buf] read_le_ok(2) [of "i + 16" buf]
  by (auto simp: end_record_def)

lemma scan_tail_ok: "i + 22 \<le> length buf \<Longrightarrow> \<exists>x. scan_tail buf n i = Some x"
proof (induction i)
  case 0
  then show ?case using read_le_ok(2) [of 0 buf] end_record_ok [of 0 buf n]
    by (subst scan_tail.simps) (auto split: option.split)
next
  case (Suc i)
  then show ?case using read_le_ok(2) [of "Suc i" buf] end_record_ok [of "Suc i" buf n]
    by (subst scan_tail.simps) (auto split: option.split)
qed

lemma find_central_directory_meets: "meets confined s (\<lambda>_. True) (find_central_directory E fd n s)"
  unfolding find_central_directory_def
  by (rule flow | hypsubst | (rule keeps, assumption) | (rule charges, assumption) | rule did_refl
      | (simp add: delta_def; fail) | rule TrueI)+

lemmas find_central_directory_keeps [keeps] = keep_of [OF find_central_directory_meets]

lemma split_slash_snoc:
  "split_slash (p @ [c]) =
     (if c = CHR ''/'' then split_slash p @ [[]] else butlast (split_slash p) @ [last (split_slash p) @ [c]])"
  by (induction p) (auto split: list.split)

lemma safe_names: "is_safe_archive_path q \<Longrightarrow> n \<in> set (path_names q) \<Longrightarrow> proper n"
  by (auto simp: safe_archive_path_iff proper_def)

lemma safe_directories:
  assumes "is_safe_archive_path q" and "n \<in> set (butlast (split_slash q))"
  shows "proper n"
proof -
  have "n \<in> set (path_names q)" using assms(2) by (auto simp: path_names_def dest: in_set_butlastD)
  with assms(1) show ?thesis by (rule safe_names)
qed

lemma stage_path_staged: "is_safe_archive_path q \<Longrightarrow> staged (stage_path q)"
  using safe_names [of q] by (auto simp: staged_def stage_path_def path_names_join)

lemma stage_path_inside: "is_safe_archive_path q \<Longrightarrow> inside (stage_path q)"
  unfolding inside_def stage_path_def using safe_directories [of q]
  by (intro exI [of _ "split_slash q"]) (auto simp: split_slash_join)

lemma stage_path_ensurable:
  assumes "is_safe_archive_path q"
  shows "ensurable (take (length (stage_path q) - 1) (stage_path q))"
proof -
  have "q \<noteq> []" using assms by (auto simp: is_safe_archive_path_def)
  then obtain p c where q: "q = p @ [c]" by (metis append_butlast_last_id)
  have "set (butlast (split_slash p)) \<subseteq> set (butlast (split_slash q))"
    unfolding q by (auto simp: split_slash_snoc dest: in_set_butlastD)
  then have "\<forall>n \<in> set (butlast (split_slash p)). proper n" using safe_directories [OF assms] by auto
  moreover have "take (length (stage_path q) - 1) (stage_path q) = INSTALL_STAGE @ CHR ''/'' # p"
    by (simp add: stage_path_def q)
  ultimately show ?thesis by (auto simp: ensurable_def split_slash_join)
qed

lemma extract_file_meets:
  assumes "is_safe_archive_path q"
  shows "meets confined s (\<lambda>_. True) (extract_file E fd n c (stage_path q) s)"
  unfolding extract_file_def
  by (rule flow | rule leaves_from [OF _ extract_zip_data_meets] | hypsubst | (rule keeps, assumption) | rule did_refl
      | rule stage_path_inside stage_path_staged | rule assms | (simp; fail))+

lemma extract_member_meets:
  assumes "is_safe_archive_path (cstr name)"
  shows "meets confined s (\<lambda>_. True) (extract_member E fd n c name s)"
proof -
  have "settled confined s u" if "ensure_directory E (take (length (stage_path (cstr name)) - 1) (stage_path (cstr name))) s = (r, u)" for r u
    by (rule ensure_directory_keeps [OF that stage_path_ensurable [OF assms]]) simp
  then show ?thesis using extract_file_meets [OF assms, of s E fd n c] by (auto simp: extract_member_def Let_def leaves_def)
qed

lemma extract_entry_meets: "meets confined s (\<lambda>_. True) (extract_entry E fd n cursor m s)"
  unfolding extract_entry_def
  by (rule flow | hypsubst | (rule keeps, assumption) | (rule keep_of [OF extract_member_meets, rotated], assumption)
      | rule did_refl | (simp; fail))+

lemmas extract_entry_keeps [keeps] = keep_of [OF extract_entry_meets]

lemma extract_entries_meets: "meets confined s (\<lambda>_. True) (extract_entries E fd n k cursor m s)"
proof (induction k arbitrary: cursor m s)
  case 0
  show ?case by (simp add: leaves_def)
next
  case (Suc k)
  show ?case unfolding extract_entries.simps
    by (rule flow | hypsubst | rule leaves_from [OF _ Suc] | (rule keeps, assumption) | rule did_refl | (simp; fail))+
qed

lemmas extract_entries_keeps [keeps] = keep_of [OF extract_entries_meets]

lemma extract_found_keeps [keeps]:
  "(case found of Inl e \<Rightarrow> Some (e, t) | Inr (p, k) \<Rightarrow> extract_entries E fd n (unat k) (ucast p) 0 t) = Some (r, u) \<Longrightarrow>
     did confined s D t \<Longrightarrow> did confined s D u"
  by (auto split: sum.splits prod.splits intro: extract_entries_keeps)

lemma extract_vpk_meets: "meets confined s (\<lambda>_. True) (extract_vpk E p s)"
  unfolding extract_vpk_def
  by (rule flow | hypsubst | (rule keeps, assumption) | (rule charges, assumption) | rule did_refl
      | (simp add: delta_def; fail) | rule TrueI)+

lemmas extract_vpk_keeps [keeps] = keep_of [OF extract_vpk_meets]

lemma read_loop_keeps: "read_loop E fd n m b t = Some (v, u) \<Longrightarrow> unat n \<le> length b \<Longrightarrow> did confined s D t \<Longrightarrow> did confined s D u"
  using keep_of [OF read_loop_meets] .

lemma sfo_size: "\<not> (sint (n :: i64) \<le> 0 \<or> 1024 * 1024 < sint n) \<Longrightarrow> unat (ucast n :: u32) = unat n \<and> 0 < unat n"
proof -
  assume n: "\<not> (sint n \<le> 0 \<or> 1024 * 1024 < sint n)"
  have eq: "sint n = int (unat n)" using n by (intro sint_nonneg) simp
  then have "int (unat n) \<le> 1024 * 1024" "0 < int (unat n)" using n by (simp_all only: not_le not_less de_Morgan_disj)
  then have "unat n \<le> 1024 * 1024" "0 < unat n" by linarith+
  then show ?thesis by (simp add: unsigned_ucast_eq take_bit_nat_eq_self)
qed

text \<open>A file that has been read is in a buffer that the caller owns.\<close>

lemma read_file_leaves:
  "leaves confined s (\<lambda>v x. case v of Inl _ \<Rightarrow> 0 | Inr (m, _) \<Rightarrow> of_bool (m \<noteq> 0 \<and> Mem m = x)) (\<lambda>v. \<forall>e. v = Inl e \<longrightarrow> neg e) (read_file E p s)"
  unfolding read_file_def
  by (rule flow | hypsubst | (rule keeps, assumption) | (rule charges, assumption)
      | (rule read_loop_keeps, assumption) | rule did_refl
      | (simp add: delta_def; fail) | (simp add: sfo_size; fail))+

lemmas read_file_charges [charges] = charge_of [OF read_file_leaves]

lemma read_fileD: "read_file E p s = Some (Inl e, t) \<Longrightarrow> neg e"
  using read_file_leaves [of s E p] by (simp add: leaves_def)

end
