(* ===== verification/Sha1.thy ===== *)
theory Sha1
  imports Prelude
begin

text \<open>
  The hash function of \<^verbatim>\<open>sha1.c\<close>: the compression of a block, the buffering of partial blocks and the padding at
  the end, on the arrays and with the widths of the source. The reference is the definition of SHA-1 in FIPS
  180: a recursive message schedule, a round function indexed by the round and the padding of the whole
  message. \<open>sha1_computes_fips\<close> shows that the incremental code computes it however the message is cut.
\<close>

unbundle bit_operations_syntax

section \<open>The context\<close>

record SHA1_CTX =
  ctx_data :: "u8 list"
  datalen :: u32
  bitlen :: u64
  ctx_state :: "u32 list"
  ctx_k :: "u32 list"

definition ROTLEFT :: "u32 \<Rightarrow> nat \<Rightarrow> u32" where
  "ROTLEFT a b = push_bit b a OR drop_bit (32 - b) a"

section \<open>Compression\<close>

definition load_words :: "u8 list \<Rightarrow> u32 list" where
  "load_words data = map (\<lambda>i. push_bit 24 (ucast (data ! (4 * i))) + push_bit 16 (ucast (data ! (4 * i + 1))) +
     push_bit 8 (ucast (data ! (4 * i + 2))) + ucast (data ! (4 * i + 3))) [0..<16]"

text \<open>The second loop of \<open>sha1_transform\<close>; the first argument is the number of words still to be computed.\<close>

fun expand_words :: "nat \<Rightarrow> u32 list \<Rightarrow> u32 list" where
  "expand_words 0 m = m"
| "expand_words (Suc n) m =
     (let i = length m; w = m ! (i - 3) XOR m ! (i - 8) XOR m ! (i - 14) XOR m ! (i - 16)
      in expand_words n (m @ [push_bit 1 w OR drop_bit 31 w]))"

type_synonym registers = "u32 \<times> u32 \<times> u32 \<times> u32 \<times> u32"

definition sha1_round :: "(u32 \<Rightarrow> u32 \<Rightarrow> u32 \<Rightarrow> u32) \<Rightarrow> u32 \<Rightarrow> u32 \<Rightarrow> registers \<Rightarrow> registers" where
  "sha1_round f kt w = (\<lambda>(a, b, c, d, e). (ROTLEFT a 5 + f b c d + e + kt + w, a, ROTLEFT b 30, c, d))"

definition sha1_rounds :: "u32 list \<Rightarrow> u32 list \<Rightarrow> registers \<Rightarrow> registers" where
  "sha1_rounds k m r =
     (let r = fold (\<lambda>i. sha1_round (\<lambda>b c d. (b AND c) XOR (NOT b AND d)) (k ! 0) (m ! i)) [0..<20] r;
          r = fold (\<lambda>i. sha1_round (\<lambda>b c d. b XOR c XOR d) (k ! 1) (m ! i)) [20..<40] r;
          r = fold (\<lambda>i. sha1_round (\<lambda>b c d. (b AND c) XOR (b AND d) XOR (c AND d)) (k ! 2) (m ! i)) [40..<60] r
      in fold (\<lambda>i. sha1_round (\<lambda>b c d. b XOR c XOR d) (k ! 3) (m ! i)) [60..<80] r)"

definition sha1_transform :: "u8 list \<Rightarrow> SHA1_CTX \<Rightarrow> SHA1_CTX" where
  "sha1_transform data ctx =
     (let m = expand_words 64 (load_words data); s = ctx_state ctx;
          (a, b, c, d, e) = sha1_rounds (ctx_k ctx) m (s ! 0, s ! 1, s ! 2, s ! 3, s ! 4)
      in ctx\<lparr>ctx_state := [s ! 0 + a, s ! 1 + b, s ! 2 + c, s ! 3 + d, s ! 4 + e]\<rparr>)"

section \<open>The interface\<close>

definition sha1_init :: "SHA1_CTX \<Rightarrow> SHA1_CTX" where
  "sha1_init ctx = ctx\<lparr>datalen := 0, bitlen := 0,
     ctx_state := [0x67452301, 0xEFCDAB89, 0x98BADCFE, 0x10325476, 0xc3d2e1f0],
     ctx_k := [0x5a827999, 0x6ed9eba1, 0x8f1bbcdc, 0xca62c1d6]\<rparr>"

fun sha1_update :: "u8 list \<Rightarrow> SHA1_CTX \<Rightarrow> SHA1_CTX" where
  "sha1_update [] ctx = ctx"
| "sha1_update (x # xs) ctx =
     (let ctx = ctx\<lparr>ctx_data := (ctx_data ctx)[unat (datalen ctx) := x]\<rparr>;
          ctx = ctx\<lparr>datalen := datalen ctx + 1\<rparr>;
          ctx = (if datalen ctx = 64
                 then (sha1_transform (ctx_data ctx) ctx)\<lparr>bitlen := bitlen ctx + 512, datalen := 0\<rparr>
                 else ctx)
      in sha1_update xs ctx)"

text \<open>The loops of \<open>sha1_final\<close> that clear the buffer up to a limit.\<close>

function clear_until :: "nat \<Rightarrow> nat \<Rightarrow> u8 list \<Rightarrow> u8 list" where
  "clear_until limit i data = (if i < limit then clear_until limit (i + 1) (data[i := 0]) else data)"
  by auto
termination by (relation "measure (\<lambda>(limit, i, data). limit - i)") auto

declare clear_until.simps [simp del]

definition store_length :: "u64 \<Rightarrow> u8 list \<Rightarrow> u8 list" where
  "store_length n data = data[63 := ucast n, 62 := ucast (drop_bit 8 n), 61 := ucast (drop_bit 16 n),
     60 := ucast (drop_bit 24 n), 59 := ucast (drop_bit 32 n), 58 := ucast (drop_bit 40 n),
     57 := ucast (drop_bit 48 n), 56 := ucast (drop_bit 56 n)]"

definition sha1_final :: "SHA1_CTX \<Rightarrow> u8 list \<times> SHA1_CTX" where
  "sha1_final ctx =
     (let i = unat (datalen ctx);
          ctx = (if datalen ctx < 56
                 then ctx\<lparr>ctx_data := clear_until 56 (i + 1) ((ctx_data ctx)[i := 0x80])\<rparr>
                 else let ctx = ctx\<lparr>ctx_data := clear_until 64 (i + 1) ((ctx_data ctx)[i := 0x80])\<rparr>;
                          ctx = sha1_transform (ctx_data ctx) ctx
                      in ctx\<lparr>ctx_data := replicate 56 0 @ drop 56 (ctx_data ctx)\<rparr>);
          ctx = ctx\<lparr>bitlen := bitlen ctx + ucast (datalen ctx * 8)\<rparr>;
          ctx = ctx\<lparr>ctx_data := store_length (bitlen ctx) (ctx_data ctx)\<rparr>;
          ctx = sha1_transform (ctx_data ctx) ctx
      in (concat (map (\<lambda>w. map (\<lambda>i. ucast (drop_bit (24 - i * 8) w AND 0xff)) [0..<4]) (ctx_state ctx)), ctx))"

section \<open>The standard\<close>

fun fips_W :: "(nat \<Rightarrow> u32) \<Rightarrow> nat \<Rightarrow> u32" where
  "fips_W M t = (if t < 16 then M t
     else word_rotl 1 (fips_W M (t - 3) XOR fips_W M (t - 8) XOR fips_W M (t - 14) XOR fips_W M (t - 16)))"

declare fips_W.simps [simp del]

definition fips_f :: "nat \<Rightarrow> u32 \<Rightarrow> u32 \<Rightarrow> u32 \<Rightarrow> u32" where
  "fips_f t x y z =
     (if t < 20 then (x AND y) XOR (NOT x AND z) else if t < 40 then x XOR y XOR z
      else if t < 60 then (x AND y) XOR (x AND z) XOR (y AND z) else x XOR y XOR z)"

definition fips_K :: "nat \<Rightarrow> u32" where
  "fips_K t = (if t < 20 then 0x5a827999 else if t < 40 then 0x6ed9eba1 else if t < 60 then 0x8f1bbcdc else 0xca62c1d6)"

definition fips_round :: "(nat \<Rightarrow> u32) \<Rightarrow> nat \<Rightarrow> registers \<Rightarrow> registers" where
  "fips_round W t = (\<lambda>(a, b, c, d, e). (word_rotl 5 a + fips_f t b c d + e + fips_K t + W t, a, word_rotl 30 b, c, d))"

definition be_word :: "u8 list \<Rightarrow> u32" where
  "be_word bs = word_of_nat (foldl (\<lambda>n b. n * 256 + unat b) 0 bs)"

definition fips_block :: "u8 list \<Rightarrow> registers \<Rightarrow> registers" where
  "fips_block M H =
     (case (H, fold (fips_round (fips_W (\<lambda>t. be_word (take 4 (drop (4 * t) M))))) [0..<80] H) of
        ((h0, h1, h2, h3, h4), (a, b, c, d, e)) \<Rightarrow> (h0 + a, h1 + b, h2 + c, h3 + d, h4 + e))"

definition be_bytes :: "nat \<Rightarrow> nat \<Rightarrow> u8 list" where
  "be_bytes n x = map (\<lambda>i. word_of_nat (x div 256 ^ (n - 1 - i))) [0..<n]"

definition fips_pad :: "u8 list \<Rightarrow> u8 list" where
  "fips_pad msg = msg @ [0x80] @ replicate ((119 - length msg mod 64) mod 64) 0 @ be_bytes 8 (8 * length msg)"

fun blocks :: "u8 list \<Rightarrow> u8 list list" where
  "blocks xs = (if length xs < 64 then [] else take 64 xs # blocks (drop 64 xs))"

declare blocks.simps [simp del]

definition fips_H0 :: registers where
  "fips_H0 = (0x67452301, 0xefcdab89, 0x98badcfe, 0x10325476, 0xc3d2e1f0)"

definition fips_sha1 :: "u8 list \<Rightarrow> u8 list" where
  "fips_sha1 msg = (case fold fips_block (blocks (fips_pad msg)) fips_H0 of
     (h0, h1, h2, h3, h4) \<Rightarrow> concat (map (\<lambda>h. be_bytes 4 (unat h)) [h0, h1, h2, h3, h4]))"

section \<open>Compression implements the block function\<close>

lemma ROTLEFT_eq:
  assumes "0 < n" and "n < 32"
  shows "ROTLEFT a n = word_rotl n a"
proof (rule bit_word_eqI)
  fix i :: nat
  assume "i < LENGTH(32)"
  then have i: "i < 32" by simp
  have "bit (word_rotl n a) i = bit a ((i + (32 - n)) mod 32)" using i assms by (simp add: bit_word_rotl_iff)
  also have "\<dots> = bit (ROTLEFT a n) i"
  proof (cases "n \<le> i")
    case True
    with i assms have "(i + (32 - n)) mod 32 = i - n" by (simp add: mod_if)
    moreover have "\<not> bit a (32 - n + i)" using True assms by (auto dest: bit_imp_le_length)
    ultimately show ?thesis using True i by (simp add: ROTLEFT_def bit_or_iff bit_push_bit_iff bit_drop_bit_eq)
  next
    case False
    with i assms show ?thesis by (simp add: ROTLEFT_def bit_or_iff bit_push_bit_iff bit_drop_bit_eq add.commute)
  qed
  finally show "bit (ROTLEFT a n) i = bit (word_rotl n a) i" by simp
qed

lemma load_words_nth:
  assumes "length data = 64" and "t < 16"
  shows "load_words data ! t = be_word (take 4 (drop (4 * t) data))"
proof -
  have "take 4 (drop (4 * t) data) = [data ! (4 * t), data ! (4 * t + 1), data ! (4 * t + 2), data ! (4 * t + 3)]"
    by (rule nth_equalityI) (use assms in \<open>auto simp: less_Suc_eq numeral_eq_Suc nth_Cons'\<close>)
  moreover have "ucast b = word_of_nat (unat b)" for b :: u8 by (simp add: unsigned_of_nat)
  ultimately show ?thesis using assms(2)
    by (simp add: load_words_def be_word_def push_bit_eq_mult algebra_simps)
qed

lemma expand_words_W:
  assumes "16 \<le> length m" and "\<And>i. i < length m \<Longrightarrow> m ! i = fips_W M i"
  shows "length (expand_words n m) = length m + n \<and> (\<forall>i < length m + n. expand_words n m ! i = fips_W M i)"
  using assms
proof (induction n m rule: expand_words.induct)
  case (2 n m)
  define w where "w = m ! (length m - 3) XOR m ! (length m - 8) XOR m ! (length m - 14) XOR m ! (length m - 16)"
  have "ROTLEFT w 1 = fips_W M (length m)"
    using 2(2,3) ROTLEFT_eq [of 1 w] by (subst fips_W.simps) (simp add: w_def)
  then have "\<And>i. i < length (m @ [ROTLEFT w 1]) \<Longrightarrow> (m @ [ROTLEFT w 1]) ! i = fips_W M i"
    using 2(3) by (auto simp: nth_append less_Suc_eq)
  with 2(1) [OF refl w_def] 2(2)
  have "length (expand_words n (m @ [ROTLEFT w 1])) = length (m @ [ROTLEFT w 1]) + n \<and>
      (\<forall>i < length (m @ [ROTLEFT w 1]) + n. expand_words n (m @ [ROTLEFT w 1]) ! i = fips_W M i)"
    by (simp add: ROTLEFT_def)
  moreover have "expand_words (Suc n) m = expand_words n (m @ [ROTLEFT w 1])"
    by (simp only: expand_words.simps Let_def ROTLEFT_def w_def) simp
  ultimately show ?case by simp
qed simp

lemma schedule_eq:
  assumes "length data = 64" and "i < 80"
  shows "expand_words 64 (load_words data) ! i = fips_W (\<lambda>t. be_word (take 4 (drop (4 * t) data))) i"
proof -
  have "length (load_words data) = 16" by (simp add: load_words_def)
  moreover have "load_words data ! i = fips_W (\<lambda>t. be_word (take 4 (drop (4 * t) data))) i" if "i < 16" for i
    using that load_words_nth [OF assms(1)] by (simp add: fips_W.simps)
  ultimately show ?thesis
    using expand_words_W [of "load_words data" "\<lambda>t. be_word (take 4 (drop (4 * t) data))" 64] assms(2) by simp
qed

definition fips_k :: "u32 list" where
  "fips_k = [0x5a827999, 0x6ed9eba1, 0x8f1bbcdc, 0xca62c1d6]"

lemma sha1_loop_eq:
  assumes "\<And>i. lo \<le> i \<Longrightarrow> i < hi \<Longrightarrow> m ! i = W i \<and> kt = fips_K i \<and> f = fips_f i"
  shows "fold (\<lambda>i. sha1_round f kt (m ! i)) [lo..<hi] r = fold (fips_round W) [lo..<hi] r"
  by (rule fold_cong) (use assms in \<open>auto simp: sha1_round_def fips_round_def ROTLEFT_eq fun_eq_iff\<close>)

lemma sha1_rounds_eq:
  assumes "\<And>i. i < 80 \<Longrightarrow> m ! i = W i"
  shows "sha1_rounds fips_k m r = fold (fips_round W) [0..<80] r"
proof -
  have upt: "[0..<80] = [0..<20] @ [20..<40] @ [40..<60] @ [60..<80]"
    using upt_add_eq_append [of 0 20 60] upt_add_eq_append [of 20 40 40] upt_add_eq_append [of 40 60 20]
    by (simp del: upt_rec_numeral upt_Suc)
  note loops = sha1_loop_eq [of 0 20 m W "fips_k ! 0" "\<lambda>b c d. (b AND c) XOR (NOT b AND d)"]
    sha1_loop_eq [of 20 40 m W "fips_k ! 1" "\<lambda>b c d. b XOR c XOR d"]
    sha1_loop_eq [of 40 60 m W "fips_k ! 2" "\<lambda>b c d. (b AND c) XOR (b AND d) XOR (c AND d)"]
    sha1_loop_eq [of 60 80 m W "fips_k ! 3" "\<lambda>b c d. b XOR c XOR d"]
  have *: "fold (\<lambda>i. sha1_round (\<lambda>b c d. (b AND c) XOR (NOT b AND d)) (fips_k ! 0) (m ! i)) [0..<20] r = fold (fips_round W) [0..<20] r"
    "fold (\<lambda>i. sha1_round (\<lambda>b c d. b XOR c XOR d) (fips_k ! 1) (m ! i)) [20..<40] r = fold (fips_round W) [20..<40] r"
    "fold (\<lambda>i. sha1_round (\<lambda>b c d. (b AND c) XOR (b AND d) XOR (c AND d)) (fips_k ! 2) (m ! i)) [40..<60] r = fold (fips_round W) [40..<60] r"
    "fold (\<lambda>i. sha1_round (\<lambda>b c d. b XOR c XOR d) (fips_k ! 3) (m ! i)) [60..<80] r = fold (fips_round W) [60..<80] r" for r
    by (rule loops; use assms in \<open>simp add: fips_K_def fips_f_def fips_k_def fun_eq_iff\<close>)+
  show ?thesis unfolding sha1_rounds_def Let_def * upt fold_append comp_def ..
qed

fun regs_list :: "registers \<Rightarrow> u32 list" where
  "regs_list (a, b, c, d, e) = [a, b, c, d, e]"

lemma sha1_transform_eq:
  assumes "length data = 64" and "ctx_k ctx = fips_k" and "ctx_state ctx = regs_list H"
  shows "sha1_transform data ctx = ctx\<lparr>ctx_state := regs_list (fips_block data H)\<rparr>"
proof -
  obtain a b c d e where H: "H = (a, b, c, d, e)" by (cases H)
  have "sha1_rounds fips_k (expand_words 64 (load_words data)) H =
      fold (fips_round (fips_W (\<lambda>t. be_word (take 4 (drop (4 * t) data))))) [0..<80] H"
    by (rule sha1_rounds_eq) (rule schedule_eq [OF assms(1)])
  then show ?thesis using assms H
    by (cases "fold (fips_round (fips_W (\<lambda>t. be_word (take 4 (drop (4 * t) data))))) [0..<80] H")
      (simp add: sha1_transform_def fips_block_def Let_def)
qed

section \<open>Buffering\<close>

lemma blocks_append: "64 dvd length xs \<Longrightarrow> blocks (xs @ ys) = blocks xs @ blocks ys"
proof (induction xs rule: blocks.induct)
  case (1 xs)
  show ?case
  proof (cases "xs = []")
    case False
    with 1(2) have "64 \<le> length xs" by (auto dest: dvd_imp_le)
    moreover have "64 dvd length (drop 64 xs)" using 1(2) \<open>64 \<le> length xs\<close> by simp
    ultimately show ?thesis using 1(1) by (subst (1 2) blocks.simps) simp
  qed (simp add: blocks.simps [of "[]"])
qed

lemma blocks_one: "length xs = 64 \<Longrightarrow> blocks xs = [xs]"
  by (simp add: blocks.simps [of xs] blocks.simps [of "[]"])

text \<open>The context after \<open>front @ rest\<close>: the complete blocks have been compressed, the rest is in the buffer.\<close>

definition buffered :: "u8 list \<Rightarrow> u8 list \<Rightarrow> SHA1_CTX \<Rightarrow> bool" where
  "buffered front rest ctx \<longleftrightarrow> 64 dvd length front \<and> length rest < 64 \<and> length (ctx_data ctx) = 64 \<and> ctx_k ctx = fips_k \<and>
     unat (datalen ctx) = length rest \<and> take (length rest) (ctx_data ctx) = rest \<and>
     ctx_state ctx = regs_list (fold fips_block (blocks front) fips_H0) \<and> bitlen ctx = word_of_nat (8 * length front)"

lemma unat_eq_word: "unat (w :: 'a::len word) = n \<Longrightarrow> w = word_of_nat n"
  by auto

lemma take_update_next:
  "length xs < length data \<Longrightarrow> take (length xs) data = xs \<Longrightarrow> take (Suc (length xs)) (data[length xs := x]) = xs @ [x]"
  by (simp add: take_Suc_conv_app_nth)

lemma sha1_update_one:
  assumes "buffered front rest ctx"
  shows "if length rest = 63 then buffered (front @ rest @ [x]) [] (sha1_update [x] ctx)
    else buffered front (rest @ [x]) (sha1_update [x] ctx)"
proof -
  note b = assms [unfolded buffered_def]
  define data where "data = (ctx_data ctx)[length rest := x]"
  have len: "unat (datalen ctx + 1) = Suc (length rest)" using b by (simp add: unat_word_ariths)
  have full: "datalen ctx + 1 = 64 \<longleftrightarrow> length rest = 63" using len by (auto simp: word_unat_eq_iff)
  have data: "length data = 64" "take (Suc (length rest)) data = rest @ [x]"
    using b take_update_next [of rest "ctx_data ctx" x] by (simp_all add: data_def)
  show ?thesis
  proof (cases "length rest = 63")
    case True
    then have block: "data = rest @ [x]" using data by simp
    let ?c = "ctx\<lparr>ctx_data := data, datalen := datalen ctx + 1\<rparr>"
    have "sha1_update [x] ctx = (sha1_transform data ?c)\<lparr>bitlen := bitlen ctx + 512, datalen := 0\<rparr>"
      using True full b by (simp add: data_def Let_def)
    also have "\<dots> = ?c\<lparr>ctx_state := regs_list (fips_block data (fold fips_block (blocks front) fips_H0)),
        bitlen := bitlen ctx + 512, datalen := 0\<rparr>"
      using b data(1) by (subst sha1_transform_eq) simp_all
    finally show ?thesis using b True block data(1)
      by (simp add: buffered_def blocks_append blocks_one algebra_simps)
  next
    case False
    then have "sha1_update [x] ctx = ctx\<lparr>ctx_data := data, datalen := datalen ctx + 1\<rparr>"
      using full b by (simp add: data_def Let_def)
    then show ?thesis using b False data len by (simp add: buffered_def)
  qed
qed

lemma sha1_update_buffered:
  "buffered front rest ctx \<Longrightarrow> \<exists>f r. f @ r = front @ rest @ xs \<and> buffered f r (sha1_update xs ctx)"
proof (induction xs arbitrary: front rest ctx)
  case (Cons x xs)
  have split: "sha1_update (x # xs) ctx = sha1_update xs (sha1_update [x] ctx)" by (simp add: Let_def)
  show ?case unfolding split
    using sha1_update_one [OF Cons(2), of x] Cons(1) [of "front @ rest @ [x]" "[]" "sha1_update [x] ctx"]
      Cons(1) [of front "rest @ [x]" "sha1_update [x] ctx"] by (auto split: if_splits simp del: sha1_update.simps)
qed auto

lemma sha1_updates_buffered:
  "buffered front rest ctx \<Longrightarrow> \<exists>f r. f @ r = front @ rest @ concat xss \<and> buffered f r (fold sha1_update xss ctx)"
proof (induction xss arbitrary: front rest ctx)
  case (Cons xs xss)
  obtain f r where f: "f @ r = front @ rest @ xs" "buffered f r (sha1_update xs ctx)"
    using sha1_update_buffered [OF Cons(2)] by blast
  from Cons(1) [OF f(2)] obtain g s where "g @ s = (f @ r) @ concat xss"
    "buffered g s (fold sha1_update xss (sha1_update xs ctx))" by auto
  with f(1) show ?case by (intro exI [of _ g] exI [of _ s]) simp
qed auto

lemma sha1_init_buffered: "length (ctx_data ctx) = 64 \<Longrightarrow> buffered [] [] (sha1_init ctx)"
  by (simp add: buffered_def sha1_init_def fips_k_def fips_H0_def blocks.simps [of "[]"])

section \<open>Padding\<close>

lemma clear_until_eq:
  "i \<le> limit \<Longrightarrow> limit \<le> length data \<Longrightarrow> clear_until limit i data = take i data @ replicate (limit - i) 0 @ drop limit data"
proof (induction limit i data rule: clear_until.induct)
  case (1 limit i data)
  show ?case
  proof (cases "i < limit")
    case True
    then have "limit - i = Suc (limit - (i + 1))" by simp
    with 1 True show ?thesis
      by (subst clear_until.simps) (simp add: take_Suc_conv_app_nth)
  next
    case False
    with 1(2) show ?thesis by (subst clear_until.simps) simp
  qed
qed

lemma byte_of_word: "j < 8 \<Longrightarrow> (ucast (drop_bit (8 * j) (word_of_nat x :: u64)) :: u8) = word_of_nat (x div 256 ^ j)"
proof (rule bit_word_eqI)
  fix i :: nat
  assume "j < 8" "i < LENGTH(8)"
  then have "8 * j + i < 64" by simp
  moreover have "x div 256 ^ j = drop_bit (8 * j) x" by (simp add: drop_bit_eq_div power_mult)
  ultimately show "bit (ucast (drop_bit (8 * j) (word_of_nat x :: u64)) :: u8) i = bit (word_of_nat (x div 256 ^ j) :: u8) i"
    using \<open>i < LENGTH(8)\<close> by (simp add: bit_simps)
qed

lemma byte_of_state: "j < 4 \<Longrightarrow> (ucast (drop_bit (8 * j) (w :: u32) AND 0xff) :: u8) = word_of_nat (unat w div 256 ^ j)"
proof (rule bit_word_eqI)
  fix i :: nat
  assume "j < 4" "i < LENGTH(8)"
  moreover have "unat w div 256 ^ j = drop_bit (8 * j) (unat w)" by (simp add: drop_bit_eq_div power_mult)
  moreover have "bit (0xff :: u32) i"
  proof -
    have "(0xff :: u32) = mask 8" by (simp add: mask_eq_exp_minus_1)
    then show ?thesis using \<open>i < LENGTH(8)\<close> by (simp only: bit_mask_iff) simp
  qed
  ultimately show "bit (ucast (drop_bit (8 * j) w AND 0xff) :: u8) i = bit (word_of_nat (unat w div 256 ^ j) :: u8) i"
    by (simp add: bit_simps)
qed

lemma store_length_eq:
  assumes "length data = 64"
  shows "store_length (word_of_nat x) data = take 56 data @ be_bytes 8 x"
proof (rule nth_equalityI)
  show "length (store_length (word_of_nat x) data) = length (take 56 data @ be_bytes 8 x)"
    using assms by (simp add: store_length_def be_bytes_def)
  fix i
  assume "i < length (store_length (word_of_nat x) data)"
  then have "i < 56 \<or> i \<in> {56, 57, 58, 59, 60, 61, 62, 63}" using assms by (auto simp: store_length_def)
  moreover have "[0..<8] = [0, 1, 2, 3, 4, 5, 6, 7 :: nat]" by (simp add: upt_rec)
  ultimately show "store_length (word_of_nat x) data ! i = (take 56 data @ be_bytes 8 x) ! i"
    using assms byte_of_word [of 0 x] byte_of_word [of 1 x] byte_of_word [of 2 x] byte_of_word [of 3 x]
      byte_of_word [of 4 x] byte_of_word [of 5 x] byte_of_word [of 6 x] byte_of_word [of 7 x]
    by (auto simp: store_length_def be_bytes_def nth_append)
qed

lemma sha1_final_blocks:
  assumes "buffered front rest ctx"
  shows "\<exists>c. sha1_final ctx = (concat (map (\<lambda>w. be_bytes 4 (unat w)) (regs_list (fold fips_block
    (blocks (fips_pad (front @ rest))) fips_H0))), c)"
proof -
  note b = assms [unfolded buffered_def]
  let ?H = "fold fips_block (blocks front) fips_H0"
  define n where "n = 8 * length (front @ rest)"
  define data where "data = (ctx_data ctx)[length rest := 0x80]"
  have data: "length data = 64" "take (Suc (length rest)) data = rest @ [0x80]"
    using b take_update_next [of rest "ctx_data ctx" "0x80"] by (simp_all add: data_def)
  have digest: "map (\<lambda>i. ucast (drop_bit (24 - i * 8) w AND 0xff)) [0..<4] = be_bytes 4 (unat w)" for w :: u32
    using byte_of_state [of 0 w] byte_of_state [of 1 w] byte_of_state [of 2 w] byte_of_state [of 3 w]
    by (simp add: be_bytes_def upt_rec)
  have "ucast (datalen ctx * 8) = (word_of_nat (8 * length rest) :: u64)"
  proof -
    have "unat (datalen ctx * 8) = 8 * length rest" using b by (simp add: unat_word_ariths)
    then show ?thesis by (metis of_nat_unat)
  qed
  then have bits: "bitlen ctx + ucast (datalen ctx * 8) = word_of_nat n" using b by (simp add: n_def)
  have mod: "length (front @ rest) mod 64 = length rest" using b by auto
  show ?thesis
  proof (cases "length rest < 56")
    case True
    let ?d = "take 56 (clear_until 56 (Suc (length rest)) data) @ be_bytes 8 n"
    have "(119 - length rest) mod 64 = 55 - length rest" using True by (simp add: mod_if)
    moreover have "take 56 (clear_until 56 (Suc (length rest)) data) = rest @ [0x80] @ replicate (55 - length rest) 0"
    proof -
      have "clear_until 56 (Suc (length rest)) data = (rest @ [0x80] @ replicate (55 - length rest) 0) @ drop 56 data"
        using True data by (simp add: clear_until_eq)
      moreover have "length (rest @ [0x80] @ replicate (55 - length rest) (0 :: u8)) = 56" using True by simp
      ultimately show ?thesis by (metis append_eq_conv_conj)
    qed
    ultimately have pad: "fips_pad (front @ rest) = front @ ?d"
      using mod by (simp add: fips_pad_def n_def del: length_append)
    have d: "length ?d = 64" using True data by (simp add: clear_until_eq be_bytes_def)
    have clear: "length (clear_until 56 (Suc (length rest)) data) = 64" using True data by (simp add: clear_until_eq)
    have "datalen ctx < 56" using True b by (simp add: word_less_nat_alt)
    then have "sha1_final ctx = (let c = sha1_transform ?d (ctx\<lparr>bitlen := word_of_nat n, ctx_data := ?d\<rparr>)
        in (concat (map (\<lambda>w. be_bytes 4 (unat w)) (ctx_state c)), c))"
      using b bits digest clear by (simp add: sha1_final_def store_length_eq Let_def flip: data_def)
    then show ?thesis using b d pad by (simp add: sha1_transform_eq blocks_append blocks_one Let_def)
  next
    case False
    let ?c = "clear_until 64 (Suc (length rest)) data" and ?d = "replicate 56 0 @ be_bytes 8 n"
    have c: "?c = rest @ [0x80] @ replicate (63 - length rest) 0" using b data by (simp add: clear_until_eq)
    have "(119 - length rest) mod 64 = 63 - length rest + 56" using False b by (simp add: mod_if)
    then have "replicate ((119 - length rest) mod 64) 0 = replicate (63 - length rest) (0 :: u8) @ replicate 56 0"
      unfolding replicate_add [symmetric] by (rule arg_cong)
    then have pad: "fips_pad (front @ rest) = front @ ?c @ ?d"
      using mod c by (simp add: fips_pad_def n_def del: length_append)
    have len: "length ?c = 64" "length ?d = 64" using c b by (simp_all add: be_bytes_def)
    have "\<not> datalen ctx < 56" using False b by (simp add: word_less_nat_alt)
    then have "sha1_final ctx = (let c = sha1_transform ?d (ctx\<lparr>ctx_state := regs_list (fips_block ?c ?H),
        bitlen := word_of_nat n, ctx_data := ?d\<rparr>) in (concat (map (\<lambda>w. be_bytes 4 (unat w)) (ctx_state c)), c))"
      using b bits digest len(1) by (simp add: sha1_final_def store_length_eq sha1_transform_eq Let_def flip: data_def)
    then show ?thesis using b len pad by (simp add: sha1_transform_eq blocks_append blocks_one Let_def)
  qed
qed

lemma sha1_digest:
  "length (ctx_data ctx) = 64 \<Longrightarrow> fst (sha1_final (fold sha1_update chunks (sha1_init ctx))) = fips_sha1 (concat chunks)"
proof -
  assume "length (ctx_data ctx) = 64"
  then obtain f r where "f @ r = concat chunks" "buffered f r (fold sha1_update chunks (sha1_init ctx))"
    using sha1_updates_buffered [OF sha1_init_buffered, of ctx chunks] by auto
  with sha1_final_blocks [OF this(2)] show ?thesis by (auto simp: fips_sha1_def split: prod.splits)
qed

lemma length_clear_until [simp]: "length (clear_until limit i data) = length data"
proof (induction limit i data rule: clear_until.induct)
  case (1 limit i data)
  then show ?case by (subst clear_until.simps) auto
qed

lemma sha1_transform_data [simp]: "ctx_data (sha1_transform d ctx) = ctx_data ctx"
  by (simp add: sha1_transform_def Let_def split: prod.split)

lemma length_sha1_final: "length (ctx_data ctx) = 64 \<Longrightarrow> length (ctx_data (snd (sha1_final ctx))) = 64"
  by (simp add: sha1_final_def store_length_def Let_def)

lemma length_sha1_update: "length (ctx_data (sha1_update xs ctx)) = length (ctx_data ctx)"
  by (induction xs ctx rule: sha1_update.induct) (simp_all add: Let_def)

lemma length_fips_sha1: "length (fips_sha1 msg) = 20"
  by (simp add: fips_sha1_def be_bytes_def split: prod.splits)

section \<open>Properties\<close>

text \<open>C16: \<^verbatim>\<open>sha1.c\<close> computes SHA-1. However a message is cut into calls of \<open>sha1_update\<close>, with whatever was in the
  context and the buffer before \<open>sha1_init\<close>, the hash that \<open>sha1_final\<close> stores is the SHA-1 of the whole message as
  the standard defines it, and has 20 bytes. (The length field holds the number of bits modulo \<open>2 ^ 64\<close>, in the code as in the
  reference, so that no bound on the length is needed.)\<close>

theorem sha1_computes_fips:
  assumes "length (ctx_data ctx) = 64"
  shows "fst (sha1_final (fold sha1_update chunks (sha1_init ctx))) = fips_sha1 (concat chunks) \<and>
    length (fst (sha1_final (fold sha1_update chunks (sha1_init ctx)))) = 20"
  using sha1_digest [OF assms, of chunks] length_fips_sha1 by simp

definition blank_ctx :: SHA1_CTX where
  "blank_ctx = \<lparr>ctx_data = replicate 64 0xaa, datalen = 7, bitlen = 7, ctx_state = [], ctx_k = []\<rparr>"

theorem sha1_computes_fips_witness:
  "fst (sha1_final (fold sha1_update [[0x61, 0x62], [0x63]] (sha1_init blank_ctx))) = fips_sha1 [0x61, 0x62, 0x63]"
proof -
  have "length (ctx_data blank_ctx) = 64" by (simp add: blank_ctx_def)
  from sha1_computes_fips [OF this, of "[[0x61, 0x62], [0x63]]"] show ?thesis by simp
qed

end
