(* ===== verification/Package_Installer.thy ===== *)
theory Package_Installer
  imports Package_Safety Sha1
begin

text \<open>
  The rest of \<^verbatim>\<open>package_installer.c\<close>: the package header that is made from a template (\<^verbatim>\<open>vita_shell_head_bin.h\<close>),
  the promotion of the staging directory, and the installation as a whole.
\<close>

section \<open>The header\<close>

definition head_bytes :: "nat list" where
  "head_bytes = [
     0x7f, 0x50, 0x4b, 0x47, 0x00, 0x00, 0x00, 0x01, 0x00, 0x00, 0x02, 0x80,
     0x00, 0x00, 0x00, 0x0b, 0x00, 0x00, 0x01, 0x90, 0x00, 0x00, 0x00, 0x03,
     0x00, 0x00, 0x00, 0x00, 0x00, 0x01, 0x90, 0x00, 0x00, 0x00, 0x00, 0x00,
     0x00, 0x00, 0x0a, 0x90, 0x00, 0x00, 0x00, 0x00, 0x00, 0x00, 0x03, 0x10,
     0x00, 0x00, 0x00, 0x00, 0x00, 0x00, 0x00, 0x00, 0x00, 0x00, 0x00, 0x00,
     0x00, 0x00, 0x00, 0x00, 0x00, 0x00, 0x00, 0x00, 0x00, 0x00, 0x00, 0x00,
     0x00, 0x00, 0x00, 0x00, 0x00, 0x00, 0x00, 0x00, 0x00, 0x00, 0x00, 0x00,
     0x00, 0x00, 0x00, 0x00, 0x00, 0x00, 0x00, 0x00, 0x00, 0x00, 0x00, 0x00,
     0xa6, 0x89, 0x94, 0x38, 0x19, 0xf2, 0xdd, 0x05, 0x87, 0x94, 0xb0, 0xb6,
     0x7f, 0xc9, 0x30, 0x76, 0xdc, 0x2f, 0x22, 0xf2, 0x25, 0x40, 0xc6, 0xdf,
     0x94, 0xcb, 0xb7, 0x78, 0xf8, 0xa2, 0x54, 0x95, 0x8c, 0xe6, 0xfd, 0x74,
     0x81, 0x0c, 0xf7, 0x9d, 0x47, 0xb2, 0x86, 0x60, 0x3c, 0x2e, 0x00, 0xbb,
     0xa2, 0x07, 0x59, 0x51, 0xe7, 0x95, 0xa4, 0xed, 0x83, 0x50, 0x35, 0xbc,
     0x65, 0x63, 0xfe, 0x70, 0x8b, 0xab, 0x0c, 0x49, 0x73, 0x9d, 0xa3, 0xc9,
     0x1f, 0x74, 0x48, 0x22, 0x70, 0x93, 0xfc, 0xe9, 0x40, 0xca, 0x74, 0x97,
     0xba, 0xf1, 0xde, 0x1c, 0xaa, 0x67, 0xb7, 0x41, 0x78, 0xd7, 0x15, 0x68,
     0x7f, 0x65, 0x78, 0x74, 0x00, 0x00, 0x00, 0x01, 0x00, 0x00, 0x00, 0x40,
     0x00, 0x00, 0x01, 0x80, 0x00, 0x00, 0x01, 0x00, 0x00, 0x00, 0x04, 0x10,
     0x00, 0x00, 0x00, 0x00, 0x00, 0x00, 0x0d, 0xe0, 0x00, 0x00, 0x00, 0x00,
     0xc0, 0x00, 0x00, 0x02, 0x00, 0x00, 0x04, 0x20, 0x00, 0x00, 0x00, 0x00,
     0x00, 0x00, 0x00, 0x00, 0x00, 0x00, 0x00, 0x00, 0x00, 0x00, 0x00, 0x00,
     0x00, 0x00, 0x00, 0x00, 0xff, 0xff, 0xff, 0xff, 0xff, 0xff, 0xff, 0xff,
     0xff, 0xff, 0xff, 0xff, 0xff, 0xff, 0xff, 0xff, 0x0a, 0xa2, 0xcb, 0x21,
     0x8b, 0x37, 0x06, 0x2d, 0x3e, 0x05, 0xfa, 0x11, 0x72, 0x72, 0x88, 0x85,
     0xc9, 0x7b, 0x03, 0x99, 0xa0, 0x70, 0x9c, 0xf8, 0xcf, 0x9d, 0x41, 0x01,
     0xd6, 0x17, 0x9f, 0xd3, 0x57, 0x79, 0x67, 0xf9, 0xb6, 0xf8, 0x56, 0x3d,
     0xca, 0xfc, 0xa1, 0x98, 0xe2, 0xc7, 0xcf, 0xd6, 0x2e, 0x1b, 0xd6, 0x1b,
     0xbe, 0x6f, 0xc1, 0x92, 0xbe, 0xe0, 0xb3, 0xc2, 0xe5, 0x65, 0x5a, 0x45,
     0xd9, 0x88, 0xb4, 0x97, 0x5e, 0x16, 0x31, 0x3d, 0xa2, 0x3e, 0x16, 0xae,
     0xd4, 0xb7, 0xd5, 0x36, 0xe3, 0xac, 0x80, 0x8f, 0x18, 0xfe, 0xad, 0x1a,
     0x85, 0x20, 0xce, 0xee, 0xda, 0x5d, 0xb7, 0x95, 0x46, 0x34, 0xcc, 0x49,
     0x52, 0x09, 0xf6, 0xeb, 0xa5, 0x0a, 0xe5, 0x7c, 0xb5, 0x7f, 0xaf, 0x6f,
     0x4c, 0x06, 0x8c, 0xe4, 0xd8, 0x5a, 0x03, 0xaf, 0x92, 0x4e, 0x95, 0x5b,
     0xbc, 0xe0, 0xc2, 0xac, 0xff, 0x12, 0x95, 0x31, 0x92, 0xad, 0x06, 0xe8,
     0x17, 0x2c, 0xb1, 0xdc, 0x36, 0xa4, 0xc3, 0x9b, 0xe2, 0x3e, 0x2b, 0xec,
     0x65, 0x53, 0xeb, 0x58, 0x84, 0x49, 0x09, 0x0b, 0xf4, 0xc6, 0xb4, 0x02,
     0x70, 0xf3, 0x64, 0x58, 0x75, 0x14, 0x00, 0xf8, 0x68, 0x88, 0x46, 0x7e,
     0x5c, 0xbc, 0xbe, 0x8b, 0x5f, 0xac, 0xe0, 0xe4, 0xa6, 0xf5, 0x77, 0xdd,
     0xd9, 0xe5, 0xaf, 0x05, 0xf0, 0x5d, 0xae, 0x22, 0x7f, 0xb4, 0xd1, 0x1c,
     0x7f, 0xcc, 0x3e, 0x98, 0x55, 0xb9, 0x69, 0xd2, 0xd2, 0x10, 0x55, 0x45,
     0x4b, 0x3c, 0x95, 0x70, 0xb7, 0xc3, 0xdb, 0xfe, 0x23, 0xaf, 0xcd, 0x27,
     0xa2, 0xd3, 0xac, 0x8c, 0x11, 0x09, 0xbf, 0xf6, 0xb2, 0x01, 0x62, 0x09,
     0xc1, 0xda, 0xfd, 0xa7, 0x47, 0xa9, 0x48, 0xf4, 0x46, 0x26, 0x06, 0xf2,
     0x76, 0x4d, 0xfe, 0x6f, 0x3f, 0x10, 0xb0, 0x1c, 0x1a, 0xde, 0x73, 0x8b,
     0x14, 0x73, 0x3c, 0x39, 0xb6, 0xc6, 0x1b, 0xa1, 0x65, 0x99, 0xb8, 0x33,
     0xac, 0xb8, 0x16, 0xb4, 0xe6, 0xa5, 0xec, 0x02, 0x0b, 0x5b, 0x70, 0x23,
     0xeb, 0x24, 0x1a, 0xf7, 0x8c, 0xda, 0x55, 0x96, 0xdd, 0x4b, 0x1c, 0x85,
     0x83, 0x49, 0x01, 0xb2, 0x39, 0xbc, 0x31, 0x3b, 0xe8, 0xf1, 0x5a, 0x49,
     0xcc, 0xcf, 0x0f, 0x85, 0x5f, 0x54, 0x79, 0xe8, 0x31, 0x8d, 0x57, 0x1b,
     0xb1, 0xc2, 0x93, 0x87, 0xe2, 0xe6, 0x56, 0xcf, 0x92, 0x51, 0xfc, 0x49,
     0x94, 0xcd, 0xb5, 0x04, 0x1b, 0x04, 0x47, 0xf7, 0xb4, 0xd2, 0x67, 0x31,
     0x54, 0xf0, 0xad, 0x3a, 0xd4, 0x25, 0x8c, 0xed, 0xe9, 0x9b, 0x12, 0xfc,
     0x47, 0x1c, 0xfc, 0x6e, 0x81, 0x29, 0x8b, 0x39, 0xab, 0xbb, 0xf0, 0x35,
     0x00, 0x87, 0x88, 0x87, 0x00, 0x00, 0x00, 0x01, 0x00, 0x00, 0x00, 0x04,
     0x00, 0x00, 0x00, 0x02, 0x00, 0x00, 0x00, 0x02, 0x00, 0x00, 0x00, 0x04,
     0x00, 0x00, 0x00, 0x15, 0x00, 0x00, 0x00, 0x03, 0x00, 0x00, 0x00, 0x04,
     0x00, 0x00, 0x00, 0x0e, 0x00, 0x00, 0x00, 0x04, 0x00, 0x00, 0x00, 0x08,
     0x00, 0x00, 0x00, 0x00, 0x00, 0x01, 0x90, 0x00, 0x00, 0x00, 0x00, 0x05,
     0x00, 0x00, 0x00, 0x04, 0x19, 0x67, 0x01, 0x00, 0x00, 0x00, 0x00, 0x08,
     0x00, 0x00, 0x00, 0x08, 0x00, 0x00, 0x00, 0x00, 0x00, 0x00, 0x00, 0x00,
     0x00, 0x00, 0x00, 0x09, 0x00, 0x00, 0x00, 0x08, 0x00, 0x00, 0x00, 0x00,
     0x00, 0x24, 0x00, 0x00, 0x00, 0x00, 0x00, 0x0d, 0x00, 0x00, 0x00, 0x28,
     0x00, 0x00, 0x00, 0x00, 0x00, 0x00, 0x00, 0xb0, 0x1a, 0x92, 0x07, 0x04,
     0x61, 0x0c, 0x9d, 0x14, 0x55, 0x8e, 0x17, 0x74, 0xb6, 0x44, 0xd2, 0x5c,
     0x93, 0xf3, 0xc1, 0x58, 0x0f, 0x91, 0x22, 0x2f, 0xfd, 0xb4, 0x42, 0xaa,
     0x64, 0xfc, 0x8a, 0xd0, 0x00, 0x00, 0x00, 0x0f, 0x00, 0x00, 0x00, 0x48,
     0x00, 0x00, 0x05, 0x90, 0x00, 0x00, 0x03, 0x20, 0x00, 0x00, 0x00, 0x00,
     0x00, 0x00, 0x00, 0x00, 0x00, 0x00, 0x00, 0x00, 0x01, 0x01, 0x01, 0x01,
     0x00, 0x00, 0x00, 0x00, 0x00, 0x00, 0x00, 0x00, 0x00, 0x00, 0x00, 0x00,
     0x00, 0x00, 0x00, 0x00, 0xbe, 0x9a, 0x07, 0x26, 0x1a, 0x91, 0xd6, 0x35,
     0x93, 0xcd, 0x59, 0xf4, 0x13, 0x23, 0x34, 0x05, 0x5b, 0xc4, 0xf5, 0xc3,
     0x31, 0xf3, 0xf9, 0xf1, 0x7e, 0xdb, 0x7f, 0x53, 0x0f, 0x1a, 0x0a, 0x79,
     0x00, 0x00, 0x00, 0x10, 0x00, 0x00, 0x00, 0x38, 0x00, 0x00, 0x0a, 0x30,
     0x00, 0x00, 0x00, 0x60, 0xc2, 0x00, 0x00, 0x00, 0x00, 0x00, 0x00, 0x01,
     0x00, 0x00, 0x00, 0x00, 0x00, 0x00, 0x00, 0x00, 0xc3, 0x2a, 0xa0, 0xf7,
     0x3a, 0x41, 0x84, 0x7c, 0xb8, 0x66, 0x43, 0x7b, 0xca, 0xcd, 0x68, 0x5e,
     0x44, 0xab, 0xd9, 0x85, 0xc9, 0x6b, 0xad, 0x33, 0xa9, 0xbc, 0x88, 0xc6,
     0x75, 0xc5, 0x23, 0x9e, 0x00, 0x00, 0x00, 0x11, 0x00, 0x00, 0x00, 0x28,
     0x01, 0x72, 0x00, 0x00, 0x00, 0x00, 0x00, 0x00, 0x00, 0x00, 0x00, 0x00,
     0x00, 0x00, 0x00, 0x00, 0x00, 0x00, 0x00, 0x00, 0x00, 0x00, 0x00, 0x00,
     0x00, 0x00, 0x00, 0x00, 0x00, 0x00, 0x00, 0x00, 0x00, 0x00, 0x00, 0x00,
     0x00, 0x00, 0x00, 0x00, 0x7a, 0xfe, 0xf5, 0x79, 0x30, 0xaf, 0x76, 0xe0,
     0x46, 0xfc, 0x75, 0xdf, 0x08, 0x4e, 0xb8, 0x45, 0x3d, 0x4f, 0xcb, 0xf4,
     0x3d, 0x9b, 0xfa, 0x5f, 0x61, 0x99, 0x6a, 0xde, 0x9c, 0x2e, 0x1a, 0x9c,
     0x19, 0x15, 0x10, 0x1d, 0x71, 0xe6, 0xc0, 0x5a, 0x84, 0x3d, 0x20, 0xe8,
     0xae, 0x1e, 0x1c, 0x71, 0x94, 0xee, 0xbc, 0x73, 0x4d, 0x2c, 0x46, 0xbf,
     0x3c, 0xf3, 0x5b, 0x30, 0x3a, 0xc3, 0x18, 0x20, 0xff, 0xff, 0xff, 0xff,
     0xff, 0xff, 0xff, 0xff, 0xff, 0xff, 0xff, 0xff, 0xff, 0xff, 0xff, 0xff,
     0xff, 0xff, 0xff, 0xff, 0xff, 0xff, 0xff, 0xff, 0xff, 0xff, 0xff, 0xff,
     0xff, 0xff, 0xff, 0xff]"

definition vita_shell_head_bin :: string where
  "vita_shell_head_bin = map char_of head_bytes"

abbreviation (input) vita_shell_head_bin_len :: nat where "vita_shell_head_bin_len \<equiv> 1072"

text \<open>The stack of \<open>fpkg_hmac\<close> before the initialization of the context; its bytes do not matter.\<close>

definition stack_ctx :: SHA1_CTX where
  "stack_ctx = \<lparr>ctx_data = replicate 64 0, datalen = 0, bitlen = 0, ctx_state = [], ctx_k = []\<rparr>"

definition fpkg_hmac :: "string \<Rightarrow> string" where
  "fpkg_hmac data =
     (let (sha1, context) = sha1_final (sha1_update (map of_char data) (sha1_init stack_ctx));
          low = take 8 (drop 4 sha1);
          high = take 4 (drop 12 sha1) @ [sha1 ! 16, sha1 ! 1, sha1 ! 2, sha1 ! 3];
          (sha1, context) = sha1_final (sha1_update (low @ low @ high @ high @ replicate 32 0) (sha1_init context))
      in map (\<lambda>b. char_of (unat b)) (take 16 sha1))"

text \<open>\<open>memcpy\<close> and \<open>memset\<close> into a buffer; \<open>None\<close> is an access outside of it.\<close>

definition patch :: "string \<Rightarrow> nat \<Rightarrow> string \<Rightarrow> string option" where
  "patch buf i bs = (if i + length bs \<le> length buf then Some (take i buf @ bs @ drop (i + length bs) buf) else None)"

text \<open>Storing the code of a part of the header in it.\<close>

definition sign :: "string \<Rightarrow> nat \<Rightarrow> nat \<Rightarrow> nat \<Rightarrow> string option" where
  "sign head start n to = do {
     data \<leftarrow> mem_read head start n;
     patch head to (fpkg_hmac data) }"

definition fill_head :: "string \<Rightarrow> (i32 + string) option" where
  "fill_head content_id = do {
     content \<leftarrow> Some (content_id @ replicate (48 - length content_id) NUL);
     head \<leftarrow> patch vita_shell_head_bin 0x30 (replicate 48 NUL);
     n \<leftarrow> bounded_string_length content 0 48;
     bytes \<leftarrow> mem_read content 0 n;
     head \<leftarrow> patch head 0x30 bytes;
     len \<leftarrow> read_be32 head 0xD0;
     if vita_shell_head_bin_len < unat len + 16 then Some (Inl INSTALL_ERROR_SFO)
     else do {
       head \<leftarrow> sign head 0 (unat len) (unat len);
       start \<leftarrow> read_be32 head 0x8;
       len \<leftarrow> read_be32 head 0x10;
       to \<leftarrow> read_be32 head 0xD4;
       if len < 64 \<or> vita_shell_head_bin_len < unat start + unat len \<or> vita_shell_head_bin_len < unat to + 16
       then Some (Inl INSTALL_ERROR_SFO)
       else do {
         head \<leftarrow> sign head (unat start) (unat len - 64) (unat to);
         len \<leftarrow> read_be32 head 0xE8;
         if vita_shell_head_bin_len < unat len + 16 then Some (Inl INSTALL_ERROR_SFO)
         else do {
           head \<leftarrow> sign head 0 (unat len) (unat len);
           Some (Inr head) } } } }"

section \<open>The codes\<close>

lemma fpkg_hmac_eq:
  "fpkg_hmac data = (let h = fips_sha1 (map of_char data); low = take 8 (drop 4 h);
      high = take 4 (drop 12 h) @ [h ! 16, h ! 1, h ! 2, h ! 3]
    in map (\<lambda>b. char_of (unat b)) (take 16 (fips_sha1 (low @ low @ high @ high @ replicate 32 0))))"
proof -
  have one: "fst (sha1_final (sha1_update xs (sha1_init ctx))) = fips_sha1 xs" if "length (ctx_data ctx) = 64" for xs ctx
    using sha1_digest [OF that, of "[xs]"] by simp
  let ?c = "sha1_update (map of_char data) (sha1_init stack_ctx)"
  have "length (ctx_data ?c) = 64" by (simp add: length_sha1_update sha1_init_def stack_ctx_def)
  then have len: "length (ctx_data (snd (sha1_final ?c))) = 64" by (rule length_sha1_final)
  have "fst (sha1_final ?c) = fips_sha1 (map of_char data)" by (rule one) (simp add: stack_ctx_def)
  then show ?thesis using one [OF len]
    by (simp add: fpkg_hmac_def Let_def case_prod_beta)
qed

lemma length_fpkg_hmac [simp]: "length (fpkg_hmac data) = 16"
  by (simp add: fpkg_hmac_eq Let_def length_fips_sha1)

section \<open>The header verifies\<close>

lemma length_template: "length vita_shell_head_bin = 1072"
  by (simp add: vita_shell_head_bin_def head_bytes_def)

lemma template_byte: "i < 1072 \<Longrightarrow> byte_at vita_shell_head_bin i = Some (word_of_nat (head_bytes ! i))"
proof -
  have "(of_char (char_of (m :: nat)) :: u8) = word_of_nat m" for m
    unfolding of_char_word by (simp add: word_of_nat_eq_iff take_bit_eq_mod)
  then show "i < 1072 \<Longrightarrow> ?thesis" using length_template by (simp add: byte_at_def vita_shell_head_bin_def)
qed

lemma template_fields:
  "read_be32 vita_shell_head_bin 0x8 = Some 640" "read_be32 vita_shell_head_bin 0x10 = Some 400"
  "read_be32 vita_shell_head_bin 0xD0 = Some 256" "read_be32 vita_shell_head_bin 0xD4 = Some 1040"
  "read_be32 vita_shell_head_bin 0xE8 = Some 1056"
  by (simp_all add: read_be32_def template_byte head_bytes_def)

text \<open>A part of a buffer, and buffers that agree on it.\<close>

abbreviation part :: "string \<Rightarrow> nat \<Rightarrow> nat \<Rightarrow> string" where
  "part buf i n \<equiv> take n (drop i buf)"

lemma part_eq:
  "length a = length b \<Longrightarrow> (\<And>k. i \<le> k \<Longrightarrow> k < i + n \<Longrightarrow> k < length b \<Longrightarrow> a ! k = b ! k) \<Longrightarrow> part a i n = part b i n"
  by (rule nth_equalityI) auto

lemma read_be32_same:
  "length a = length b \<Longrightarrow> i + 4 \<le> length b \<Longrightarrow> (\<And>k. i \<le> k \<Longrightarrow> k < i + 4 \<Longrightarrow> a ! k = b ! k) \<Longrightarrow> read_be32 a i = read_be32 b i"
  by (simp add: read_be32_def byte_at_def)

lemma patch_spec:
  assumes "i + length bs \<le> length buf"
  shows "\<exists>c. patch buf i bs = Some c \<and> length c = length buf \<and> part c i (length bs) = bs \<and>
    (\<forall>k < length buf. \<not> (i \<le> k \<and> k < i + length bs) \<longrightarrow> c ! k = buf ! k)"
  using assms by (auto simp: patch_def nth_append not_less min_def)

lemma sign_spec:
  assumes "start + n \<le> length head" and "to + 16 \<le> length head"
  shows "\<exists>c. sign head start n to = Some c \<and> length c = length head \<and> part c to 16 = fpkg_hmac (part head start n) \<and>
    (\<forall>k < length head. \<not> (to \<le> k \<and> k < to + 16) \<longrightarrow> c ! k = head ! k)"
  using patch_spec [of to "fpkg_hmac (part head start n)" head] assms by (simp add: sign_def mem_read_def)

text \<open>Where the header differs from its template.\<close>

definition filled :: "nat set" where
  "filled = {0x30..<0x60} \<union> {256..<272} \<union> {1040..<1072}"

text \<open>A header with a content identifier and three valid codes, and the template everywhere else.\<close>

definition valid_head :: "string \<Rightarrow> string \<Rightarrow> bool" where
  "valid_head content_id head \<longleftrightarrow> length head = 1072 \<and> part head 0x30 48 = content_id @ replicate (48 - length content_id) NUL \<and>
     part head 256 16 = fpkg_hmac (part head 0 256) \<and> part head 1040 16 = fpkg_hmac (part head 640 336) \<and>
     part head 1056 16 = fpkg_hmac (part head 0 1056) \<and>
     (\<forall>k < 1072. k \<notin> filled \<longrightarrow> head ! k = vita_shell_head_bin ! k)"

lemma content_patches:
  assumes "length c < 48" and "NUL \<notin> set c"
  shows "\<exists>b h. patch vita_shell_head_bin 0x30 (replicate 48 NUL) = Some b \<and>
    bounded_string_length (c @ replicate (48 - length c) NUL) 0 48 = Some (length c) \<and>
    mem_read (c @ replicate (48 - length c) NUL) 0 (length c) = Some c \<and> patch b 0x30 c = Some h \<and>
    length h = 1072 \<and> part h 0x30 48 = c @ replicate (48 - length c) NUL \<and>
    (\<forall>k < 1072. \<not> (0x30 \<le> k \<and> k < 0x60) \<longrightarrow> h ! k = vita_shell_head_bin ! k)"
proof -
  let ?c = "c @ replicate (48 - length c) NUL"
  let ?b = "take 0x30 vita_shell_head_bin @ replicate 48 NUL @ drop 0x60 vita_shell_head_bin"
  let ?h = "take 0x30 ?b @ c @ drop (0x30 + length c) ?b"
  have "48 - length c = Suc (47 - length c)" using assms(1) by simp
  then have "cstr ?c = c" using cstr_append_NUL [OF assms(2), of "replicate (47 - length c) NUL"] by simp
  then have "bounded_string_length ?c 0 48 = Some (length c)" using assms(1) by (simp add: bounded_string_length_eq)
  moreover have "patch vita_shell_head_bin 0x30 (replicate 48 NUL) = Some ?b" by (simp add: patch_def length_template)
  moreover have "patch ?b 0x30 c = Some ?h" using assms(1) by (simp add: patch_def length_template)
  moreover have "mem_read ?c 0 (length c) = Some c" using assms(1) by (simp add: mem_read_def)
  moreover have "length ?h = 1072" using assms(1) by (simp add: length_template)
  moreover have "part ?h 0x30 48 = ?c" using assms(1) by (simp add: length_template)
  moreover have "\<forall>k < 1072. \<not> (0x30 \<le> k \<and> k < 0x60) \<longrightarrow> ?h ! k = vita_shell_head_bin ! k"
    using assms(1) by (auto simp: length_template nth_append not_less min_def)
  ultimately show ?thesis by blast
qed

lemma fill_head_valid:
  assumes "length c < 48" and "NUL \<notin> set c"
  shows "\<exists>head. fill_head c = Some (Inr head) \<and> valid_head c head"
proof -
  let ?T = vita_shell_head_bin
  obtain b h where h: "patch ?T 0x30 (replicate 48 NUL) = Some b"
    "bounded_string_length (c @ replicate (48 - length c) NUL) 0 48 = Some (length c)"
    "mem_read (c @ replicate (48 - length c) NUL) 0 (length c) = Some c" "patch b 0x30 c = Some h"
    "length h = 1072" "part h 0x30 48 = c @ replicate (48 - length c) NUL"
    "\<forall>k < 1072. \<not> (0x30 \<le> k \<and> k < 0x60) \<longrightarrow> h ! k = ?T ! k"
    using content_patches [OF assms] by blast
  obtain h1 where h1: "sign h 0 256 256 = Some h1" "length h1 = 1072" "part h1 256 16 = fpkg_hmac (part h 0 256)"
    "\<forall>k < 1072. \<not> (256 \<le> k \<and> k < 272) \<longrightarrow> h1 ! k = h ! k" using sign_spec [of 0 256 h 256] h(5) by auto
  obtain h2 where h2: "sign h1 640 336 1040 = Some h2" "length h2 = 1072" "part h2 1040 16 = fpkg_hmac (part h1 640 336)"
    "\<forall>k < 1072. \<not> (1040 \<le> k \<and> k < 1056) \<longrightarrow> h2 ! k = h1 ! k" using sign_spec [of 640 336 h1 1040] h1(2) by auto
  obtain h3 where h3: "sign h2 0 1056 1056 = Some h3" "length h3 = 1072" "part h3 1056 16 = fpkg_hmac (part h2 0 1056)"
    "\<forall>k < 1072. \<not> (1056 \<le> k \<and> k < 1072) \<longrightarrow> h3 ! k = h2 ! k" using sign_spec [of 0 1056 h2 1056] h2(2) by auto
  have len: "length ?T = 1072" by (rule length_template)
  have "read_be32 h 0xD0 = Some 256" "read_be32 h1 0x8 = Some 640" "read_be32 h1 0x10 = Some 400"
    "read_be32 h1 0xD4 = Some 1040" "read_be32 h2 0xE8 = Some 1056"
    unfolding template_fields [symmetric] by (rule read_be32_same; use h h1 h2 len in simp)+
  then have run: "fill_head c = Some (Inr h3)" using h h1(1) h2(1) h3(1) by (simp add: fill_head_def)
  have parts: "part h3 0x30 48 = part h 0x30 48" "part h3 256 16 = part h1 256 16" "part h3 0 256 = part h 0 256"
    "part h3 1040 16 = part h2 1040 16" "part h3 640 336 = part h1 640 336" "part h3 0 1056 = part h2 0 1056"
    by (rule part_eq; use h h1 h2 h3 in simp)+
  have "\<forall>k < 1072. k \<notin> filled \<longrightarrow> h3 ! k = ?T ! k" using h(7) h1(4) h2(4) h3(4) by (auto simp: filled_def)
  then have "valid_head c h3" unfolding valid_head_def parts using h(6) h1(3) h2(3) h3(2,3) by simp
  with run show ?thesis by blast
qed

section \<open>Making the header of a package\<close>

definition INSTALL_HEAD :: string where
  "INSTALL_HEAD = INSTALL_STAGE @ ''/sce_sys/package/head.bin''"

definition INSTALL_SFO :: string where
  "INSTALL_SFO = INSTALL_STAGE @ ''/sce_sys/param.sfo''"

text \<open>The title and the content identifier (empty when there is none) of a system file.\<close>

definition package_ids :: "string \<Rightarrow> (i32 + string \<times> string) option" where
  "package_ids sfo = do {
     title \<leftarrow> sfo_string sfo ''TITLE_ID'' 12;
     case title of
       Inl e \<Rightarrow> Some (Inl e)
     | Inr parsed_title_id \<Rightarrow>
         if \<not> valid_title_id parsed_title_id then Some (Inl INSTALL_ERROR_TITLE_ID)
         else do {
           content \<leftarrow> sfo_string sfo ''CONTENT_ID'' 48;
           Some (Inr (parsed_title_id, case content of Inl e \<Rightarrow> [] | Inr v \<Rightarrow> v)) } }"

definition selected_content_id :: "string \<Rightarrow> string \<Rightarrow> string" where
  "selected_content_id parsed_title_id content_id =
     (if content_id = [] then snprintf 48 (''EP9000-'' @ parsed_title_id @ ''_00-0000000000000000'') else content_id)"

definition write_head :: "'w env \<Rightarrow> string \<Rightarrow> ('w, 'z) sysst_scheme \<Rightarrow> (i32 \<times> ('w, 'z) sysst_scheme) option" where
  "write_head E head s =
     (let (result, s) = ensure_parent_directory E INSTALL_HEAD s
      in if neg result then Some (result, s)
         else let (r, s) = syscall E (Io (sceIoOpen (Some INSTALL_HEAD) [SCE_O_WRONLY, SCE_O_CREAT, SCE_O_TRUNC])) s;
                  output_file = rc r
              in if neg output_file then Some (output_file, s)
                 else let (w, s) = syscall E (Io (sceIoWrite output_file head)) s;
                          (_, s) = syscall E (Io (sceIoClose output_file)) s
                      in Some (if rc w \<noteq> of_nat vita_shell_head_bin_len
                               then (if neg (rc w) then rc w else INSTALL_ERROR_IO) else result, s))"

text \<open>The result, and the title that has been stored for the caller.\<close>

definition make_head_bin ::
  "'w env \<Rightarrow> nat \<Rightarrow> ('w, 'z) sysst_scheme \<Rightarrow> ((i32 \<times> string option) \<times> ('w, 'z) sysst_scheme) option" where
  "make_head_bin E title_id_size s = do {
     (sfo, s) \<leftarrow> read_file E INSTALL_SFO s;
     case sfo of
       Inl e \<Rightarrow> Some ((e, None), s)
     | Inr (buffer, contents) \<Rightarrow> do {
         ids \<leftarrow> package_ids contents;
         let (_, s) = syscall E (Kernel (free buffer)) s;
         case ids of
           Inl e \<Rightarrow> Some ((e, None), s)
         | Inr (parsed_title_id, content_id) \<Rightarrow>
             let (m, s) = syscall E (Kernel (malloc (of_nat vita_shell_head_bin_len))) s
             in if rc m = 0 then Some ((INSTALL_ERROR_MEMORY, None), s)
                else do {
                  head \<leftarrow> fill_head (selected_content_id parsed_title_id content_id);
                  (result, s) \<leftarrow> (case head of Inl e \<Rightarrow> Some (e, s) | Inr head \<Rightarrow> write_head E head s);
                  let (_, s) = syscall E (Kernel (free (rc m))) s;
                  Some (if neg result then (result, None) else (0, Some (snprintf title_id_size parsed_title_id)), s) } } }"

section \<open>Promotion and installation\<close>

definition promote_package :: "'w env \<Rightarrow> ('w, 'z) sysst_scheme \<Rightarrow> (i32 \<times> ('w, 'z) sysst_scheme) option" where
  "promote_package E s =
     (let (r, s) = syscall E (App scePromoterUtilityInit) s
      in if neg (rc r) then Some (rc r, s)
         else let (p, s) = syscall E (App (scePromoterUtilityPromotePkgWithRif INSTALL_STAGE)) s;
                  (x, s) = syscall E (App scePromoterUtilityExit) s
              in Some (if \<not> neg (rc p) \<and> neg (rc x) then rc x else rc p, s))"

definition promote_stage :: "'w env \<Rightarrow> ('w, 'z) sysst_scheme \<Rightarrow> (i32 \<times> ('w, 'z) sysst_scheme) option" where
  "promote_stage E s =
     (let (r, s) = syscall E (App (load_module SCE_SYSMODULE_INTERNAL_PAF)) s
      in if neg (rc r) then Some (rc r, s)
         else let (r, s) = syscall E (App (load_module SCE_SYSMODULE_INTERNAL_PROMOTER_UTIL)) s
              in if neg (rc r)
                 then let (_, s) = syscall E (App (unload_module SCE_SYSMODULE_INTERNAL_PAF)) s in Some (rc r, s)
                 else do {
                        (result, s) \<leftarrow> promote_package E s;
                        let (u, s) = syscall E (App (unload_module SCE_SYSMODULE_INTERNAL_PROMOTER_UTIL)) s;
                        let result = (if \<not> neg result \<and> neg (rc u) then rc u else result);
                        let (u, s) = syscall E (App (unload_module SCE_SYSMODULE_INTERNAL_PAF)) s;
                        let result = (if \<not> neg result \<and> neg (rc u) then rc u else result);
                        Some (result, s) })"

text \<open>The installation; the result and the title stored for the caller (\<open>None\<close>: nothing is stored). The caller's
  buffer for the title is not NULL and has \<open>title_id_size\<close> bytes.\<close>

definition install_vpk ::
  "'w env \<Rightarrow> path \<Rightarrow> nat \<Rightarrow> ('w, 'z) sysst_scheme \<Rightarrow> ((i32 \<times> string option) \<times> ('w, 'z) sysst_scheme) option" where
  "install_vpk E vpk_path title_id_size s =
     (case vpk_path of
        None \<Rightarrow> Some ((INSTALL_ERROR_ARGUMENT, None), s)
      | Some p \<Rightarrow>
          if title_id_size < 10 \<or> length p < 5 \<or> drop (length p - 4) p \<noteq> ''.vpk''
          then Some ((INSTALL_ERROR_ARGUMENT, None), s)
          else do {
            (_, s) \<leftarrow> remove_tree E INSTALL_STAGE s;
            let (result, s) = ensure_directory E INSTALL_STAGE s;
            (result, s) \<leftarrow> (if neg result then Some (result, s) else extract_vpk E p s);
            ((result, title), s) \<leftarrow> (if neg result then Some ((result, None), s) else make_head_bin E title_id_size s);
            (result, s) \<leftarrow> (if neg result then Some (result, s) else promote_stage E s);
            (cleanup_result, s) \<leftarrow> remove_tree E INSTALL_STAGE s;
            Some ((if \<not> neg result \<and> neg cleanup_result then cleanup_result else result,
                   Some (case title of None \<Rightarrow> [] | Some t \<Rightarrow> t)), s) })"

section \<open>Contracts\<close>

definition ids_ok :: "i32 + string \<times> string \<Rightarrow> bool" where
  "ids_ok x \<longleftrightarrow> (\<forall>t c. x = Inr (t, c) \<longrightarrow> valid_title_id t \<and> length (selected_content_id t c) < 48 \<and>
     NUL \<notin> set (selected_content_id t c))"

lemma title_char_not_NUL: "title_char c \<Longrightarrow> c \<noteq> NUL"
  by (auto simp: title_char_def is_digit_def)

lemma package_ids_ok: "\<exists>x. package_ids sfo = Some x \<and> ids_ok x"
proof -
  obtain x y where x: "sfo_string sfo ''TITLE_ID'' 12 = Some x" "\<And>t. x = Inr t \<Longrightarrow> length t < 12 \<and> NUL \<notin> set t"
    and y: "sfo_string sfo ''CONTENT_ID'' 48 = Some y" "\<And>c. y = Inr c \<Longrightarrow> length c < 48 \<and> NUL \<notin> set c"
    using sfo_string_ok [of sfo "''TITLE_ID''" 12] sfo_string_ok [of sfo "''CONTENT_ID''" 48] by metis
  have "length (selected_content_id t (case y of Inl e \<Rightarrow> [] | Inr v \<Rightarrow> v)) < 48 \<and>
      NUL \<notin> set (selected_content_id t (case y of Inl e \<Rightarrow> [] | Inr v \<Rightarrow> v))" if "valid_title_id t" for t
    using y(2) that title_char_not_NUL
    by (auto simp: selected_content_id_def snprintf_def valid_title_id_def list_all_iff split: sum.split dest: in_set_takeD)
  with x y(1) show ?thesis by (auto simp: package_ids_def ids_ok_def split: sum.split)
qed

lemma head_path: "inside INSTALL_HEAD" "staged INSTALL_HEAD"
proof -
  have safe: "is_safe_archive_path ''sce_sys/package/head.bin''"
    by (simp add: safe_archive_path_iff path_names_def)
  have eq: "INSTALL_HEAD = stage_path ''sce_sys/package/head.bin''" by (simp add: INSTALL_HEAD_def stage_path_def)
  show "inside INSTALL_HEAD" unfolding eq by (rule stage_path_inside [OF safe])
  show "staged INSTALL_HEAD" unfolding eq by (rule stage_path_staged [OF safe])
qed

lemma write_head_meets: "meets confined s (\<lambda>_. True) (write_head E head s)"
  unfolding write_head_def
  by (rule flow | hypsubst | (rule keeps, assumption) | (rule charges, assumption) | rule did_refl | rule TrueI
      | (simp add: head_path delta_def; fail))+

lemma write_head_keeps [keeps]:
  "(case head of Inl e \<Rightarrow> Some (e, t) | Inr head \<Rightarrow> write_head E head t) = Some (r, u) \<Longrightarrow> did confined s D t \<Longrightarrow> did confined s D u"
  by (auto split: sum.splits intro: keep_of [OF write_head_meets])

text \<open>A title is stored exactly on success, and it is one that may name a package.\<close>

definition title_ok :: "nat \<Rightarrow> i32 \<times> string option \<Rightarrow> bool" where
  "title_ok n v \<longleftrightarrow> (neg (fst v) \<longleftrightarrow> snd v = None) \<and> (\<forall>t. snd v = Some t \<longrightarrow> (\<exists>u. valid_title_id u \<and> t = snprintf n u))"

lemma package_idsD: "package_ids sfo = Some (Inr (t, c)) \<Longrightarrow> valid_title_id t"
  using package_ids_ok [of sfo] by (auto simp: ids_ok_def)

lemma make_head_bin_meets: "meets confined s (title_ok n) (make_head_bin E n s)"
proof -
  have err: "neg e" if "package_ids sfo = Some (Inl e)" for e sfo
    using that sfo_string_ok [of sfo "''TITLE_ID''" 12]
    by (auto simp: package_ids_def split: sum.splits if_splits Option.bind_splits)
  show ?thesis unfolding make_head_bin_def
    by (rule flow | hypsubst | (rule keeps, assumption) | (rule charges, assumption) | rule did_refl
        | (simp add: delta_def; fail)
        | (simp add: title_ok_def read_fileD err; fail) | (auto simp: title_ok_def dest!: package_idsD; fail))+
qed

lemmas make_head_bin_keeps [keeps] = keep_of [OF make_head_bin_meets]

lemma promote_package_meets: "meets confined s (\<lambda>_. True) (promote_package E s)"
  unfolding promote_package_def
  by (rule flow | hypsubst | (rule keeps, assumption) | (rule charges, assumption) | rule did_refl
      | (simp add: delta_def; fail) | rule TrueI)+

lemmas promote_package_keeps [keeps] = keep_of [OF promote_package_meets]

lemma promote_stage_meets: "meets confined s (\<lambda>_. True) (promote_stage E s)"
  unfolding promote_stage_def
  by (rule flow | hypsubst | (rule keeps, assumption) | (rule charges, assumption) | rule did_refl
      | (simp add: delta_def; fail) | rule TrueI)+

lemma stage_ensurable: "ensurable INSTALL_STAGE"
  unfolding ensurable_def by (intro exI [of _ "[]"]) simp

text \<open>On success the title is that of a package.\<close>

definition installed :: "nat \<Rightarrow> i32 \<times> string option \<Rightarrow> bool" where
  "installed n v \<longleftrightarrow> (\<not> neg (fst v) \<longrightarrow> (\<exists>u. valid_title_id u \<and> snd v = Some (snprintf n u)))"

lemma install_vpk_meets:
  assumes "names_ok E"
  shows "meets confined s (installed n) (install_vpk E p n s)"
proof -
  note parts = keep_if [OF _ extract_vpk_meets] keep_if [OF _ make_head_bin_meets] keep_if [OF _ promote_stage_meets]
    keep_of [OF remove_tree_meets [OF assms below_stage]]
  have title: "\<exists>x. valid_title_id x \<and> w = Some (snprintf n x)" if
      "(if neg r then Some ((r, None), t) else make_head_bin E n t) = Some ((q, w), u)" "\<not> neg q" for r t q w u
    using that make_head_bin_meets [of t n E] by (auto simp: leaves_def title_ok_def split: if_splits)
  have before: "\<not> neg q" if "(if neg q then Some (q, t) else promote_stage E t) = Some (c, u)" "\<not> neg c" for q t c u
    using that by (auto split: if_splits)
  have end_ok: "installed n (if \<not> neg c \<and> neg z then z else c, Some (case w of None \<Rightarrow> [] | Some t \<Rightarrow> t))" if
      "(if neg r then Some ((r, None), t) else make_head_bin E n t) = Some ((q, w), u)"
      "(if neg q then Some (q, u) else promote_stage E u) = Some (c, v)" for r t q w u c v z
    using title [OF that(1)] before [OF that(2)] by (cases "neg c"; fastforce simp: installed_def)
  show ?thesis unfolding install_vpk_def
    by (rule flow | hypsubst | (rule keeps, assumption) | (rule parts, assumption) | rule did_refl
        | rule stage_ensurable | (simp add: installed_def; fail)
        | (rule end_ok, assumption, assumption))+
qed

end
