(* ===== verification/Cmd_Definitions.thy ===== *)
theory Cmd_Definitions
  imports Plugin_State Package_Installer
begin

text \<open>
  The commands of the command server, \<^verbatim>\<open>cmd_definitions.c\<close>. An executor is given the words of the request (the
  name first), the response buffer (its text and its size \<open>n\<close>) and the state; \<open>None\<close> is no return. The table names its
  executors by the constructors of \<open>cmd_executor\<close>, so that the help text can be made from the table.
\<close>

section \<open>The table\<close>

datatype cmd_executor =
    Cmd_version | Cmd_help | Cmd_destroy | Cmd_foreground | Cmd_install | Cmd_launch | Cmd_kill | Cmd_ftpstatus
  | Cmd_ftpreset | Cmd_reboot | Cmd_screen | Cmd_battery | Cmd_screenshot

record cmd_definition =
  command_name :: string
  description :: string
  arg_count :: nat
  executor :: cmd_executor

definition cmd_definitions :: "cmd_definition list" where
  "cmd_definitions = [
     \<lparr>command_name = ''version'', description = ''Show protocol and hardening version'', arg_count = 0, executor = Cmd_version\<rparr>,
     \<lparr>command_name = ''help'', description = ''Display this help screen'', arg_count = 0, executor = Cmd_help\<rparr>,
     \<lparr>command_name = ''destroy'', description = ''Kill all running applications'', arg_count = 0, executor = Cmd_destroy\<rparr>,
     \<lparr>command_name = ''foreground'', description = ''Show the foreground title ID'', arg_count = 0, executor = Cmd_foreground\<rparr>,
     \<lparr>command_name = ''install'', description = ''Install and promote a VPK'', arg_count = 1, executor = Cmd_install\<rparr>,
     \<lparr>command_name = ''launch'', description = ''Launch an app by Title ID'', arg_count = 1, executor = Cmd_launch\<rparr>,
     \<lparr>command_name = ''kill'', description = ''Kill an app by Title ID'', arg_count = 1, executor = Cmd_kill\<rparr>,
     \<lparr>command_name = ''ftpstatus'', description = ''Show FTP clients and transfer state'', arg_count = 0, executor = Cmd_ftpstatus\<rparr>,
     \<lparr>command_name = ''ftpreset'', description = ''Abort stranded FTP clients'', arg_count = 0, executor = Cmd_ftpreset\<rparr>,
     \<lparr>command_name = ''reboot'', description = ''Reboot only when FTP is quiescent'', arg_count = 0, executor = Cmd_reboot\<rparr>,
     \<lparr>command_name = ''screen'', description = ''Turn the screen on or off'', arg_count = 1, executor = Cmd_screen\<rparr>,
     \<lparr>command_name = ''battery'', description = ''Show battery percentage'', arg_count = 0, executor = Cmd_battery\<rparr>,
     \<lparr>command_name = ''screenshot'', description = ''Trigger a SceShell screenshot'', arg_count = 0, executor = Cmd_screenshot\<rparr>]"

definition cmd_get_definition :: "string \<Rightarrow> cmd_definition option" where
  "cmd_get_definition cmd = find (\<lambda>d. cmd = command_name d) cmd_definitions"

section \<open>Text commands\<close>

definition append_response :: "string \<Rightarrow> nat \<Rightarrow> string \<Rightarrow> string" where
  "append_response res_msg n text =
     (let used = length res_msg in if n \<le> used then res_msg else res_msg @ snprintf (n - used) text)"

definition cmd_version :: "nat \<Rightarrow> string" where
  "cmd_version n = snprintf n (''VitaCompanion-vitadeck protocol=4 hardening=9 '' @
     ''ftp=LIST,REST_SAFE,BOUNDED_IO,TIMED_IO,SINGLE_FLIGHT,SAFE_REBOOT,RECOVERABLE_CLIENTS,RETR_EXTENT,RETR_ERRORS,STOR_SAFE,CMD_FRAMED '' @
     ''app=FOREGROUND,CONFIRMED_LAUNCH,VPK_INSTALL'' @ [LF])"

definition help_entry :: "cmd_definition \<Rightarrow> string" where
  "help_entry d = ''; '' @ command_name d @ '' - '' @ description d"

definition cmd_help :: "string \<Rightarrow> nat \<Rightarrow> string" where
  "cmd_help res_msg n =
     append_response (fold (\<lambda>d res_msg. append_response res_msg n (help_entry d)) cmd_definitions
       (append_response res_msg n ''Commands'')) n [LF]"

section \<open>Applications\<close>

definition cmd_kill :: "'w env \<Rightarrow> string list \<Rightarrow> nat \<Rightarrow> 'w plugin \<Rightarrow> string \<times> 'w plugin" where
  "cmd_kill E args n s =
     (let (r, s) = ask E (App (sceAppMgrDestroyAppByName (args ! 1))) s
      in (if neg (rc r) then snprintf n (''Error: cannot kill the app. Is the TITLEID correct?'' @ [LF])
          else snprintf n (''Killed.'' @ [LF]), s))"

definition cmd_destroy :: "'w env \<Rightarrow> nat \<Rightarrow> 'w plugin \<Rightarrow> string \<times> 'w plugin" where
  "cmd_destroy E n s = (snprintf n (''Apps destroyed.'' @ [LF]), tell E (App sceAppMgrDestroyOtherApp) s)"

abbreviation (input) SCE_APPMGR_APP_ID_ACTIVE :: i32 where "SCE_APPMGR_APP_ID_ACTIVE \<equiv> - 4"

abbreviation (input) FOREGROUND_TITLE_ID_SIZE :: "'w env \<Rightarrow> nat" where
  "FOREGROUND_TITLE_ID_SIZE E \<equiv> SCE_APPMGR_MAX_APP_NAME_LENGTH E + 1"

text \<open>The result and the text that the buffer \<open>title_id\<close> holds afterwards.\<close>

definition get_foreground_title_id :: "'w env \<Rightarrow> string \<Rightarrow> nat \<Rightarrow> 'w plugin \<Rightarrow> (i32 \<times> string) \<times> 'w plugin" where
  "get_foreground_title_id E title_id title_id_size s =
     (if title_id_size < FOREGROUND_TITLE_ID_SIZE E then ((SCE_APPMGR_ERROR_INVALID E, title_id), s)
      else let (a, s) = ask E (App (sceAppMgrGetAppIdByAppId SCE_APPMGR_APP_ID_ACTIVE)) s
           in if sint (rc a) \<le> 0 then ((0, snprintf title_id_size ''main''), s)
              else let (p, s) = ask E (App (sceAppMgrGetProcessIdByAppIdForShell (rc a))) s
                   in if neg (rc p) then ((rc p, []), s)
                      else let (r, s) = ask E (App (sceAppMgrGetNameById (rc p))) s
                           in ((rc r, cstr (map (mem r) [0 ..< title_id_size - 1])), s))"

text \<open>ASCII letters in upper case.\<close>

definition upper :: "char \<Rightarrow> char" where
  "upper c = (if 97 \<le> (of_char c :: nat) \<and> (of_char c :: nat) \<le> 122 then char_of (of_char c - 32 :: nat) else c)"

fun title_ids_equal :: "string \<Rightarrow> string \<Rightarrow> bool" where
  "title_ids_equal (c # left) (d # right) = (if upper c \<noteq> upper d then False else title_ids_equal left right)"
| "title_ids_equal left right = (deref left = deref right)"

definition cmd_foreground :: "'w env \<Rightarrow> nat \<Rightarrow> 'w plugin \<Rightarrow> string \<times> 'w plugin" where
  "cmd_foreground E n s =
     (let ((result, title_id), s) = get_foreground_title_id E [] (FOREGROUND_TITLE_ID_SIZE E) s
      in (if neg result then snprintf n (''Error: cannot read foreground title ID (0x'' @ hex8 result @ '').'' @ [LF])
          else snprintf n (''Foreground: '' @ title_id @ [LF]), s))"

definition cmd_install :: "'w env \<Rightarrow> string list \<Rightarrow> nat \<Rightarrow> 'w plugin \<Rightarrow> (string \<times> 'w plugin) option" where
  "cmd_install E args n s = do {
     ((result, title_id), f) \<leftarrow> install_vpk E (Some (args ! 1)) 12 (ftpd s);
     Some (if neg result then snprintf n (''Error: VPK installation failed (0x'' @ hex8 result @ '').'' @ [LF])
           else snprintf n (''Installed: '' @ (case title_id of None \<Rightarrow> [] | Some t \<Rightarrow> t) @ [LF]), s\<lparr>ftpd := f\<rparr>) }"

abbreviation LAUNCH_CONFIRM_ATTEMPTS :: nat where "LAUNCH_CONFIRM_ATTEMPTS \<equiv> 80"
abbreviation LAUNCH_CONFIRM_INTERVAL_US :: nat where "LAUNCH_CONFIRM_INTERVAL_US \<equiv> 100 * 1000"

text \<open>The loop of \<open>cmd_launch\<close>; the number is that of the attempts left.\<close>

fun confirm_launch :: "'w env \<Rightarrow> string \<Rightarrow> nat \<Rightarrow> string \<Rightarrow> 'w plugin \<Rightarrow> (bool \<times> string) \<times> 'w plugin" where
  "confirm_launch E title 0 foreground s = ((False, foreground), s)"
| "confirm_launch E title (Suc attempts) foreground s =
     (let ((result, foreground), s) = get_foreground_title_id E foreground (FOREGROUND_TITLE_ID_SIZE E) s
      in if \<not> neg result \<and> title_ids_equal foreground title then ((True, foreground), s)
         else confirm_launch E title attempts foreground (tell E (Kernel (sceKernelDelayThread LAUNCH_CONFIRM_INTERVAL_US)) s))"

definition cmd_launch :: "'w env \<Rightarrow> string list \<Rightarrow> nat \<Rightarrow> 'w plugin \<Rightarrow> string \<times> 'w plugin" where
  "cmd_launch E args n s =
     (let uri = ''psgm:play?titleid='' @ args ! 1
      in if 32 \<le> length uri then (snprintf n (''Error: TITLEID is too long.'' @ [LF]), s)
         else let (r, s) = ask E (App (sceAppMgrLaunchAppByUri 0x20000 uri)) s
              in if neg (rc r)
                 then (snprintf n (''Error: launch request failed for '' @ args ! 1 @ '' (0x'' @ hex8 (rc r) @ '').'' @ [LF]), s)
                 else let ((confirmed, foreground), s) = confirm_launch E (args ! 1) LAUNCH_CONFIRM_ATTEMPTS ''unknown'' s
                      in (if confirmed then snprintf n (''Launched: '' @ foreground @ [LF])
                          else snprintf n (''Error: launch of '' @ args ! 1 @ '' was not confirmed; foreground='' @ foreground @ ''.'' @ [LF]), s))"

section \<open>FTP and power\<close>

definition cmd_reboot :: "'w env \<Rightarrow> nat \<Rightarrow> 'w plugin \<Rightarrow> string \<times> 'w plugin" where
  "cmd_reboot E n s =
     (let ((prepared, counts), f) = ftpvita_prepare_for_reboot E (ftpd s);
          (clients, transfer) = (case counts of None \<Rightarrow> (0, False) | Some c \<Rightarrow> c);
          s = s\<lparr>ftpd := f\<rparr>
      in if \<not> prepared
         then (snprintf n (''Error: FTP busy; reboot refused (clients='' @ dec_int (sint clients) @ '' transfer='' @
                 dec_int (of_bool transfer) @ '').'' @ [LF]), s)
         else let (r, s) = ask E (App scePowerRequestColdReset) s
              in if neg (rc r)
                 then (snprintf n (''Error: cold reset request failed (0x'' @ hex8 (rc r) @ '').'' @ [LF]),
                       s\<lparr>ftpd := ftpvita_cancel_reboot (ftpd s)\<rparr>)
                 else (snprintf n (''Rebooting...'' @ [LF]), s))"

definition cmd_ftpstatus :: "nat \<Rightarrow> 'w plugin \<Rightarrow> string" where
  "cmd_ftpstatus n s = snprintf n (''FTP clients='' @ dec_int (sint (ftpvita_get_active_client_count (ftpd s))) @
     '' transfer='' @ dec_int (of_bool (ftpvita_has_active_transfer (ftpd s))) @
     '' reboot_guard='' @ dec_int (of_bool (ftpvita_is_reboot_quiesced (ftpd s))) @
     '' timeout_failures='' @ dec_int (sint (ftpvita_get_socket_timeout_failure_count (ftpd s))) @ [LF])"

definition cmd_ftpreset :: "'w env \<Rightarrow> nat \<Rightarrow> 'w plugin \<Rightarrow> (string \<times> 'w plugin) option" where
  "cmd_ftpreset E n s =
     (let clients = ftpvita_get_active_client_count (ftpd s); transfer = ftpvita_has_active_transfer (ftpd s)
      in do {
        (aborted, f) \<leftarrow> ftpvita_abort_clients E (ftpd s);
        Some (snprintf n (''FTP reset requested clients='' @ dec_int (sint clients) @ '' transfer='' @ dec_int (of_bool transfer) @
                '' aborted='' @ dec_int (sint aborted) @ ''.'' @ [LF]), s\<lparr>ftpd := f\<rparr>) })"

definition cmd_screen :: "'w env \<Rightarrow> string list \<Rightarrow> nat \<Rightarrow> 'w plugin \<Rightarrow> string \<times> 'w plugin" where
  "cmd_screen E args n s =
     (if args ! 1 = ''on'' then (snprintf n (''Turning display on...'' @ [LF]), tell E (App scePowerRequestDisplayOn) s)
      else if args ! 1 = ''off'' then (snprintf n (''Turning display off...'' @ [LF]), tell E (App scePowerRequestDisplayOff) s)
      else (snprintf n (''Error: param should be '' @ [CHR 0x27] @ ''on'' @ [CHR 0x27] @ '' or '' @ [CHR 0x27] @ ''off'' @ [CHR 0x27, LF]), s))"

definition cmd_battery :: "'w env \<Rightarrow> nat \<Rightarrow> 'w plugin \<Rightarrow> string \<times> 'w plugin" where
  "cmd_battery E n s =
     (let (percent, s) = ask E (App scePowerGetBatteryLifePercent) s;
          (charging, s) = ask E (App scePowerIsBatteryCharging) s
      in (if neg (rc percent) then snprintf n (''Error: Could not read battery percentage'' @ [LF])
          else snprintf n (''Battery: '' @ dec_int (sint (rc percent)) @ ''% ('' @
                 (if rc charging \<noteq> 0 then ''Charging'' else ''Not charging'') @ '')'' @ [LF]), s))"

section \<open>Screenshots\<close>

text \<open>The result and the address that is stored for the caller. Of the answer of \<open>sceKernelGetModuleInfo\<close>, word \<open>2 * i\<close> is
  the address and word \<open>2 * i + 1\<close> the size of segment \<open>i\<close>.\<close>

definition module_get_offset :: "'w env \<Rightarrow> i32 \<Rightarrow> nat \<Rightarrow> u32 \<Rightarrow> 'w plugin \<Rightarrow> (i32 \<times> u32 option) \<times> 'w plugin" where
  "module_get_offset E modid segidx offset s =
     (if 3 < segidx then ((- 1, None), s)
      else let (r, s) = ask E (App (sceKernelGetModuleInfo modid)) s
           in if neg (rc r) then ((rc r, None), s)
              else if out r (2 * segidx + 1) < offset then ((- 3, None), s)
              else ((0, Some (out r (2 * segidx) + offset)), s))"

definition shellshot_offset :: "u32 \<Rightarrow> u32 option" where
  "shellshot_offset module_nid =
     (if module_nid = 0x0552F692 then Some 0x14a928
      else if module_nid \<in> {0x6CB01295, 0xEAB89D5C} then Some 0x142d5c
      else if module_nid = 0x5549BF1F then Some 0x14a980
      else if module_nid \<in> {0x34B4D82E, 0x12DAC0F3, 0x0703C828, 0x2053B5A5, 0xF476E785, 0x939FFBE9, 0x734D476A, 0xE6A02F2B, 0x587F9CED}
      then Some 0x142db4
      else None)"

text \<open>Word 0 of the answer of \<open>taiGetModuleInfo\<close> is the identifier of the module, word 1 its NID.\<close>

definition init_shellshot :: "'w env \<Rightarrow> 'w plugin \<Rightarrow> 'w plugin" where
  "init_shellshot E s =
     (if shellshot_initialized s then s
      else let s = s\<lparr>shellshot_initialized := True, shellshot_available := False\<rparr>;
               (r, s) = ask E (App (taiGetModuleInfo ''SceShell'')) s
           in if neg (rc r) then s
              else (case shellshot_offset (out r 1) of
                      None \<Rightarrow> s
                    | Some offset \<Rightarrow>
                        (let ((result, stub), s) = module_get_offset E (out r 0) 0 (offset OR 1) s;
                             s = (case stub of None \<Rightarrow> s | Some a \<Rightarrow> s\<lparr>shellShot := a\<rparr>)
                         in if neg result then s\<lparr>shellShot := 0\<rparr>
                            else if shellShot s \<noteq> 0 then s\<lparr>shellshot_available := True\<rparr> else s)))"

definition cmd_screenshot :: "'w env \<Rightarrow> nat \<Rightarrow> 'w plugin \<Rightarrow> string \<times> 'w plugin" where
  "cmd_screenshot E n s =
     (let s = init_shellshot E s
      in if \<not> shellshot_available s \<or> shellShot s = 0 then (snprintf n (''[ERROR] shellShot() not available.'' @ [LF]), s)
         else let (r, s) = ask E (App (call_shellShot (shellShot s))) s
              in (if \<not> neg (rc r) then snprintf n (''[OK] Screenshot triggered (0x'' @ hex8 (rc r) @ '').'' @ [LF])
                  else snprintf n (''[ERROR] Screenshot trigger failed (0x'' @ hex8 (rc r) @ '').'' @ [LF]), s))"

section \<open>Executing a command\<close>

definition execute :: "'w env \<Rightarrow> cmd_executor \<Rightarrow> string list \<Rightarrow> string \<Rightarrow> nat \<Rightarrow> 'w plugin \<Rightarrow> (string \<times> 'w plugin) option" where
  "execute E cmd args res_msg n s =
     (case cmd of
        Cmd_version \<Rightarrow> Some (cmd_version n, s)
      | Cmd_help \<Rightarrow> Some (cmd_help res_msg n, s)
      | Cmd_destroy \<Rightarrow> Some (cmd_destroy E n s)
      | Cmd_foreground \<Rightarrow> Some (cmd_foreground E n s)
      | Cmd_install \<Rightarrow> cmd_install E args n s
      | Cmd_launch \<Rightarrow> Some (cmd_launch E args n s)
      | Cmd_kill \<Rightarrow> Some (cmd_kill E args n s)
      | Cmd_ftpstatus \<Rightarrow> Some (cmd_ftpstatus n s, s)
      | Cmd_ftpreset \<Rightarrow> cmd_ftpreset E n s
      | Cmd_reboot \<Rightarrow> Some (cmd_reboot E n s)
      | Cmd_screen \<Rightarrow> Some (cmd_screen E args n s)
      | Cmd_battery \<Rightarrow> Some (cmd_battery E n s)
      | Cmd_screenshot \<Rightarrow> Some (cmd_screenshot E n s))"

section \<open>Responses\<close>

definition response_ok :: "nat \<Rightarrow> string \<Rightarrow> bool" where
  "response_ok n r \<longleftrightarrow> r \<noteq> [] \<and> length r < n \<and> NUL \<notin> set r"

lemma response_snprintf: "1 < n \<Longrightarrow> t \<noteq> [] \<Longrightarrow> NUL \<notin> set t \<Longrightarrow> response_ok n (snprintf n t)"
  using set_snprintf [of n t] by (auto simp: response_ok_def length_snprintf) (simp add: snprintf_def)

lemma dec_nat_no_NUL [simp]: "NUL \<notin> set (dec_nat n)"
  using dec_nat_digits [of n] is_digit_facts(1) by (fastforce simp: list_all_iff)

lemma dec_int_no_NUL [simp]: "NUL \<notin> set (dec_int i)"
  by (simp add: dec_int_def)

lemma hex8_no_NUL [simp]: "NUL \<notin> set (hex8 w)"
proof -
  have "hex_chr d \<noteq> NUL" if "d < 16" for d
    using that by (auto simp: hex_chr_def digit_chr_def char_of_eq_iff take_bit_eq_mod dest: is_digit_facts(1))
  then show ?thesis by (auto simp: hex8_def) (metis mod_less_divisor zero_less_numeral)
qed

lemma append_response_ok: "response_ok n r \<Longrightarrow> NUL \<notin> set t \<Longrightarrow> response_ok n (append_response r n t)"
  using set_snprintf [of "n - length r" t] length_snprintf [of "n - length r" t]
  by (auto simp: response_ok_def append_response_def Let_def)

lemma append_responses_ok:
  "response_ok n r \<Longrightarrow> (\<And>d. d \<in> set ds \<Longrightarrow> NUL \<notin> set (f d)) \<Longrightarrow> response_ok n (fold (\<lambda>d r. append_response r n (f d)) ds r)"
  by (induction ds arbitrary: r) (auto simp: append_response_ok)

lemma definitions_no_NUL: "d \<in> set cmd_definitions \<Longrightarrow> NUL \<notin> set (help_entry d)"
  by (auto simp: cmd_definitions_def help_entry_def)

lemma append_response_first [simp]: "0 < n \<Longrightarrow> append_response [] n t = snprintf n t"
  by (simp add: append_response_def)

lemma help_response_ok: "1 < n \<Longrightarrow> response_ok n (cmd_help [] n)"
  unfolding cmd_help_def
  by (rule append_response_ok, rule append_responses_ok) (simp_all add: response_snprintf definitions_no_NUL)

section \<open>What a command may change\<close>

text \<open>Apart from the calls it makes, after which every resource is given back, a command changes the reboot guard
  and the state of the screenshot function only.\<close>

definition undisturbed :: "'w plugin \<Rightarrow> 'w plugin \<Rightarrow> bool" where
  "undisturbed s t \<longleftrightarrow> (\<exists>w tr g a i v. t = s\<lparr>ftpd := (ftpd s)\<lparr>world := w, trace := calls s @ tr, reboot_quiesce_requested := g\<rparr>,
     shellShot := a, shellshot_initialized := i, shellshot_available := v\<rparr> \<and> (\<forall>x. balance tr x = 0))"

lemma undisturbed_refl [simp]: "undisturbed s s"
  unfolding undisturbed_def
  by (rule exI [of _ "world (ftpd s)"], rule exI [of _ "[]"], rule exI [of _ "reboot_quiesce_requested (ftpd s)"],
      rule exI [of _ "shellShot s"], rule exI [of _ "shellshot_initialized s"], rule exI [of _ "shellshot_available s"]) simp

lemma undisturbedE:
  assumes "undisturbed s t"
  obtains w tr g a i v where "t = s\<lparr>ftpd := (ftpd s)\<lparr>world := w, trace := calls s @ tr, reboot_quiesce_requested := g\<rparr>,
     shellShot := a, shellshot_initialized := i, shellshot_available := v\<rparr>" "\<forall>x. balance tr x = 0"
  using assms unfolding undisturbed_def by blast

lemma undisturbedI:
  assumes "ftpd t = (ftpd s)\<lparr>world := w, trace := calls s @ tr, reboot_quiesce_requested := g\<rparr>" and "\<forall>x. balance tr x = 0"
    and "t = s\<lparr>ftpd := ftpd t, shellShot := a, shellshot_initialized := i, shellshot_available := v\<rparr>"
  shows "undisturbed s t"
  using assms unfolding undisturbed_def by metis

lemma undisturbed_trans:
  assumes "undisturbed s t" and "undisturbed t u"
  shows "undisturbed s u"
proof -
  obtain w tr g a i v where 1: "t = s\<lparr>ftpd := (ftpd s)\<lparr>world := w, trace := calls s @ tr, reboot_quiesce_requested := g\<rparr>,
     shellShot := a, shellshot_initialized := i, shellshot_available := v\<rparr>" "\<forall>x. balance tr x = 0" using assms(1) by (rule undisturbedE)
  obtain w' tr' g' a' i' v' where 2: "u = t\<lparr>ftpd := (ftpd t)\<lparr>world := w', trace := calls t @ tr', reboot_quiesce_requested := g'\<rparr>,
     shellShot := a', shellshot_initialized := i', shellshot_available := v'\<rparr>" "\<forall>x. balance tr' x = 0" using assms(2) by (rule undisturbedE)
  show ?thesis by (rule undisturbedI [where w = w' and tr = "tr @ tr'" and g = g' and a = a' and i = i' and v = v']) (simp_all add: 1 2)
qed

lemma only_calls_undisturbed:
  assumes "only_calls (ftpd s) f"
  shows "undisturbed s (s\<lparr>ftpd := f\<rparr>)"
proof -
  obtain w tr where "f = (ftpd s)\<lparr>world := w, trace := calls s @ tr\<rparr>" "\<forall>x. balance tr x = 0"
    using assms by (auto simp: only_calls_def)
  then show ?thesis
    by (intro undisturbedI [where w = w and tr = tr and g = "reboot_quiesce_requested (ftpd s)" and a = "shellShot s" and
          i = "shellshot_initialized s" and v = "shellshot_available s"]) simp_all
qed

text \<open>The steps of a command.\<close>

lemma undisturbed_tell [simp]: "undisturbed s t \<Longrightarrow> neutral c \<Longrightarrow> undisturbed s (tell E c t)"
  unfolding tell_eq by (erule undisturbed_trans) (simp add: only_calls_undisturbed only_calls_exec)

lemma undisturbed_ask: "ask E c t = (r, u) \<Longrightarrow> undisturbed s t \<Longrightarrow> neutral c \<Longrightarrow> undisturbed s u"
  using undisturbed_tell [of s t c E] by (simp add: tell_def)

lemma ask_tellD: "ask E c t = (r, u) \<Longrightarrow> u = tell E c t"
  by (simp add: tell_def)

lemma undisturbed_guard: "undisturbed s t \<Longrightarrow> undisturbed s (t\<lparr>ftpd := (ftpd t)\<lparr>reboot_quiesce_requested := g\<rparr>\<rparr>)"
  by (erule undisturbed_trans)
    (rule undisturbedI [where w = "world (ftpd t)" and tr = "[]" and g = g and a = "shellShot t" and i = "shellshot_initialized t" and
      v = "shellshot_available t"], simp_all)

lemma undisturbed_shellshot:
  "undisturbed s t \<Longrightarrow> undisturbed s (t\<lparr>shellShot := a, shellshot_initialized := i, shellshot_available := v\<rparr>)"
  by (erule undisturbed_trans)
    (rule undisturbedI [where w = "world (ftpd t)" and tr = "[]" and g = "reboot_quiesce_requested (ftpd t)" and a = a and i = i and v = v],
      simp_all)

lemma undisturbed_shellshots:
  assumes "undisturbed s t"
  shows "undisturbed s (t\<lparr>shellShot := a\<rparr>)" "undisturbed s (t\<lparr>shellshot_available := v\<rparr>)"
    "undisturbed s (t\<lparr>shellshot_initialized := i, shellshot_available := v\<rparr>)"
  using undisturbed_shellshot [OF assms, where a = a and i = "shellshot_initialized t" and v = "shellshot_available t"]
    undisturbed_shellshot [OF assms, where a = "shellShot t" and i = "shellshot_initialized t" and v = v]
    undisturbed_shellshot [OF assms, where a = "shellShot t" and i = i and v = v] by simp_all

section \<open>Every command\<close>

text \<open>A command serves a request if it leaves the rest undisturbed and gives a response.\<close>

definition serves :: "nat \<Rightarrow> 'w plugin \<Rightarrow> string \<times> 'w plugin \<Rightarrow> bool" where
  "serves n s y \<longleftrightarrow> undisturbed s (snd y) \<and> response_ok n (fst y)"

lemma serves_rules:
  "undisturbed s t \<Longrightarrow> response_ok n x \<Longrightarrow> serves n s (x, t)"
  "(b \<Longrightarrow> serves n s y) \<Longrightarrow> (\<not> b \<Longrightarrow> serves n s z) \<Longrightarrow> serves n s (if b then y else z)"
  "(\<And>v t. m = (v, t) \<Longrightarrow> serves n s (h v t)) \<Longrightarrow> serves n s (case m of (v, t) \<Rightarrow> h v t)"
  "(\<And>v t. m = (v, t) \<Longrightarrow> serves n s (k v t u)) \<Longrightarrow> serves n s ((case m of (v, t) \<Rightarrow> k v t) u)"
  "serves n s (l a) \<Longrightarrow> serves n s (let x = a in l x)"
  by (simp_all add: serves_def split: prod.split)

lemma foreground_ok:
  assumes "get_foreground_title_id E b n t = ((r, title), u)" and "undisturbed s t" and "NUL \<notin> set b"
  shows "undisturbed s u \<and> NUL \<notin> set title"
  using assms
  by (auto simp: get_foreground_title_id_def Let_def snprintf_def dest!: ask_tellD dest: in_set_takeD split: if_splits prod.splits)

lemma confirm_launch_ok:
  "confirm_launch E title k fg t = ((b, fg'), u) \<Longrightarrow> undisturbed s t \<Longrightarrow> NUL \<notin> set fg \<Longrightarrow> undisturbed s u \<and> NUL \<notin> set fg'"
proof (induction k arbitrary: fg t)
  case (Suc k)
  obtain r fg1 t1 where 1: "get_foreground_title_id E fg (FOREGROUND_TITLE_ID_SIZE E) t = ((r, fg1), t1)" by (metis prod.exhaust)
  note ok = foreground_ok [OF 1 Suc.prems(2,3)]
  show ?case using Suc.prems(1) 1 ok Suc.IH [of fg1 "tell E (Kernel (sceKernelDelayThread LAUNCH_CONFIRM_INTERVAL_US)) t1"]
    by (auto simp: undisturbed_tell split: if_splits)
qed simp

named_theorems served \<open>commands that serve a request\<close>

lemma serves_plain [served]:
  assumes "1 < n"
  shows "serves n s (cmd_version n, s)" "serves n s (cmd_help [] n, s)" "serves n s (cmd_destroy E n s)"
    "serves n s (cmd_ftpstatus n s, s)" "serves n s (cmd_battery E n s)"
  using assms help_response_ok
  by (auto simp: serves_def cmd_version_def cmd_destroy_def cmd_ftpstatus_def cmd_battery_def Let_def intro!: response_snprintf
      dest!: ask_tellD split: prod.splits)

lemma serves_foreground [served]: "1 < n \<Longrightarrow> serves n s (cmd_foreground E n s)"
  using foreground_ok [of E "[]" "FOREGROUND_TITLE_ID_SIZE E" s _ _ _ s]
  by (auto simp: serves_def cmd_foreground_def intro!: response_snprintf split: prod.splits)

lemma serves_kill [served]: "1 < n \<Longrightarrow> serves n s (cmd_kill E args n s)"
  by (auto simp: serves_def cmd_kill_def intro!: response_snprintf dest!: ask_tellD split: prod.splits)

lemma serves_screen [served]: "1 < n \<Longrightarrow> serves n s (cmd_screen E args n s)"
  by (auto simp: serves_def cmd_screen_def intro!: response_snprintf)

lemma serves_launch [served]:
  assumes "1 < n" and "NUL \<notin> set (args ! 1)"
  shows "serves n s (cmd_launch E args n s)"
proof -
  have *: "undisturbed s v" "NUL \<notin> set fg" if "ask E c s = (r, u)" "neutral c"
    "confirm_launch E title k ''unknown'' u = ((b, fg), v)" for c r u title k b fg v
    using confirm_launch_ok [OF that(3), of s] undisturbed_ask [OF that(1) undisturbed_refl that(2)] by simp_all
  show ?thesis unfolding cmd_launch_def
    by (insert assms, intro serves_rules) (auto intro!: response_snprintf intro: *(1) undisturbed_ask dest: *(2))
qed

lemma prepare_undisturbed:
  assumes "ftpvita_prepare_for_reboot E (ftpd s) = (x, f)"
  shows "undisturbed s (s\<lparr>ftpd := f\<rparr>)"
proof -
  let ?g = "\<lambda>g. (ftpd s)\<lparr>reboot_quiesce_requested := g\<rparr>"
  have start: "undisturbed s (s\<lparr>ftpd := ?g g\<rparr>)" for g using undisturbed_guard [OF undisturbed_refl, where g = g] .
  have lock: "undisturbed s (s\<lparr>ftpd := u\<rparr>)" if "syscall E c (?g g) = (r, u)" "neutral c" for c g r u
    using undisturbed_tell [OF start [of g] that(2), of E] that(1) by (simp add: tell_eq exec_def)
  have unlock: "undisturbed s (s\<lparr>ftpd := unlock_list E u\<rparr>)" if "undisturbed s (s\<lparr>ftpd := u\<rparr>)" for u
    using undisturbed_tell [OF that, of "Kernel (sceKernelUnlockMutex (client_list_mtx u))" E] by (simp add: tell_eq unlock_list_def)
  have guard: "undisturbed s (s\<lparr>ftpd := u\<lparr>reboot_quiesce_requested := g\<rparr>\<rparr>)" if "undisturbed s (s\<lparr>ftpd := u\<rparr>)" for u g
    using undisturbed_guard [OF that, where g = g] by simp
  have "undisturbed s (s\<lparr>ftpd := ftpd s\<rparr>)" by simp
  then show ?thesis using assms
    by (auto simp: ftpvita_prepare_for_reboot_def Let_def simp del: plugin.surjective intro!: unlock guard intro: lock split: prod.splits if_splits)
qed

lemma serves_reboot [served]: "1 < n \<Longrightarrow> serves n s (cmd_reboot E n s)"
  unfolding cmd_reboot_def ftpvita_cancel_reboot_def
  by (intro serves_rules) (auto intro!: response_snprintf undisturbed_guard intro: prepare_undisturbed undisturbed_ask)

lemma serves_screenshot [served]: "1 < n \<Longrightarrow> serves n s (cmd_screenshot E n s)"
proof -
  have "undisturbed s (init_shellshot E s)"
    by (auto simp: init_shellshot_def module_get_offset_def Let_def intro!: undisturbed_shellshots undisturbed_tell
        dest!: ask_tellD split: prod.splits option.splits if_splits)
  then show "1 < n \<Longrightarrow> ?thesis"
    unfolding cmd_screenshot_def
    by (intro serves_rules) (auto intro!: response_snprintf intro: undisturbed_ask)
qed

lemma serves_ftpreset:
  assumes "1 < n" and "registry (ftpd s) ps" and "cmd_ftpreset E n s = Some y"
  shows "serves n s y"
  using ftpvita_abort_clients_eq [OF assms(2), of E] assms(1,3)
  by (auto simp: serves_def cmd_ftpreset_def Let_def intro!: response_snprintf only_calls_undisturbed)

lemma serves_install:
  assumes "1 < n" and "names_ok E" and "cmd_install E args n s = Some y"
  shows "serves n s y"
proof -
  obtain r t f where run: "install_vpk E (Some (args ! 1)) 12 (ftpd s) = Some ((r, t), f)"
    using assms(3) by (auto simp: cmd_install_def Option.bind_eq_Some_conv)
  then have f: "settled confined (ftpd s) f" and ok: "installed 12 (r, t)"
    using meetsD [of confined "ftpd s" "installed 12"] install_vpk_meets [OF assms(2), of "ftpd s" 12 "Some (args ! 1)"] by auto
  have "only_calls (ftpd s) f" using f by (auto simp: did_def only_calls_def)
  moreover have "NUL \<notin> set (case t of None \<Rightarrow> [] | Some t \<Rightarrow> t)" if "\<not> neg r"
    using ok that title_char_not_NUL
    by (auto simp: installed_def valid_title_id_def list_all_iff snprintf_def dest: in_set_takeD)
  ultimately show ?thesis using assms(1,3) run
    by (auto simp: serves_def cmd_install_def intro!: response_snprintf only_calls_undisturbed)
qed

end
