(* ===== verification/Cmd_Parser.thy ===== *)
theory Cmd_Parser
  imports Prelude
begin

text \<open>
  The in-place tokenizer of the command server, \<^verbatim>\<open>src/parser.c\<close>. The C function overwrites
  separators in the request buffer with terminators and returns pointers into it; the model works on
  the buffer as a character list, an argument pointer is an index into it, and the byte after the
  buffer is the terminator that \<open>receive_command\<close> stores. A null buffer is \<open>None\<close>; the
  result \<open>PARSE_CMD_TOO_MANY_ARGS\<close> is \<open>None\<close> in the first component.

  The specification is \<open>tokens (line_of buf)\<close>: the words of the first line. The refinement
  theorem shows that the strings the returned pointers denote in the final buffer are exactly these
  words.
\<close>

section \<open>Definitions\<close>

definition is_sep :: "char \<Rightarrow> bool" where
  "is_sep c \<longleftrightarrow> c = SPC \<or> c = TAB \<or> c = CR"

definition word_char :: "char \<Rightarrow> bool" where
  "word_char c \<longleftrightarrow> c \<noteq> NUL \<and> c \<noteq> SPC \<and> c \<noteq> TAB \<and> c \<noteq> CR \<and> c \<noteq> LF"

function skip_separators :: "nat \<Rightarrow> string \<Rightarrow> nat \<Rightarrow> string \<times> nat" where
  "skip_separators stop buf cursor =
     (if cursor < stop \<and> is_sep (buf ! cursor)
      then skip_separators stop (buf[cursor := NUL]) (Suc cursor)
      else (buf, cursor))"
  by pat_completeness auto
termination
  by (relation "measure (\<lambda>(e, b, c). e - c)") auto

function skip_word :: "nat \<Rightarrow> string \<Rightarrow> nat \<Rightarrow> nat" where
  "skip_word stop buf cursor =
     (if cursor < stop \<and> word_char (buf ! cursor) then skip_word stop buf (Suc cursor) else cursor)"
  by pat_completeness auto
termination
  by (relation "measure (\<lambda>(e, b, c). e - c)") auto

declare skip_separators.simps [simp del] skip_word.simps [simp del]

lemma skip_separators_le: "skip_separators stop buf cursor = (buf', c) \<Longrightarrow> cursor \<le> c"
proof (induction stop buf cursor rule: skip_separators.induct)
  case (1 stop buf cursor)
  then show ?case
    by (subst (asm) (2) skip_separators.simps) (auto split: if_splits)
qed

lemma skip_word_le: "cursor \<le> skip_word stop buf cursor"
proof (induction stop buf cursor rule: skip_word.induct)
  case (1 stop buf cursor)
  then show ?case by (subst skip_word.simps) auto
qed

function parse_loop :: "nat \<Rightarrow> nat \<Rightarrow> string \<Rightarrow> nat \<Rightarrow> nat list \<Rightarrow> nat list option \<times> string" where
  "parse_loop stop max_args buf cursor arg_list =
     (if cursor < stop
      then let (buf, cursor) = skip_separators stop buf cursor in
           if cursor \<ge> stop \<or> buf ! cursor = NUL \<or> buf ! cursor = LF then (Some arg_list, buf)
           else if length arg_list = max_args then (None, buf)
           else let arg_list = arg_list @ [cursor];
                    cursor = skip_word stop buf cursor
                in if cursor < stop
                   then let terminal = (buf ! cursor = NUL \<or> buf ! cursor = LF);
                            buf = buf[cursor := NUL]
                        in if terminal then (Some arg_list, buf)
                           else parse_loop stop max_args buf (Suc cursor) arg_list
                   else (Some arg_list, buf)
      else (Some arg_list, buf))"
  by pat_completeness auto
termination
proof (relation "measure (\<lambda>(e, n, b, c, a). e - c)", goal_cases)
  case (2 stop max_args buf cursor arg_list p buf' c)
  then have "cursor \<le> c" using skip_separators_le by metis
  also have "c \<le> skip_word stop buf' c" by (rule skip_word_le)
  finally show ?case using 2 by auto
qed simp

declare parse_loop.simps [simp del]

definition parse_cmd :: "string option \<Rightarrow> nat \<Rightarrow> nat \<Rightarrow> nat list option \<times> string" where
  "parse_cmd cmd cmd_size max_args =
     (case cmd of
        None \<Rightarrow> (Some [], [])
      | Some buf \<Rightarrow> if max_args = 0 then (Some [], buf) else parse_loop cmd_size max_args buf 0 [])"

text \<open>The string an argument pointer denotes.\<close>

definition arg_string :: "string \<Rightarrow> nat \<Rightarrow> string" where
  "arg_string buf p = cstr (drop p buf)"

section \<open>The specification: the words of the first line\<close>

definition line_of :: "string \<Rightarrow> string" where
  "line_of = takeWhile (\<lambda>c. c \<noteq> NUL \<and> c \<noteq> LF)"

function tokens :: "string \<Rightarrow> string list" where
  "tokens s =
     (let t = dropWhile is_sep s in
      if t = [] then [] else takeWhile (\<lambda>c. \<not> is_sep c) t # tokens (dropWhile (\<lambda>c. \<not> is_sep c) t))"
  by pat_completeness auto

lemma length_dropWhile_less: "dropWhile P s \<noteq> [] \<Longrightarrow> length (dropWhile (\<lambda>c. \<not> P c) (dropWhile P s)) < length s"
proof -
  assume ne: "dropWhile P s \<noteq> []"
  then have "\<not> P (hd (dropWhile P s))" by (rule hd_dropWhile)
  with ne obtain c t where ct: "dropWhile P s = c # t" "\<not> P c" by (cases "dropWhile P s") auto
  then have "length (dropWhile (\<lambda>c. \<not> P c) (dropWhile P s)) \<le> length t"
    by (simp add: length_dropWhile_le)
  also have "\<dots> < length (dropWhile P s)" using ct by simp
  also have "\<dots> \<le> length s" by (rule length_dropWhile_le)
  finally show ?thesis .
qed

termination tokens
  by (relation "measure length") (auto simp: length_dropWhile_less)

declare tokens.simps [simp del]

lemma tokens_Nil [simp]: "tokens [] = []"
  by (subst tokens.simps) simp

lemma tokens_sep [simp]: "is_sep c \<Longrightarrow> tokens (c # s) = tokens s"
  by (subst tokens.simps, subst (2) tokens.simps) simp

lemma tokens_seps: "list_all is_sep q \<Longrightarrow> tokens (q @ s) = tokens s"
  by (induction q) auto

lemma tokens_word:
  assumes "w \<noteq> []" and "list_all word_char w" and "u = [] \<or> is_sep (hd u)"
  shows "tokens (w @ u) = w # tokens u"
proof -
  have nosep: "list_all (\<lambda>c. \<not> is_sep c) w"
    using assms(2) by (auto simp: list_all_iff word_char_def is_sep_def)
  then have "dropWhile is_sep (w @ u) = w @ u"
    using assms(1) by (cases w) auto
  with nosep assms(1,3) show ?thesis
    by (subst tokens.simps) (auto simp: takeWhile_all_append dropWhile_all_append)
qed

lemma line_of_append: "list_all (\<lambda>c. c \<noteq> NUL \<and> c \<noteq> LF) q \<Longrightarrow> line_of (q @ s) = q @ line_of s"
  by (induction q) (auto simp: line_of_def)

text \<open>How the text from a cursor on is laid out: separators, one word, and what follows it.\<close>

lemma line_layout:
  "\<exists>q w u. s = q @ w @ u \<and> list_all is_sep q \<and> list_all word_char w \<and> (u = [] \<or> \<not> word_char (hd u)) \<and>
     (w = [] \<longrightarrow> line_of u = [])"
proof -
  let ?t = "dropWhile is_sep s"
  have "s = takeWhile is_sep s @ takeWhile word_char ?t @ dropWhile word_char ?t" by simp
  moreover have "list_all is_sep (takeWhile is_sep s)" "list_all word_char (takeWhile word_char ?t)"
    by (auto simp: list_all_iff dest: set_takeWhileD)
  moreover have "dropWhile word_char ?t = [] \<or> \<not> word_char (hd (dropWhile word_char ?t))"
    using hd_dropWhile by blast
  moreover have "line_of (dropWhile word_char ?t) = []" if "takeWhile word_char ?t = []"
  proof (cases ?t)
    case Nil
    show ?thesis unfolding Nil by (simp add: line_of_def)
  next
    case (Cons c t)
    then have "\<not> is_sep c" using hd_dropWhile [of is_sep s] by simp
    moreover from Cons that have "\<not> word_char c" by (auto split: if_splits)
    ultimately show ?thesis using Cons by (auto simp: line_of_def word_char_def is_sep_def)
  qed
  ultimately show ?thesis by blast
qed

lemma line_of_Nil_iff: "line_of u = [] \<longleftrightarrow> u = [] \<or> hd u = NUL \<or> hd u = LF"
  by (cases u) (auto simp: line_of_def)

section \<open>The loops on a text in that layout\<close>

lemma skip_separators_run:
  "list_all is_sep q \<Longrightarrow> t = [] \<or> \<not> is_sep (hd t) \<Longrightarrow> N = length pre + length q + length t \<Longrightarrow>
   skip_separators N (pre @ q @ t) (length pre) = (pre @ replicate (length q) NUL @ t, length pre + length q)"
proof (induction q arbitrary: pre)
  case Nil
  then show ?case by (cases t) (simp_all add: skip_separators.simps)
next
  case (Cons c q)
  have "skip_separators N (pre @ (c # q) @ t) (length pre) = skip_separators N ((pre @ [NUL]) @ q @ t) (length (pre @ [NUL]))"
    using Cons.prems by (subst skip_separators.simps) simp
  also have "\<dots> = ((pre @ [NUL]) @ replicate (length q) NUL @ t, length (pre @ [NUL]) + length q)"
    using Cons.prems by (intro Cons.IH) auto
  finally show ?case by simp
qed

lemma skip_word_run:
  "list_all word_char w \<Longrightarrow> u = [] \<or> \<not> word_char (hd u) \<Longrightarrow> N = length pre + length w + length u \<Longrightarrow>
   skip_word N (pre @ w @ u) (length pre) = length pre + length w"
proof (induction w arbitrary: pre)
  case Nil
  then show ?case by (cases u) (simp_all add: skip_word.simps)
next
  case (Cons c w)
  have "skip_word N (pre @ (c # w) @ u) (length pre) = skip_word N ((pre @ [c]) @ w @ u) (length (pre @ [c]))"
    using Cons.prems by (subst skip_word.simps) simp
  also have "\<dots> = length (pre @ [c]) + length w"
    using Cons.prems by (intro Cons.IH) auto
  finally show ?case by simp
qed

lemma parse_loop_no_word:
  assumes "list_all is_sep q" and "u = [] \<or> hd u = NUL \<or> hd u = LF" and "N = length pre + length q + length u"
  shows "parse_loop N n (pre @ q @ u) (length pre) args = (Some args, pre @ replicate (length q) NUL @ u)"
proof (cases "q @ u = []")
  case True
  with assms(3) show ?thesis by (subst parse_loop.simps) simp
next
  case False
  have "u = [] \<or> \<not> is_sep (hd u)" using assms(2) by (auto simp: is_sep_def)
  with assms(1,3) have "skip_separators N (pre @ q @ u) (length pre) = (pre @ replicate (length q) NUL @ u, length pre + length q)"
    by (intro skip_separators_run) auto
  with assms False show ?thesis
    by (subst parse_loop.simps) (cases u, auto simp: nth_append)
qed

lemma parse_loop_word:
  assumes q: "list_all is_sep q" and w: "list_all word_char w" "w \<noteq> []"
    and u: "u = [] \<or> \<not> word_char (hd u)" and N: "N = length pre + length q + length w + length u"
  defines "pre' \<equiv> pre @ replicate (length q) NUL"
  shows "parse_loop N n (pre @ q @ w @ u) (length pre) args =
     (if length args = n then (None, pre' @ w @ u)
      else case u of
             [] \<Rightarrow> (Some (args @ [length pre']), pre' @ w)
           | c # v \<Rightarrow> if c = NUL \<or> c = LF then (Some (args @ [length pre']), pre' @ w @ NUL # v)
                      else parse_loop N n ((pre' @ w @ [NUL]) @ v) (length (pre' @ w @ [NUL])) (args @ [length pre']))"
proof -
  obtain c x where cw: "w = c # x" "word_char c" using w by (cases w) auto
  have "w @ u = [] \<or> \<not> is_sep (hd (w @ u))"
    using cw by (auto simp: is_sep_def word_char_def)
  with q N have sep: "skip_separators N (pre @ q @ w @ u) (length pre) = (pre' @ w @ u, length pre')"
    using skip_separators_run [of q "w @ u" N pre] by (simp add: pre'_def)
  have word: "skip_word N (pre' @ w @ u) (length pre') = length pre' + length w"
    using w(1) u N by (intro skip_word_run) (simp_all add: pre'_def)
  have len: "length pre < N" "length pre' < N" using N cw by (simp_all add: pre'_def)
  have at: "(pre' @ w @ u) ! length pre' = c" using cw by (simp add: nth_append)
  have tail: "length pre' + length w < N \<longleftrightarrow> u \<noteq> []" using N by (simp add: pre'_def)
  show ?thesis
    using len at cw(2) tail by (subst parse_loop.simps)
      (simp add: sep word word_char_def nth_append list_update_append split: list.splits)
qed

text \<open>
  The refinement: from a cursor behind \<open>pre\<close>, the loop leaves \<open>pre\<close> alone and appends pointers
  whose strings are the remaining words of the line, or reports that they do not fit.
\<close>

definition parse_refines :: "nat \<Rightarrow> string \<Rightarrow> string \<Rightarrow> nat list \<Rightarrow> bool" where
  "parse_refines n pre s args \<longleftrightarrow>
     (let run = parse_loop (length pre + length s) n (pre @ s) (length pre) args; ts = tokens (line_of s) in
      if length args + length ts \<le> n
      then \<exists>ps s'. run = (Some (args @ ps), pre @ s') \<and> length s' = length s \<and> map (arg_string (pre @ s')) ps = ts
      else fst run = None)"

lemma arg_string_word:
  "list_all word_char w \<Longrightarrow> x = [] \<or> hd x = NUL \<Longrightarrow> arg_string (pre @ w @ x) (length pre) = w"
proof -
  assume "list_all word_char w" "x = [] \<or> hd x = NUL"
  moreover from this(1) have "NUL \<notin> set w" by (auto simp: list_all_iff word_char_def)
  ultimately show ?thesis by (cases x) (auto simp: arg_string_def cstr_id cstr_append_NUL)
qed

lemma tokens_line:
  assumes "list_all is_sep q" and "list_all word_char w" and "u = [] \<or> \<not> word_char (hd u)"
    and "w \<noteq> [] \<or> line_of u = []"
  shows "tokens (line_of (q @ w @ u)) = (if w = [] then [] else w # tokens (line_of u))"
proof -
  have "line_of (q @ w @ u) = q @ w @ line_of u"
    using assms(1,2) line_of_append [of "q @ w" u] by (fastforce simp: list_all_iff is_sep_def word_char_def)
  moreover have "line_of u = [] \<or> is_sep (hd (line_of u))"
    using assms(3) by (cases u) (auto simp: line_of_def word_char_def is_sep_def)
  ultimately show ?thesis
    using assms by (auto simp: tokens_seps tokens_word)
qed

lemma parse_refines_no_word:
  assumes "list_all is_sep q" and "line_of u = []" and "length args \<le> n"
  shows "parse_refines n pre (q @ u) args"
  using parse_loop_no_word [OF assms(1), of u "length pre + length (q @ u)" pre n args] assms
    tokens_line [of q "[]" u] line_of_Nil_iff [of u]
  by (auto simp: parse_refines_def Let_def word_char_def)

lemma parse_refines_word:
  assumes layout: "list_all is_sep q" "list_all word_char w" "w \<noteq> []" "u = [] \<or> \<not> word_char (hd u)"
    and args: "length args \<le> n"
    and rest: "\<And>c v pre' args'. u = c # v \<Longrightarrow> length args' \<le> n \<Longrightarrow> parse_refines n pre' v args'"
  shows "parse_refines n pre (q @ w @ u) args"
proof -
  let ?pre = "pre @ replicate (length q) NUL"
  let ?args = "args @ [length ?pre]"
  let ?N = "length pre + length (q @ w @ u)"
  note step = parse_loop_word [OF layout, of ?N pre n args]
  have toks: "tokens (line_of (q @ w @ u)) = w # tokens (line_of u)"
    using layout by (simp add: tokens_line)
  note arg = arg_string_word [OF layout(2), of _ ?pre]
  show ?thesis
  proof (cases "length args = n \<or> line_of u = []")
    case True
    with step toks args arg [of "[]"] arg [of "NUL # tl u"] line_of_Nil_iff [of u] show ?thesis
      by (cases u) (auto simp: parse_refines_def Let_def)
  next
    case more: False
    then obtain c v where cv: "u = c # v" "c \<noteq> NUL" "c \<noteq> LF"
      using line_of_Nil_iff [of u] by (cases u) auto
    with layout(4) have sep: "is_sep c" by (auto simp: word_char_def is_sep_def)
    let ?pre2 = "?pre @ w @ [NUL]"
    have toks2: "tokens (line_of u) = tokens (line_of v)" using cv sep by (simp add: line_of_def)
    have run: "parse_loop ?N n (pre @ q @ w @ u) (length pre) args =
        parse_loop (length ?pre2 + length v) n (?pre2 @ v) (length ?pre2) ?args"
      using step more cv by (simp add: add.assoc)
    have "parse_refines n ?pre2 v ?args" using rest cv more args by simp
    then consider ps s' where "length ?args + length (tokens (line_of v)) \<le> n"
        "parse_loop (length ?pre2 + length v) n (?pre2 @ v) (length ?pre2) ?args = (Some (?args @ ps), ?pre2 @ s')"
        "length s' = length v" "map (arg_string (?pre2 @ s')) ps = tokens (line_of v)"
      | "n < length ?args + length (tokens (line_of v))"
        "fst (parse_loop (length ?pre2 + length v) n (?pre2 @ v) (length ?pre2) ?args) = None"
      unfolding parse_refines_def Let_def by (meson not_le)
    then show ?thesis
    proof cases
      case 1
      with run toks toks2 cv arg [of "NUL # s'" for s'] show ?thesis
        by (auto simp: parse_refines_def Let_def intro!: exI [of _ "length ?pre # ps"]
            exI [of _ "replicate (length q) NUL @ w @ NUL # s'"])
    next
      case 2
      with run toks toks2 show ?thesis by (simp add: parse_refines_def Let_def)
    qed
  qed
qed

lemma parse_loop_refines: "length args \<le> n \<Longrightarrow> parse_refines n pre s args"
proof (induction "length s" arbitrary: s pre args rule: less_induct)
  case less
  obtain q w u where s: "s = q @ w @ u" and l: "list_all is_sep q" "list_all word_char w"
    "u = [] \<or> \<not> word_char (hd u)" "w = [] \<longrightarrow> line_of u = []"
    using line_layout [of s] by blast
  show ?case
  proof (cases "w = []")
    case True
    with s l less.prems show ?thesis by (simp add: parse_refines_no_word)
  next
    case False
    with s l less show ?thesis by (auto intro!: parse_refines_word)
  qed
qed

section \<open>Properties\<close>

lemma parse_cmd_Some:
  assumes "0 < n"
  shows "case parse_cmd (Some buf) (length buf) n of (r, buf') \<Rightarrow>
      if length (tokens (line_of buf)) \<le> n
      then \<exists>ps. r = Some ps \<and> map (arg_string buf') ps = tokens (line_of buf) else r = None"
  using parse_loop_refines [of "[]" n "[]" buf] assms
  by (auto simp: parse_refines_def parse_cmd_def Let_def split: prod.splits if_splits)

text \<open>C26: the tokenizer refines its specification. For every request buffer, the pointers that
  \<open>parse_cmd\<close> returns denote, in the buffer it leaves behind, exactly the words of the first
  line (separated by blanks, tabs or carriage returns, ended by a line feed or a NUL); a line with
  more words than slots is reported as such, never cut.\<close>

theorem parse_cmd_refines_tokens:
  assumes "0 < n"
  shows "case parse_cmd (Some buf) (length buf) n of (r, buf') \<Rightarrow>
      if length (tokens (line_of buf)) \<le> n
      then \<exists>ps. r = Some ps \<and> map (arg_string buf') ps = tokens (line_of buf) else r = None"
  using assms by (rule parse_cmd_Some)

theorem parse_cmd_refines_tokens_witness:
  "\<exists>ps buf'. parse_cmd (Some (''screen  off'' @ EOL @ ''rest''))
       (length (''screen  off'' @ EOL @ ''rest'')) 20 = (Some ps, buf') \<and>
     map (arg_string buf') ps = [''screen'', ''off'']"
proof -
  have "tokens (line_of (''screen  off'' @ EOL @ ''rest'')) = [''screen'', ''off'']"
    by (simp add: line_of_def EOL_def tokens.simps is_sep_def)
  then show ?thesis
    using parse_cmd_refines_tokens [of 20 "''screen  off'' @ EOL @ ''rest''"]
    by (auto split: prod.splits)
qed

end
