(* ===== verification/Cmd_Server.thy ===== *)
theory Cmd_Server
  imports Cmd_Definitions Cmd_Parser
begin

text \<open>
  The command server, \<^verbatim>\<open>cmd.c\<close>: framing of a request, dispatch, the answer, the thread and its start and end. A
  request buffer is the list of the bytes received; the terminator that \<open>receive_command\<close> stores after them is
  the end of the list, as in \<open>Cmd_Parser\<close>. \<open>None\<close> is no return, or a call that claims to have moved more bytes than
  it was asked for (an access outside of the buffer).
\<close>

abbreviation CMD_LISTEN_PORT :: u16 where "CMD_LISTEN_PORT \<equiv> 1338"
abbreviation CMD_ARG_MAX :: nat where "CMD_ARG_MAX \<equiv> 20"
abbreviation CMD_SOCKET_IO_TIMEOUT_US :: i32 where "CMD_SOCKET_IO_TIMEOUT_US \<equiv> 5 * 1000 * 1000"
abbreviation CMD_START_PENDING :: i32 where "CMD_START_PENDING \<equiv> 0x7fffffff"
abbreviation CMD_START_TIMEOUT_MS :: nat where "CMD_START_TIMEOUT_MS \<equiv> 2000"
abbreviation CMD_REQUEST_BYTES :: nat where "CMD_REQUEST_BYTES \<equiv> 256"
abbreviation CMD_RESPONSE_BYTES :: nat where "CMD_RESPONSE_BYTES \<equiv> 1024"

section \<open>Sockets\<close>

text \<open>The atomic exchange of a slot with -1; the slot is given by its reader and its writer.\<close>

definition close_socket_slot :: "'w env \<Rightarrow> ('w plugin \<Rightarrow> i32) \<Rightarrow> (i32 \<Rightarrow> 'w plugin \<Rightarrow> 'w plugin) \<Rightarrow> 'w plugin \<Rightarrow> 'w plugin" where
  "close_socket_slot E slot set_slot s =
     (let sockfd = slot s; s = set_slot (- 1) s
      in if 0 \<le> sint sockfd then tell E (Net (sceNetSocketClose sockfd)) s else s)"

definition set_loader :: "i32 \<Rightarrow> 'w plugin \<Rightarrow> 'w plugin" where
  "set_loader fd s = s\<lparr>loader_sockfd := fd\<rparr>"

definition set_active :: "i32 \<Rightarrow> 'w plugin \<Rightarrow> 'w plugin" where
  "set_active fd s = s\<lparr>active_client_sockfd := fd\<rparr>"

abbreviation close_loader :: "'w env \<Rightarrow> 'w plugin \<Rightarrow> 'w plugin" where
  "close_loader E \<equiv> close_socket_slot E loader_sockfd set_loader"

abbreviation close_active :: "'w env \<Rightarrow> 'w plugin \<Rightarrow> 'w plugin" where
  "close_active E \<equiv> close_socket_slot E active_client_sockfd set_active"

definition configure_cmd_io_timeout :: "'w env \<Rightarrow> i32 \<Rightarrow> 'w plugin \<Rightarrow> i32 \<times> 'w plugin" where
  "configure_cmd_io_timeout E sockfd s =
     (let (r, s) = ask E (Net (sceNetSetsockopt sockfd SCE_NET_SO_SNDTIMEO CMD_SOCKET_IO_TIMEOUT_US)) s
      in if neg (rc r) then (rc r, s)
         else let (r, s) = ask E (Net (sceNetSetsockopt sockfd SCE_NET_SO_RCVTIMEO CMD_SOCKET_IO_TIMEOUT_US)) s in (rc r, s))"

section \<open>Requests and responses\<close>

text \<open>The loop of \<open>receive_command\<close>: an error, or the bytes received.\<close>

function receive_loop :: "'w env \<Rightarrow> i32 \<Rightarrow> nat \<Rightarrow> string \<Rightarrow> 'w plugin \<Rightarrow> ((i32 + string) \<times> 'w plugin) option" where
  "receive_loop E sockfd capacity cmd s =
     (if length cmd < capacity
      then let (r, s) = ask E (Net (sceNetRecv sockfd (of_nat (capacity - length cmd)))) s
           in if neg (rc r) then Some (Inl (rc r), s)
              else if rc r = 0 then Some (Inr cmd, s)
              else if capacity - length cmd < unat (rc r) then None
              else let cmd = cmd @ map (mem r) [0 ..< unat (rc r)]
                   in if LF \<in> set cmd then Some (Inr cmd, s) else receive_loop E sockfd capacity cmd s
      else Some (Inr cmd, s))"
  by pat_completeness auto
termination
  by (relation "measure (\<lambda>(E, fd, capacity, cmd, s). capacity - length cmd)") (auto simp: unat_gt_0 intro!: diff_less_mono2)

declare receive_loop.simps [simp del]

text \<open>The result, the flag \<open>too_long\<close> and the buffer.\<close>

definition receive_command :: "'w env \<Rightarrow> i32 \<Rightarrow> nat \<Rightarrow> 'w plugin \<Rightarrow> ((i32 \<times> bool \<times> string) \<times> 'w plugin) option" where
  "receive_command E sockfd capacity s = do {
     (received, s) \<leftarrow> receive_loop E sockfd capacity [] s;
     case received of
       Inl e \<Rightarrow> Some ((e, False, []), s)
     | Inr cmd \<Rightarrow> Some ((of_nat (length cmd), length cmd = capacity \<and> LF \<notin> set cmd, cmd), s) }"

definition cmd_handle :: "'w env \<Rightarrow> string \<Rightarrow> nat \<Rightarrow> string \<Rightarrow> nat \<Rightarrow> 'w plugin \<Rightarrow> (string \<times> 'w plugin) option" where
  "cmd_handle E cmd cmd_size res_msg n s =
     (case parse_cmd (Some cmd) cmd_size CMD_ARG_MAX of
        (None, cmd) \<Rightarrow> Some (snprintf n (''Error: Too many arguments.'' @ [LF]), s)
      | (Some ptrs, cmd) \<Rightarrow>
          let arg_list = map (arg_string cmd) ptrs
          in if length arg_list = 0 then Some (snprintf n (''Error: Empty command.'' @ [LF]), s)
             else (case cmd_get_definition (arg_list ! 0) of
                     None \<Rightarrow> Some (snprintf n (''Error: Unknown command.'' @ [LF]), s)
                   | Some cmd_def \<Rightarrow>
                       if arg_count cmd_def \<noteq> length arg_list - 1
                       then Some (snprintf n (''Error: Incorrect number of arguments.'' @ [LF]), s)
                       else execute E (executor cmd_def) arg_list res_msg n s))"

function send_response :: "'w env \<Rightarrow> i32 \<Rightarrow> string \<Rightarrow> 'w plugin \<Rightarrow> 'w plugin option" where
  "send_response E sockfd response s =
     (if 0 < length response
      then let (r, s) = ask E (Net (sceNetSend sockfd response)) s
           in if sint (rc r) \<le> 0 then Some s
              else if length response < unat (rc r) then None
              else send_response E sockfd (drop (unat (rc r)) response) s
      else Some s)"
  by pat_completeness auto
termination
  by (relation "measure (\<lambda>(E, fd, response, s). length response)") (auto intro!: diff_less sint_pos_unat)

declare send_response.simps [simp del]

section \<open>The thread\<close>

text \<open>What is answered to a client that has been accepted.\<close>

definition client_response :: "'w env \<Rightarrow> i32 \<Rightarrow> 'w plugin \<Rightarrow> (string \<times> 'w plugin) option" where
  "client_response E client_sockfd s =
     (case configure_cmd_io_timeout E client_sockfd s of (ret, s) \<Rightarrow>
        if neg ret then Some (snprintf CMD_RESPONSE_BYTES (''Error: Cannot configure command timeout.'' @ [LF]), s)
        else do {
          ((received, too_long, cmd), s) \<leftarrow> receive_command E client_sockfd CMD_REQUEST_BYTES s;
          if too_long then Some (snprintf CMD_RESPONSE_BYTES (''Error: Command is too long.'' @ [LF]), s)
          else if 0 < sint received then cmd_handle E cmd (unat received) [] CMD_RESPONSE_BYTES s
          else if received = 0 then Some (snprintf CMD_RESPONSE_BYTES (''Error: Empty command.'' @ [LF]), s)
          else Some (snprintf CMD_RESPONSE_BYTES (''Error: Command receive failed or timed out.'' @ [LF]), s) })"

definition serve_client :: "'w env \<Rightarrow> i32 \<Rightarrow> 'w plugin \<Rightarrow> 'w plugin option" where
  "serve_client E client_sockfd s = do {
     (res_msg, s) \<leftarrow> client_response E client_sockfd (set_active client_sockfd s);
     let res_msg = (if res_msg = [] then snprintf CMD_RESPONSE_BYTES (''Error: Empty response.'' @ [LF]) else res_msg);
     s \<leftarrow> send_response E client_sockfd res_msg s;
     Some (close_active E s) }"

partial_function (option) cmd_loop :: "'w env \<Rightarrow> 'w plugin \<Rightarrow> 'w plugin option" where
  "cmd_loop E s =
     (if run s \<and> net_connected s
      then let (r, s) = ask E (Net (sceNetAccept (loader_sockfd s))) s
           in if neg (rc r) then Some s
              else do { s \<leftarrow> serve_client E (rc r) s; cmd_loop E s }
      else Some s)"

definition cmd_exit_thread :: "'w env \<Rightarrow> 'w plugin \<Rightarrow> 'w plugin" where
  "cmd_exit_thread E s =
     (let s = (if loader_start_status s = CMD_START_PENDING then s\<lparr>loader_start_status := - 1\<rparr> else s);
          s = close_active E s;
          s = close_loader E s
      in tell E (Kernel sceKernelExitThread) s)"

text \<open>Creating, binding and listening; the result says whether the loop is entered.\<close>

definition cmd_listen :: "'w env \<Rightarrow> 'w plugin \<Rightarrow> bool \<times> 'w plugin" where
  "cmd_listen E s =
     (let (r, s) = ask E (Net (sceNetSocket ''vitacompanion_cmd_sock'')) s; s = set_loader (rc r) s
      in if neg (loader_sockfd s) then (False, s\<lparr>loader_start_status := loader_sockfd s\<rparr>)
         else let loaderaddr = \<lparr>sin_family = SCE_NET_AF_INET, sin_port = sceNetHtons E CMD_LISTEN_PORT, sin_addr = sceNetHtonl E 0\<rparr>;
                  (r, s) = ask E (Net (sceNetBind (loader_sockfd s) loaderaddr)) s
              in if neg (rc r) then (False, s\<lparr>loader_start_status := rc r\<rparr>)
                 else let (r, s) = ask E (Net (sceNetListen (loader_sockfd s) 8)) s
                      in if neg (rc r) then (False, s\<lparr>loader_start_status := rc r\<rparr>)
                         else (True, s\<lparr>loader_start_status := 0\<rparr>))"

definition cmd_thread :: "'w env \<Rightarrow> 'w plugin \<Rightarrow> 'w plugin option" where
  "cmd_thread E s = do {
     (listening, s) \<leftarrow> Some (cmd_listen E s);
     s \<leftarrow> (if listening then cmd_loop E s else Some s);
     Some (cmd_exit_thread E s) }"

section \<open>Start and end\<close>

text \<open>The wait for the thread; \<open>others i\<close> is what the other threads do during a delay, the number is that of the
  milliseconds left.\<close>

fun await_loader :: "'w env \<Rightarrow> (nat \<Rightarrow> 'w plugin \<Rightarrow> 'w plugin) \<Rightarrow> nat \<Rightarrow> 'w plugin \<Rightarrow> 'w plugin" where
  "await_loader E others 0 s = s"
| "await_loader E others (Suc n) s =
     (if loader_start_status s = CMD_START_PENDING
      then await_loader E others n (others n (tell E (Kernel (sceKernelDelayThread 1000)) s))
      else s)"

text \<open>Waiting for the thread and deleting it.\<close>

definition delete_loader :: "'w env \<Rightarrow> 'w plugin \<Rightarrow> 'w plugin" where
  "delete_loader E s = (tell E (Kernel (sceKernelDeleteThread (loader_thid s))) s)\<lparr>loader_thid := - 1\<rparr>"

definition cmd_start :: "'w env \<Rightarrow> (nat \<Rightarrow> 'w plugin \<Rightarrow> 'w plugin) \<Rightarrow> 'w plugin \<Rightarrow> i32 \<times> 'w plugin" where
  "cmd_start E others s =
     (if 0 \<le> sint (loader_thid s) then (0, s)
      else let s = s\<lparr>loader_start_status := CMD_START_PENDING\<rparr>;
               (r, s) = ask E (Kernel (sceKernelCreateThread ''vitacompanion_cmd_thread'')) s;
               s = s\<lparr>loader_thid := rc r\<rparr>
           in if neg (loader_thid s) then (loader_thid s, s)
              else let (r, s) = ask E (Kernel (sceKernelStartThread (loader_thid s))) s
                   in if neg (rc r) then (rc r, delete_loader E s)
                      else let s = await_loader E others CMD_START_TIMEOUT_MS s
                           in if loader_start_status s \<noteq> 0
                              then let ret = (if loader_start_status s = CMD_START_PENDING then - 1 else loader_start_status s);
                                       s = close_loader E s;
                                       s = tell E (Kernel (sceKernelWaitThreadEnd (loader_thid s))) s
                                   in (ret, delete_loader E s)
                              else (0, s))"

definition cmd_end :: "'w env \<Rightarrow> 'w plugin \<Rightarrow> 'w plugin" where
  "cmd_end E s =
     (let s = close_active E (close_loader E s)
      in if 0 \<le> sint (loader_thid s) then delete_loader E (tell E (Kernel (sceKernelWaitThreadEnd (loader_thid s))) s) else s)"

section \<open>Dispatch on the words of the first line\<close>

definition run_words :: "'w env \<Rightarrow> string list \<Rightarrow> nat \<Rightarrow> 'w plugin \<Rightarrow> (string \<times> 'w plugin) option" where
  "run_words E ws n s =
     (if CMD_ARG_MAX < length ws then Some (snprintf n (''Error: Too many arguments.'' @ [LF]), s)
      else case ws of
        [] \<Rightarrow> Some (snprintf n (''Error: Empty command.'' @ [LF]), s)
      | w # args \<Rightarrow>
          (case cmd_get_definition w of
             None \<Rightarrow> Some (snprintf n (''Error: Unknown command.'' @ [LF]), s)
           | Some d \<Rightarrow> if arg_count d \<noteq> length args then Some (snprintf n (''Error: Incorrect number of arguments.'' @ [LF]), s)
                       else execute E (executor d) ws [] n s))"

lemma cmd_handle_words: "cmd_handle E cmd (length cmd) [] n s = run_words E (tokens (line_of cmd)) n s"
proof (cases "CMD_ARG_MAX < length (tokens (line_of cmd))")
  case True
  then obtain buf where "parse_cmd (Some cmd) (length cmd) CMD_ARG_MAX = (None, buf)"
    using parse_cmd_Some [of CMD_ARG_MAX cmd] by (auto split: prod.splits)
  with True show ?thesis by (simp add: cmd_handle_def run_words_def)
next
  case False
  then obtain ps buf where "parse_cmd (Some cmd) (length cmd) CMD_ARG_MAX = (Some ps, buf)" "map (arg_string buf) ps = tokens (line_of cmd)"
    using parse_cmd_Some [of CMD_ARG_MAX cmd] by (auto split: prod.splits)
  with False show ?thesis
    by (auto simp: cmd_handle_def run_words_def Let_def split: list.split option.split)
qed

lemma tokens_no_NUL: "w \<in> set (tokens s) \<Longrightarrow> NUL \<notin> set s \<Longrightarrow> NUL \<notin> set w"
proof (induction s rule: tokens.induct)
  case (1 s)
  let ?t = "dropWhile is_sep s"
  have sub: "set ?t \<subseteq> set s" "set (takeWhile (\<lambda>c. \<not> is_sep c) ?t) \<subseteq> set ?t" "set (dropWhile (\<lambda>c. \<not> is_sep c) ?t) \<subseteq> set ?t"
    by (auto dest: set_dropWhileD set_takeWhileD)
  from 1(2) have "?t \<noteq> []" "w = takeWhile (\<lambda>c. \<not> is_sep c) ?t \<or> w \<in> set (tokens (dropWhile (\<lambda>c. \<not> is_sep c) ?t))"
    by (subst (asm) tokens.simps; auto simp: Let_def split: if_splits)+
  with 1(1,3) sub show ?case by blast
qed

lemma line_no_NUL: "NUL \<notin> set (line_of s)"
  by (auto simp: line_of_def dest: set_takeWhileD)

lemma execute_serves:
  assumes "1 < n" and "registry (ftpd s) ps" and "names_ok E" and "\<forall>w \<in> set ws. NUL \<notin> set w"
    and "d \<in> set cmd_definitions" and "length ws = Suc (arg_count d)" and "execute E (executor d) ws [] n s = Some y"
  shows "serves n s y"
proof -
  have "NUL \<notin> set (ws ! 1)" if "executor d = Cmd_launch"
    using assms(4-6) that nth_mem [of 1 ws] by (auto simp: cmd_definitions_def)
  with assms(1-3,7) show ?thesis
    by (cases "executor d") (auto simp: execute_def intro: served serves_ftpreset serves_install)
qed

lemma run_words_serves:
  assumes "1 < n" and "registry (ftpd s) ps" and "names_ok E" and "\<forall>w \<in> set ws. NUL \<notin> set w" and "run_words E ws n s = Some y"
  shows "serves n s y"
proof -
  have err: "serves n s (snprintf n (''Error: '' @ t), s)" if "NUL \<notin> set t" for t
    using response_snprintf [OF assms(1), of "''Error: '' @ t"] that by (simp add: serves_def)
  have "d \<in> set cmd_definitions" if "cmd_get_definition w = Some d" for d w
    using that by (auto simp: cmd_get_definition_def find_Some_iff)
  note ex = execute_serves [OF assms(1-4) this]
  have texts: "NUL \<notin> set (''Too many arguments.'' @ [LF])" "NUL \<notin> set (''Empty command.'' @ [LF])"
    "NUL \<notin> set (''Unknown command.'' @ [LF])" "NUL \<notin> set (''Incorrect number of arguments.'' @ [LF])" by simp_all
  show ?thesis using assms(5) err [OF texts(1)] err [OF texts(2)] err [OF texts(3)] err [OF texts(4)] ex
    by (auto simp: run_words_def split: if_splits list.splits option.splits)
qed

lemma cmd_handle_serves:
  assumes "1 < n" and "registry (ftpd s) ps" and "names_ok E" and "cmd_handle E cmd (length cmd) [] n s = Some y"
  shows "serves n s y"
  using run_words_serves [OF assms(1-3)] assms(4) tokens_no_NUL [OF _ line_no_NUL] unfolding cmd_handle_words by blast

section \<open>What the command server owns\<close>

definition cmd_owned :: "'w plugin \<Rightarrow> resource \<Rightarrow> int" where
  "cmd_owned s x = of_bool (\<not> neg (loader_thid s) \<and> x = Thread (loader_thid s)) + holds (loader_sockfd s) x + holds (active_client_sockfd s) x"

definition cmd_extra :: "'w plugin \<Rightarrow> resource \<Rightarrow> int" where
  "cmd_extra s x = balance (calls s) x - cmd_owned s x"

text \<open>The state of the FTP server but for the world, the trace and the reboot guard; the globals of \<^verbatim>\<open>net.c\<close> and \<^verbatim>\<open>main.c\<close>.\<close>

definition ftp_core :: "'w ftp \<Rightarrow> 'w ftp" where
  "ftp_core f = f\<lparr>world := undefined, trace := [], reboot_quiesce_requested := 0\<rparr>"

definition net_fields :: "'w plugin \<Rightarrow> bool \<times> bool \<times> bool \<times> i32 \<times> i32 \<times> bool \<times> bool" where
  "net_fields s = (run s, all_is_up s, net_connected s, net_thid s, netctl_cb_id s, desired_connected s, netctl_initialized s)"

text \<open>The command server works beside the others: it leaves their state alone, and the accounts change by what it owns.\<close>

definition beside :: "'w plugin \<Rightarrow> 'w plugin \<Rightarrow> bool" where
  "beside s t \<longleftrightarrow> ftp_core (ftpd t) = ftp_core (ftpd s) \<and> net_fields t = net_fields s \<and> (\<exists>tr. calls t = calls s @ tr) \<and>
     (\<forall>x. cmd_extra t x = cmd_extra s x)"

lemma beside_refl [simp]: "beside s s"
  by (simp add: beside_def)

lemma beside_trans: "beside s t \<Longrightarrow> beside t u \<Longrightarrow> beside s u"
  by (auto simp: beside_def)

lemma ftp_core_same:
  assumes "ftp_core f = ftp_core g"
  shows "registry f ps = registry g ps" "server_owned f = server_owned g" "server_fields f = server_fields g"
    "server_sockfd f = server_sockfd g" "client_heap f = client_heap g" "client_list f = client_list g" "number_clients f = number_clients g"
proof -
  have *: "client_heap (ftp_core f) = client_heap f" "client_list (ftp_core f) = client_list f"
    "number_clients (ftp_core f) = number_clients f" "server_thid (ftp_core f) = server_thid f"
    "client_list_mtx (ftp_core f) = client_list_mtx f" "server_sockfd (ftp_core f) = server_sockfd f"
    "net_init (ftp_core f) = net_init f" "netctl_init (ftp_core f) = netctl_init f" "net_memory (ftp_core f) = net_memory f"
    "ftp_initialized (ftp_core f) = ftp_initialized f" for f :: "'b ftp"
    by (simp_all add: ftp_core_def)
  note eqs = *[of f] *[of g] assms
  show "server_owned f = server_owned g" by (rule ext) (use eqs in \<open>simp add: server_owned_def\<close>)
  show "registry f ps = registry g ps" "server_fields f = server_fields g"
    "server_sockfd f = server_sockfd g" "client_heap f = client_heap g" "client_list f = client_list g" "number_clients f = number_clients g"
    using eqs by (simp_all add: registry_def server_fields_def)
qed

lemma undisturbed_beside: "undisturbed s t \<Longrightarrow> beside s t"
  by (erule undisturbedE) (simp add: beside_def ftp_core_def net_fields_def cmd_extra_def cmd_owned_def)

lemma beside_tell: "beside s t \<Longrightarrow> neutral c \<Longrightarrow> beside s (tell E c t)"
  by (erule beside_trans) (simp add: undisturbed_beside)

lemma beside_ask: "ask E c t = (r, u) \<Longrightarrow> beside s t \<Longrightarrow> neutral c \<Longrightarrow> beside s u"
  using beside_tell [of s t c E] by (simp add: tell_def)

lemma beside_status [simp]: "beside s (t\<lparr>loader_start_status := i\<rparr>) \<longleftrightarrow> beside s t"
  by (simp add: beside_def net_fields_def cmd_extra_def cmd_owned_def)

lemma tell_fields [simp]:
  "loader_sockfd (tell E c s) = loader_sockfd s" "active_client_sockfd (tell E c s) = active_client_sockfd s"
  "loader_thid (tell E c s) = loader_thid s" "loader_start_status (tell E c s) = loader_start_status s"
  "net_fields (tell E c s) = net_fields s" "ftp_core (ftpd (tell E c s)) = ftp_core (ftpd s)"
  "balance (calls (tell E c s)) x = balance (calls s) x + delta (c, fst (ask E c s)) x"
  by (simp_all add: tell_eq net_fields_def ftp_core_def exec_def ask_eq syscall_def split: prod.split)

lemma cmd_extra_tell [simp]: "cmd_extra (tell E c s) x = cmd_extra s x + delta (c, fst (ask E c s)) x"
  by (simp add: cmd_extra_def cmd_owned_def)

lemma beside_failed:
  assumes "beside s t" and "ask E c t = (r, u)" and "\<And>x. delta (c, r) x = 0"
  shows "beside s u"
proof -
  have "u = tell E c t" "fst (ask E c t) = r" using assms(2) by (simp_all add: ask_tellD)
  then show ?thesis using assms(1,3) by (auto simp: beside_def calls_tell)
qed

lemma beside_close: "beside s t \<Longrightarrow> beside s (close_loader E t)" "beside s t \<Longrightarrow> beside s (close_active E t)"
  by (erule beside_trans, simp add: close_socket_slot_def set_loader_def set_active_def Let_def beside_def calls_tell,
      simp add: net_fields_def cmd_extra_def cmd_owned_def delta_def holds_def)+

lemma close_loader_fields [simp]:
  "loader_sockfd (close_loader E s) = - 1" "active_client_sockfd (close_loader E s) = active_client_sockfd s"
  "loader_thid (close_loader E s) = loader_thid s" "loader_start_status (close_loader E s) = loader_start_status s"
  by (simp_all add: close_socket_slot_def set_loader_def Let_def)

lemma close_active_fields [simp]:
  "active_client_sockfd (close_active E s) = - 1" "loader_sockfd (close_active E s) = loader_sockfd s"
  "loader_thid (close_active E s) = loader_thid s" "loader_start_status (close_active E s) = loader_start_status s"
  by (simp_all add: close_socket_slot_def set_active_def Let_def)

section \<open>A client\<close>

lemma configure_undisturbed: "configure_cmd_io_timeout E fd s = (r, t) \<Longrightarrow> undisturbed s t"
  by (auto simp: configure_cmd_io_timeout_def dest!: ask_tellD intro!: undisturbed_tell split: prod.splits if_splits)

lemma receive_loop_undisturbed: "receive_loop E fd n cmd t = Some (r, u) \<Longrightarrow> undisturbed s t \<Longrightarrow> undisturbed s u"
proof (induction E fd n cmd t rule: receive_loop.induct)
  case (1 E fd n cmd t)
  obtain r1 t1 where a: "ask E (Net (sceNetRecv fd (of_nat (n - length cmd)))) t = (r1, t1)" by fastforce
  have "undisturbed s t1" using undisturbed_ask [OF a 1(3)] by simp
  with 1(1) [OF _ a [symmetric] refl] 1(2) a 1(3) show ?case
    by (subst (asm) receive_loop.simps) (auto simp: Let_def split: if_splits)
qed

lemma send_response_undisturbed: "send_response E fd m t = Some u \<Longrightarrow> undisturbed s t \<Longrightarrow> undisturbed s u"
proof (induction E fd m t rule: send_response.induct)
  case (1 E fd m t)
  obtain r1 t1 where a: "ask E (Net (sceNetSend fd m)) t = (r1, t1)" by fastforce
  have "undisturbed s t1" using undisturbed_ask [OF a 1(3)] by simp
  with 1(1) [OF _ a [symmetric] refl] 1(2) a 1(3) show ?case
    by (subst (asm) send_response.simps) (auto simp: Let_def split: if_splits)
qed

lemma receive_loop_error: "receive_loop E fd n cmd t = Some (Inl e, u) \<Longrightarrow> neg e"
proof (induction E fd n cmd t rule: receive_loop.induct)
  case (1 E fd n cmd t)
  obtain r1 t1 where a: "ask E (Net (sceNetRecv fd (of_nat (n - length cmd)))) t = (r1, t1)" by fastforce
  with 1(1) [OF _ a [symmetric] refl] 1(2) show ?case
    by (subst (asm) receive_loop.simps) (auto simp: Let_def split: if_splits)
qed

text \<open>The length of a request fits an \<open>int\<close>.\<close>

lemma receive_loop_bounded: "receive_loop E fd n cmd t = Some (Inr cmd', u) \<Longrightarrow> length cmd \<le> n \<Longrightarrow> length cmd' \<le> n"
proof (induction E fd n cmd t rule: receive_loop.induct)
  case (1 E fd n cmd t)
  obtain r1 t1 where a: "ask E (Net (sceNetRecv fd (of_nat (n - length cmd)))) t = (r1, t1)" by fastforce
  with 1(1) [OF _ a [symmetric] refl] 1(2,3) show ?case
    by (subst (asm) receive_loop.simps) (auto simp: Let_def split: if_splits)
qed

lemma request_size: "n \<le> CMD_REQUEST_BYTES \<Longrightarrow> unat (word_of_nat n :: i32) = n \<and> sint (word_of_nat n :: i32) = int n"
  by (simp add: unat_of_nat signed_of_nat signed_take_bit_int_eq_self)

definition answered :: "'w plugin \<Rightarrow> string \<times> 'w plugin \<Rightarrow> bool" where
  "answered s y \<longleftrightarrow> undisturbed s (snd y) \<and> response_ok CMD_RESPONSE_BYTES (fst y)"

lemma answered_text: "undisturbed s t \<Longrightarrow> NUL \<notin> set m \<Longrightarrow> m \<noteq> [] \<Longrightarrow> answered s (snprintf CMD_RESPONSE_BYTES m, t)"
  by (simp add: answered_def response_snprintf)

lemma client_response_answered:
  assumes "registry (ftpd s) ps" and "names_ok E" and "client_response E fd s = Some y"
  shows "answered s y"
proof -
  obtain ret s1 where 1: "configure_cmd_io_timeout E fd s = (ret, s1)" by fastforce
  have b1: "undisturbed s s1" using configure_undisturbed [OF 1] .
  show ?thesis
  proof (cases "neg ret")
    case True
    with assms(3) 1 b1 show ?thesis by (auto simp: client_response_def intro!: answered_text)
  next
    case False
    then obtain received s2 where 2: "receive_loop E fd CMD_REQUEST_BYTES [] s1 = Some (received, s2)"
      using assms(3) 1 by (auto simp: client_response_def receive_command_def Option.bind_eq_Some_conv)
    have b2: "undisturbed s s2" using receive_loop_undisturbed [OF 2 b1] .
    have reg: "registry (ftpd s2) ps" using undisturbed_beside [OF b2] assms(1) ftp_core_same(1) by (auto simp: beside_def)
    show ?thesis
    proof (cases received)
      case (Inl e)
      moreover have "neg e" using receive_loop_error [OF 2 [unfolded Inl]] .
      ultimately show ?thesis using assms(3) 1 2 False b2
        by (auto simp: client_response_def receive_command_def intro!: answered_text split: if_splits)
    next
      case (Inr cmd)
      have size: "unat (word_of_nat (length cmd) :: i32) = length cmd" "sint (word_of_nat (length cmd) :: i32) = int (length cmd)"
        using receive_loop_bounded [OF 2 [unfolded Inr]] request_size by auto
      have handled: "answered s y" if "cmd_handle E cmd (length cmd) [] CMD_RESPONSE_BYTES s2 = Some y"
        using cmd_handle_serves [OF _ reg assms(2) that] undisturbed_trans [OF b2] by (simp add: answered_def serves_def)
      show ?thesis using assms(3) 1 2 False b2 Inr size handled
        by (auto simp: client_response_def receive_command_def intro!: answered_text split: if_splits)
    qed
  qed
qed

section \<open>The accounts of the server\<close>

text \<open>What a client's turn leaves alone of the command server's globals.\<close>

definition loader_fields :: "'w plugin \<Rightarrow> i32 \<times> i32 \<times> i32" where
  "loader_fields s = (loader_thid s, loader_sockfd s, loader_start_status s)"

lemma undisturbed_loader: "undisturbed s t \<Longrightarrow> loader_fields t = loader_fields s"
  by (erule undisturbedE) (simp add: loader_fields_def)

lemma serve_client_beside:
  assumes "registry (ftpd s) ps" and "names_ok E" and "neg (active_client_sockfd s)" and "serve_client E fd s = Some t"
    and "\<And>x. cmd_extra s x = c x + holds fd x" and "\<not> neg fd"
  shows "ftp_core (ftpd t) = ftp_core (ftpd s) \<and> net_fields t = net_fields s \<and> (\<exists>tr. calls t = calls s @ tr) \<and>
    (\<forall>x. cmd_extra t x = c x) \<and> active_client_sockfd t = - 1 \<and> loader_fields t = loader_fields s"
proof -
  let ?s = "set_active fd s"
  have reg: "registry (ftpd ?s) ps" using assms(1) by (simp add: set_active_def)
  have own: "cmd_owned ?s x = cmd_owned s x + holds fd x" for x
    using assms(3) by (simp add: cmd_owned_def set_active_def holds_def)
  have same: "ftp_core (ftpd ?s) = ftp_core (ftpd s)" "net_fields ?s = net_fields s" "calls ?s = calls s" "loader_fields ?s = loader_fields s"
    by (simp_all add: set_active_def net_fields_def loader_fields_def)
  have extra: "cmd_extra ?s x = c x" for x using own [of x] assms(5) [of x] same(3) by (simp add: cmd_extra_def)
  note start = same extra
  obtain m u where 1: "client_response E fd ?s = Some (m, u)" using assms(4) by (auto simp: serve_client_def Option.bind_eq_Some_conv)
  have "answered ?s (m, u)" using client_response_answered [OF reg assms(2) 1] .
  then have b: "undisturbed ?s u" and m: "m \<noteq> []" by (simp_all add: answered_def response_ok_def)
  obtain v where 2: "send_response E fd m u = Some v" and t: "t = close_active E v"
    using assms(4) 1 m by (auto simp: serve_client_def Option.bind_eq_Some_conv)
  have v: "undisturbed ?s v" using send_response_undisturbed [OF 2 b] .
  then have "beside ?s t" unfolding t by (intro beside_close undisturbed_beside)
  moreover have "loader_fields t = loader_fields ?s" using undisturbed_loader [OF v] by (simp add: t loader_fields_def)
  ultimately show ?thesis using start t by (auto simp: beside_def)
qed

text \<open>The loop and the thread: between two clients nothing but the listening socket is open.\<close>

definition loader_ok :: "'w plugin \<Rightarrow> 'w plugin \<Rightarrow> bool" where
  "loader_ok s t \<longleftrightarrow> beside s t \<and> neg (active_client_sockfd t)"

lemma cmd_turn_ok:
  assumes "loader_ok s t" and "registry (ftpd s) ps" and "names_ok E" and "ask E (Net (sceNetAccept (loader_sockfd t))) t = (r, u)"
    and "\<not> neg (rc r)" and "serve_client E (rc r) u = Some v"
  shows "loader_ok s v \<and> loader_fields v = loader_fields t"
proof -
  have u: "u = tell E (Net (sceNetAccept (loader_sockfd t))) t" and r: "fst (ask E (Net (sceNetAccept (loader_sockfd t))) t) = r"
    using assms(4) by (simp_all add: ask_tellD)
  have b: "beside s t" and idle: "neg (active_client_sockfd t)" using assms(1) by (simp_all add: loader_ok_def)
  have "ftp_core (ftpd u) = ftp_core (ftpd s)" using b by (simp add: beside_def u)
  then have reg: "registry (ftpd u) ps" using assms(2) ftp_core_same(1) by blast
  have extra: "cmd_extra u x = cmd_extra t x + holds (rc r) x" for x
    using assms(5) by (simp add: u r delta_def holds_def eq_commute [of x])
  have "ftp_core (ftpd v) = ftp_core (ftpd u) \<and> net_fields v = net_fields u \<and> (\<exists>tr. calls v = calls u @ tr) \<and>
    (\<forall>x. cmd_extra v x = cmd_extra t x) \<and> active_client_sockfd v = - 1 \<and> loader_fields v = loader_fields u"
    by (rule serve_client_beside [OF reg assms(3) _ assms(6) extra assms(5)]) (simp add: u idle)
  then show ?thesis using b by (auto simp: loader_ok_def beside_def u calls_tell loader_fields_def)
qed

lemma cmd_loop_ok:
  assumes "cmd_loop E s0 = Some t" and "loader_ok s s0" and "registry (ftpd s) ps" and "names_ok E"
  shows "loader_ok s t"
proof -
  have "loader_ok s s0 \<longrightarrow> names_ok E \<longrightarrow> loader_ok s t"
  proof (rule cmd_loop.raw_induct [where P = "\<lambda>E s0 t. loader_ok s s0 \<longrightarrow> names_ok E \<longrightarrow> loader_ok s t", OF _ assms(1)], intro impI)
    fix f and E :: "'a env" and s0 t
    assume IH: "\<And>E s0 t. f E s0 = Some t \<Longrightarrow> loader_ok s s0 \<longrightarrow> names_ok E \<longrightarrow> loader_ok s t"
      and run: "(if run s0 \<and> net_connected s0
        then let (r, s) = ask E (Net (sceNetAccept (loader_sockfd s0))) s0
             in if neg (rc r) then Some s else serve_client E (rc r) s \<bind> f E
        else Some s0) = Some t"
      and ok: "loader_ok s s0" "names_ok E"
    obtain r u where a: "ask E (Net (sceNetAccept (loader_sockfd s0))) s0 = (r, u)" by fastforce
    have failed: "loader_ok s u" if "neg (rc r)"
      using ok(1) that beside_failed [OF _ a, of s] by (simp add: loader_ok_def delta_def ask_tellD [OF a])
    show "loader_ok s t"
      using run a ok(1) failed cmd_turn_ok [OF ok(1) assms(3) ok(2) a] IH ok(2)
      by (auto simp: Option.bind_eq_Some_conv split: if_splits)
  qed
  with assms(2,4) show ?thesis by simp
qed

lemma beside_exit:
  assumes "beside s t"
  shows "beside s (cmd_exit_thread E t) \<and> loader_sockfd (cmd_exit_thread E t) = - 1 \<and>
    active_client_sockfd (cmd_exit_thread E t) = - 1 \<and> loader_start_status (cmd_exit_thread E t) \<noteq> CMD_START_PENDING \<and>
    (loader_start_status t \<noteq> CMD_START_PENDING \<longrightarrow> loader_start_status (cmd_exit_thread E t) = loader_start_status t)"
  using assms by (simp add: cmd_exit_thread_def Let_def beside_tell beside_close)

lemma beside_new_loader:
  assumes "ask E (Net (sceNetSocket n)) s = (r, u)" and "neg (loader_sockfd s)"
  shows "beside s (set_loader (rc r) u)"
proof -
  have u: "u = tell E (Net (sceNetSocket n)) s" and r: "fst (ask E (Net (sceNetSocket n)) s) = r"
    using assms(1) by (simp_all add: ask_tellD)
  have "cmd_owned (set_loader (rc r) u) x = cmd_owned s x + holds (rc r) x" for x
    using assms(2) by (simp add: cmd_owned_def set_loader_def u holds_def)
  moreover have "balance (calls (set_loader (rc r) u)) x = balance (calls s) x + holds (rc r) x" for x
    by (simp add: set_loader_def u r delta_def holds_def eq_commute [of x])
  moreover have "\<exists>tr. calls (set_loader (rc r) u) = calls s @ tr" by (simp add: set_loader_def u calls_tell)
  moreover have "ftp_core (ftpd (set_loader (rc r) u)) = ftp_core (ftpd s)" "net_fields (set_loader (rc r) u) = net_fields u"
    by (simp_all add: set_loader_def u net_fields_def)
  ultimately show ?thesis unfolding beside_def cmd_extra_def by (simp add: u)
qed

lemma cmd_listen_ok:
  assumes "neg (loader_sockfd s)" and "cmd_listen E s = (ok, t)"
  shows "beside s t \<and> active_client_sockfd t = active_client_sockfd s \<and> loader_thid t = loader_thid s"
proof -
  obtain r1 u1 where 1: "ask E (Net (sceNetSocket ''vitacompanion_cmd_sock'')) s = (r1, u1)" by fastforce
  let ?s1 = "set_loader (rc r1) u1"
  let ?addr = "\<lparr>sin_family = SCE_NET_AF_INET, sin_port = sceNetHtons E CMD_LISTEN_PORT, sin_addr = sceNetHtonl E 0\<rparr>"
  have b1: "beside s ?s1" using beside_new_loader [OF 1 assms(1)] .
  obtain r2 s2 where 2: "ask E (Net (sceNetBind (loader_sockfd ?s1) ?addr)) ?s1 = (r2, s2)" by fastforce
  obtain r3 s3 where 3: "ask E (Net (sceNetListen (loader_sockfd s2) 8)) s2 = (r3, s3)" by fastforce
  have "beside s s2" by (rule beside_ask [OF 2 b1]) simp
  then have b2: "beside s s2" "beside s s3" using beside_ask [OF 3, of s] by simp_all
  have "active_client_sockfd u = active_client_sockfd s \<and> loader_thid u = loader_thid s" if "u \<in> {?s1, s2, s3}" for u
    using that by (auto simp: ask_tellD [OF 3] ask_tellD [OF 2] set_loader_def ask_tellD [OF 1])
  moreover obtain u i where "u \<in> {?s1, s2, s3}" "t = u\<lparr>loader_start_status := i\<rparr>"
    using assms(2) 1 2 3 by (fastforce simp: cmd_listen_def Let_def split: if_splits)
  moreover from this(1) have "beside s u" using b1 b2 by blast
  ultimately show ?thesis by simp
qed

lemma cmd_thread_ok:
  assumes "registry (ftpd s) ps" and "names_ok E" and "neg (loader_sockfd s)" and "neg (active_client_sockfd s)" and "cmd_thread E s = Some t"
  shows "beside s t \<and> loader_sockfd t = - 1 \<and> active_client_sockfd t = - 1 \<and> loader_start_status t \<noteq> CMD_START_PENDING"
proof -
  obtain ok u where 1: "cmd_listen E s = (ok, u)" by fastforce
  have u: "beside s u" "neg (active_client_sockfd u)" using cmd_listen_ok [OF assms(3) 1] assms(4) by simp_all
  obtain v where v: "(if ok then cmd_loop E u else Some u) = Some v" "t = cmd_exit_thread E v"
    using assms(5) 1 by (auto simp: cmd_thread_def Option.bind_eq_Some_conv split: if_splits)
  have "beside s v"
  proof (cases ok)
    case True
    with v(1) have "cmd_loop E u = Some v" by simp
    then have "loader_ok s v" by (rule cmd_loop_ok [OF _ _ assms(1,2)]) (use u in \<open>simp add: loader_ok_def\<close>)
    then show ?thesis by (simp add: loader_ok_def)
  qed (use v(1) u(1) in simp)
  then show ?thesis using beside_exit v(2) by blast
qed

end
