(* ===== verification/Ftp_Bytes.thy ===== *)
theory Ftp_Bytes
  imports Ftp_Transfer
begin

text \<open>
  What the transfers of \<^verbatim>\<open>libftpvita/ftpvita.c\<close> do with the bytes. The trace determines the bytes that
  were read from a file, written to it, sent on a socket and received from it; with these histories
  the callbacks satisfy the contracts of the loops, and the loops' guarantees become statements
  about the commands RETR, STOR and APPE.
\<close>

section \<open>Histories of bytes\<close>

definition event_read :: "i32 \<Rightarrow> event \<Rightarrow> string" where
  "event_read fd e = (case e of (Io (sceIoRead fd' n), r) \<Rightarrow>
     if fd' = fd \<and> good_count (rc r) n then map (mem r) [0 ..< unat (rc r)] else [] | _ \<Rightarrow> [])"

definition event_written :: "i32 \<Rightarrow> event \<Rightarrow> string" where
  "event_written fd e = (case e of (Io (sceIoWrite fd' bs), r) \<Rightarrow>
     if fd' = fd \<and> 0 < sint (rc r) \<and> unat (rc r) \<le> length bs then take (unat (rc r)) bs else [] | _ \<Rightarrow> [])"

definition event_sent :: "i32 \<Rightarrow> event \<Rightarrow> string" where
  "event_sent fd e = (case e of (Net (sceNetSend fd' bs), r) \<Rightarrow>
     if fd' = fd \<and> 0 < sint (rc r) \<and> unat (rc r) \<le> length bs then take (unat (rc r)) bs else [] | _ \<Rightarrow> [])"

definition event_received :: "i32 \<Rightarrow> event \<Rightarrow> string" where
  "event_received fd e = (case e of (Net (sceNetRecv fd' n), r) \<Rightarrow>
     if fd' = fd \<and> good_count (rc r) n then map (mem r) [0 ..< unat (rc r)] else [] | _ \<Rightarrow> [])"

definition read_bytes :: "i32 \<Rightarrow> event list \<Rightarrow> string" where
  "read_bytes fd tr = concat (map (event_read fd) tr)"

definition written_bytes :: "i32 \<Rightarrow> event list \<Rightarrow> string" where
  "written_bytes fd tr = concat (map (event_written fd) tr)"

definition sent_bytes :: "i32 \<Rightarrow> event list \<Rightarrow> string" where
  "sent_bytes fd tr = concat (map (event_sent fd) tr)"

definition received_bytes :: "i32 \<Rightarrow> event list \<Rightarrow> string" where
  "received_bytes fd tr = concat (map (event_received fd) tr)"

lemmas bytes_defs = read_bytes_def written_bytes_def sent_bytes_def received_bytes_def

lemma bytes_append [simp]:
  "read_bytes fd (tr @ tr') = read_bytes fd tr @ read_bytes fd tr'"
  "written_bytes fd (tr @ tr') = written_bytes fd tr @ written_bytes fd tr'"
  "sent_bytes fd (tr @ tr') = sent_bytes fd tr @ sent_bytes fd tr'"
  "received_bytes fd (tr @ tr') = received_bytes fd tr @ received_bytes fd tr'"
  by (simp_all add: bytes_defs)

lemma bytes_Cons [simp]:
  "read_bytes fd (e # tr) = event_read fd e @ read_bytes fd tr"
  "written_bytes fd (e # tr) = event_written fd e @ written_bytes fd tr"
  "sent_bytes fd (e # tr) = event_sent fd e @ sent_bytes fd tr"
  "received_bytes fd (e # tr) = event_received fd e @ received_bytes fd tr"
  by (simp_all add: bytes_defs)

lemma bytes_Nil [simp]:
  "read_bytes fd [] = []" "written_bytes fd [] = []" "sent_bytes fd [] = []" "received_bytes fd [] = []"
  by (simp_all add: bytes_defs)

text \<open>A call that moves no bytes.\<close>

definition moves_bytes :: "call \<Rightarrow> bool" where
  "moves_bytes c = (case c of Net (sceNetSend _ _) \<Rightarrow> True | Net (sceNetRecv _ _) \<Rightarrow> True
     | Io (sceIoRead _ _) \<Rightarrow> True | Io (sceIoWrite _ _) \<Rightarrow> True | _ \<Rightarrow> False)"

lemma event_simps [simp]:
  "\<not> moves_bytes c \<Longrightarrow> event_read fd (c, r) = []" "\<not> moves_bytes c \<Longrightarrow> event_written fd (c, r) = []"
  "\<not> moves_bytes c \<Longrightarrow> event_sent fd (c, r) = []" "\<not> moves_bytes c \<Longrightarrow> event_received fd (c, r) = []"
  by (auto simp: moves_bytes_def event_read_def event_written_def event_sent_def event_received_def
      split: call.splits net_call.splits io_call.splits)

section \<open>The callbacks of the source satisfy the contracts\<close>

interpretation retr: retr_io "retr_read E io" "retr_send E io"
    "\<lambda>s. read_bytes (retr_fd io) (trace s)" "\<lambda>s. sent_bytes (retr_sockfd io) (trace s)" for E io
proof
  show "retr_read E io c buffer n = (r, buffer', c') \<Longrightarrow> unat n \<le> length buffer \<Longrightarrow>
      length buffer' = length buffer \<and>
      sent_bytes (retr_sockfd io) (trace c') = sent_bytes (retr_sockfd io) (trace c) \<and>
      read_bytes (retr_fd io) (trace c') = read_bytes (retr_fd io) (trace c) @
        (if good_count r n then take (unat r) buffer' else [])" for c buffer n r buffer' c'
    by (auto simp: retr_read_def event_read_def event_sent_def take_fill_good dest!: syscall_trace split: prod.splits)
  show "retr_send E io c bytes n = (r, e, c') \<Longrightarrow> unat n \<le> length bytes \<Longrightarrow>
      read_bytes (retr_fd io) (trace c') = read_bytes (retr_fd io) (trace c) \<and>
      sent_bytes (retr_sockfd io) (trace c') = sent_bytes (retr_sockfd io) (trace c) @
        (if good_count r n then take (unat r) bytes else [])" for c bytes n r e c'
    by (auto simp: retr_send_def event_read_def event_sent_def word_le_nat_alt min_def dest!: syscall_trace
        split: prod.splits if_splits)
qed

interpretation store: store_io "store_receive E" "store_write E fd"
    "\<lambda>s. received_bytes (data_fd (cl s)) (trace s)" "\<lambda>s. written_bytes fd (trace s)" for E fd
proof
  show "store_receive E c buffer n = (r, e, buffer', c') \<Longrightarrow> unat n \<le> length buffer \<Longrightarrow>
      length buffer' = length buffer \<and> written_bytes fd (trace c') = written_bytes fd (trace c) \<and>
      received_bytes (data_fd (cl c')) (trace c') = received_bytes (data_fd (cl c)) (trace c) @
        (if good_count r n then take (unat r) buffer' else [])" for c buffer n r e buffer' c'
    by (auto simp: store_receive_def client_recv_data_raw_def event_received_def event_written_def take_fill_good
        syscall_trace syscall_ftpD split: prod.splits)
  show "store_write E fd c bytes n = (w, c') \<Longrightarrow> unat n \<le> length bytes \<Longrightarrow>
      received_bytes (data_fd (cl c')) (trace c') = received_bytes (data_fd (cl c)) (trace c) \<and>
      written_bytes fd (trace c') = written_bytes fd (trace c) @
        (if good_count w n then take (unat w) bytes else [])" for c bytes n w c'
    by (auto simp: store_write_def event_received_def event_written_def word_le_nat_alt min_def
        syscall_trace syscall_ftpD split: prod.splits if_splits)
qed

section \<open>Steps that move no bytes\<close>

definition silent :: "'w ftp \<Rightarrow> 'w ftp \<Rightarrow> bool" where
  "silent t u \<longleftrightarrow> (\<exists>tr. trace u = trace t @ tr \<and> (\<forall>e \<in> set tr. \<not> moves_bytes (fst e)))"

lemma silent_refl [simp]: "silent t t"
  by (simp add: silent_def)

lemma silent_trans [trans]: "silent s t \<Longrightarrow> silent t u \<Longrightarrow> silent s u"
  by (fastforce simp: silent_def)

lemma silent_syscall: "syscall E c t = (r, u) \<Longrightarrow> \<not> moves_bytes c \<Longrightarrow> silent t u"
  by (auto simp: silent_def dest: syscall_trace)

lemma silent_exec: "\<not> moves_bytes c \<Longrightarrow> silent t (exec E c t)"
  by (auto simp: silent_def)

lemma silent_bytes:
  assumes "silent t u"
  shows "read_bytes fd (trace u) = read_bytes fd (trace t)" "written_bytes fd (trace u) = written_bytes fd (trace t)"
    "sent_bytes fd (trace u) = sent_bytes fd (trace t)" "received_bytes fd (trace u) = received_bytes fd (trace t)"
proof -
  obtain tr where tr: "trace u = trace t @ tr" "\<forall>e \<in> set tr. \<not> moves_bytes (fst e)"
    using assms by (auto simp: silent_def)
  from tr(2) have "read_bytes fd tr = [] \<and> written_bytes fd tr = [] \<and> sent_bytes fd tr = [] \<and> received_bytes fd tr = []"
    by (induction tr) auto
  with tr(1) show "read_bytes fd (trace u) = read_bytes fd (trace t)"
    "written_bytes fd (trace u) = written_bytes fd (trace t)"
    "sent_bytes fd (trace u) = sent_bytes fd (trace t)" "received_bytes fd (trace u) = received_bytes fd (trace t)"
    by simp_all
qed

lemma moves_bytes_simps [simp]:
  "\<not> moves_bytes (Net (sceNetSocketClose fd))" "\<not> moves_bytes (Net (sceNetConnect fd a))"
  "\<not> moves_bytes (Net (sceNetAccept fd))" "\<not> moves_bytes (Net (sceNetSetsockopt fd opt v))"
  "\<not> moves_bytes (Io (sceIoOpen p m))" "\<not> moves_bytes (Io (sceIoClose fd))" "\<not> moves_bytes (Io (sceIoLseek fd pos w))"
  "\<not> moves_bytes (Kernel k)"
  by (simp_all add: moves_bytes_def)

lemma silent_close_socket: "close_socket E fd t = (fd', u) \<Longrightarrow> silent t u"
  by (auto simp: close_socket_def intro: silent_exec split: if_splits)

lemma silent_close: "silent t (client_close_data_connection E t)"
proof -
  obtain fd u where 1: "close_socket E (data_sockfd (cl t)) t = (fd, u)" by fastforce
  let ?u = "set_cl (\<lambda>c. c\<lparr>data_sockfd := fd\<rparr>) u"
  obtain fd' v where 2: "close_socket E (pasv_sockfd (cl ?u)) ?u = (fd', v)" by fastforce
  have "silent t u" "silent ?u v" using 1 2 by (auto dest: silent_close_socket)
  with 1 2 show ?thesis by (auto simp: client_close_data_connection_def silent_def)
qed

lemma silent_configure: "configure_socket_io_timeout E fd t = (r, u) \<Longrightarrow> silent t u"
  by (auto simp: configure_socket_io_timeout_def silent_def Let_def split: prod.splits if_splits dest!: syscall_trace)

lemma silent_open: "client_open_data_connection E t = (r, u) \<Longrightarrow> silent t u"
proof -
  have upd: "silent (s\<lparr>cl := c\<rparr>) v \<Longrightarrow> silent s v" for s v :: "'a ftp" and c by (simp add: silent_def)
  assume "client_open_data_connection E t = (r, u)"
  then show ?thesis
    by (auto simp: client_open_data_connection_def Let_def split: prod.splits if_splits
        dest!: silent_syscall silent_configure upd intro: silent_trans)
qed

lemma silent_retr_position: "retr_position E fd rp ex t = (p, u) \<Longrightarrow> silent t u"
  by (auto simp: retr_position_def Let_def split: prod.splits if_splits dest!: silent_syscall)

section \<open>The control flow of a download\<close>

lemma trace_ctrl: "\<exists>r. trace (client_send_ctrl_msg E m t) = trace t @ [(Net (sceNetSend (ctrl_sockfd (cl t)) m), r)]"
  by (simp add: client_send_ctrl_msg_def)

definition extends :: "'w ftp \<Rightarrow> 'w ftp \<Rightarrow> bool" where
  "extends s t \<longleftrightarrow> (\<exists>tr. trace t = trace s @ tr)"

lemma extends_trans: "extends s t \<Longrightarrow> extends t u \<Longrightarrow> extends s u"
  by (auto simp: extends_def)

lemma silent_extends: "silent t u \<Longrightarrow> extends t u"
  by (auto simp: silent_def extends_def)

lemma extends_close [simp]: "extends s t \<Longrightarrow> extends s (client_close_data_connection E t)"
  using extends_trans silent_extends silent_close by blast

lemma extends_steps [simp]:
  "extends s s" "extends s t \<Longrightarrow> extends s (exec E c t)"
  "extends s t \<Longrightarrow> extends s (client_send_ctrl_msg E m t)" "extends (s\<lparr>cl := c'\<rparr>) t \<longleftrightarrow> extends s t"
  "extends (s\<lparr>transfer_active := i\<rparr>) t \<longleftrightarrow> extends s t" "extends s (t\<lparr>cl := c'\<rparr>) \<longleftrightarrow> extends s t"
  by (auto simp: extends_def client_send_ctrl_msg_def)

lemma extends_syscall: "syscall E c t = (r, u) \<Longrightarrow> extends t u"
  by (auto simp: extends_def dest: syscall_trace)

text \<open>
  A download either ends early, with a reply that does not begin with a 2, or runs the loop; the
  states between the calls are named in the order of the calls.
\<close>

definition retr_run :: "'w env \<Rightarrow> path \<Rightarrow> 'w ftp \<Rightarrow> i32 \<Rightarrow> i64 \<Rightarrow> ftpvita_retr_result \<Rightarrow> 'w ftp \<Rightarrow> 'w ftp \<Rightarrow> bool" where
  "retr_run E path s fd extent result t u \<longleftrightarrow>
     (\<exists>f s2 e s3 position s4 m s5 opened.
        syscall E (Io (sceIoOpen path [SCE_O_RDONLY])) (s\<lparr>cl := (cl s)\<lparr>restore_point := 0\<rparr>, transfer_active := 1\<rparr>) = (f, s2) \<and>
        fd = rc f \<and> \<not> neg fd \<and> syscall E (Io (sceIoLseek fd 0 SCE_SEEK_END)) s2 = (e, s3) \<and> extent = off e \<and>
        retr_position E fd (restore_point (cl s)) extent s3 = (position, s4) \<and>
        int (unat (restore_point (cl s))) \<le> sint extent \<and>
        syscall E (Kernel (malloc (file_buf_size s4))) s4 = (m, s5) \<and> rc m \<noteq> 0 \<and>
        client_open_data_connection E s5 = (opened, t) \<and> \<not> neg opened \<and>
        ftpvita_retr_extent (Some (retr_read E \<lparr>retr_fd = fd, retr_sockfd = data_fd (cl t)\<rparr>))
          (Some (retr_send E \<lparr>retr_fd = fd, retr_sockfd = data_fd (cl t)\<rparr>))
          (Some (map (mem m) [0 ..< unat (file_buf_size s5)])) (file_buf_size t)
          (ucast (restore_point (cl s))) extent
          (client_send_ctrl_msg E (''150 Opening Image mode data transfer.'' @ EOL) t) = (result, u) \<and>
        send_file E path s =
          client_end_transfer (client_send_ctrl_msg E (retr_reply result (restore_point (cl s)) extent)
            (client_close_data_connection E (exec E (Kernel (free (rc m))) (exec E (Io (sceIoClose fd)) u)))))"

lemma send_file_cases:
  "(\<exists>msg t. send_file E path s = client_end_transfer (client_send_ctrl_msg E msg t) \<and> hd msg \<noteq> CHR ''2'' \<and> extends s t) \<or>
   (\<exists>msg t. send_file E path s = client_send_ctrl_msg E msg t \<and> hd msg \<noteq> CHR ''2'' \<and> extends s t) \<or>
   (\<exists>fd extent result t u. retr_run E path s fd extent result t u)"
proof (cases "reboot_quiesce_requested s \<noteq> 0 \<or> transfer_active s \<noteq> 0")
  case True
  then have "\<exists>msg t. send_file E path s = client_send_ctrl_msg E msg t \<and> hd msg \<noteq> CHR ''2'' \<and> extends s t"
    by (simp add: send_file_def client_begin_transfer_eq) (intro exI conjI, rule refl, simp_all)
  then show ?thesis by blast
next
  case False
  let ?s = "s\<lparr>cl := (cl s)\<lparr>restore_point := 0\<rparr>, transfer_active := 1\<rparr>" and ?rp = "restore_point (cl s)"
  obtain f s2 where 1: "syscall E (Io (sceIoOpen path [SCE_O_RDONLY])) ?s = (f, s2)" by fastforce
  obtain e s3 where 2: "syscall E (Io (sceIoLseek (rc f) 0 SCE_SEEK_END)) s2 = (e, s3)" by fastforce
  obtain position s4 where 3: "retr_position E (rc f) ?rp (off e) s3 = (position, s4)" by fastforce
  obtain m s5 where 4: "syscall E (Kernel (malloc (file_buf_size s4))) s4 = (m, s5)" by fastforce
  obtain opened t where 5: "client_open_data_connection E s5 = (opened, t)" by fastforce
  obtain result u where 6: "ftpvita_retr_extent (Some (retr_read E \<lparr>retr_fd = rc f, retr_sockfd = data_fd (cl t)\<rparr>))
      (Some (retr_send E \<lparr>retr_fd = rc f, retr_sockfd = data_fd (cl t)\<rparr>))
      (Some (map (mem m) [0 ..< unat (file_buf_size s5)])) (file_buf_size t) (ucast ?rp) (off e)
      (client_send_ctrl_msg E (''150 Opening Image mode data transfer.'' @ EOL) t) = (result, u)" by fastforce
  note run = False 1 2 3 4 5 6
  have ext: "extends s s2" "extends s s3" "extends s s4" "extends s t"
    using extends_syscall [OF 1] extends_syscall [OF 2] silent_extends [OF silent_retr_position [OF 3]]
      extends_syscall [OF 4] silent_extends [OF silent_open [OF 5]] by (simp_all, (blast intro: extends_trans)+)
  then have "extends s s5" using extends_syscall [OF 4] extends_trans by blast
  note ext = ext this
  let ?early = "\<exists>msg t. send_file E path s = client_end_transfer (client_send_ctrl_msg E msg t) \<and>
    hd msg \<noteq> CHR ''2'' \<and> extends s t"
  let ?seek = "neg (off e) \<or> sint (off e) < int (unat ?rp) \<or> sint position \<noteq> int (unat ?rp)"
  note body = send_file_def client_begin_transfer_eq Let_def
  consider "neg (rc f)" | "\<not> neg (rc f)" ?seek | "\<not> neg (rc f)" "\<not> ?seek" "rc m = 0"
    | "\<not> neg (rc f)" "\<not> ?seek" "rc m \<noteq> 0" "neg opened" | "\<not> neg (rc f)" "\<not> ?seek" "rc m \<noteq> 0" "\<not> neg opened" by blast
  then show ?thesis
  proof cases
    case 1
    then have ?early using run by (simp add: body) (intro exI conjI, rule refl, simp_all add: ext)
    then show ?thesis ..
  next
    case 2
    then have ?early using run by (simp add: body) (intro exI conjI, rule refl, simp_all add: ext seek_reply_def snprintf_def)
    then show ?thesis ..
  next
    case 3
    then have ?early using run by (simp add: body) (intro exI conjI, rule refl, simp_all add: ext)
    then show ?thesis ..
  next
    case 4
    then have ?early using run by (simp add: body) (intro exI conjI, rule refl, simp_all add: ext)
    then show ?thesis ..
  next
    case 5
    then have "retr_run E path s (rc f) (off e) result t u"
      unfolding retr_run_def using run
      by (intro exI [of _ f] exI [of _ s2] exI [of _ e] exI [of _ s3] exI [of _ position] exI [of _ s4] exI [of _ m]
          exI [of _ s5] exI [of _ opened]) (simp add: body)
    then show ?thesis by blast
  qed
qed

lemma ctrl_event_bytes:
  "read_bytes fd (trace (client_send_ctrl_msg E m t)) = read_bytes fd (trace t)"
  "fd \<noteq> ctrl_sockfd (cl t) \<Longrightarrow> sent_bytes fd (trace (client_send_ctrl_msg E m t)) = sent_bytes fd (trace t)"
  "written_bytes fd (trace (client_send_ctrl_msg E m t)) = written_bytes fd (trace t)"
  "received_bytes fd (trace (client_send_ctrl_msg E m t)) = received_bytes fd (trace t)"
  by (simp_all add: client_send_ctrl_msg_def event_read_def event_sent_def event_written_def event_received_def)

text \<open>The data socket of a command: the one PORT announced, or the one accepted on PASV's listener.\<close>

definition data_socket :: "ftpvita_client_info \<Rightarrow> event list \<Rightarrow> i32 \<Rightarrow> bool" where
  "data_socket c tr sock \<longleftrightarrow> data_con_type c = FTP_DATA_CONNECTION_ACTIVE \<and> sock = data_sockfd c \<or>
     (\<exists>q. (Net (sceNetAccept (data_sockfd c)), q) \<in> set tr \<and> sock = rc q)"

lemma open_data_socket:
  assumes "client_open_data_connection E t = (r, u)" and "\<not> neg r"
  shows "\<exists>tr. trace u = trace t @ tr \<and> data_socket (cl t) tr (data_fd (cl u))"
proof (cases "data_con_type (cl t) = FTP_DATA_CONNECTION_ACTIVE")
  case True
  then show ?thesis
    using silent_open [OF assms(1)] client_open_data_connectionD [OF assms(1)]
    by (auto simp: silent_def data_socket_def data_fd_def)
next
  case False
  obtain q v where acc: "syscall E (Net (sceNetAccept (data_sockfd (cl t)))) t = (q, v)" by fastforce
  let ?v = "set_cl (\<lambda>c. c\<lparr>pasv_sockfd := rc q, pasv_sockaddr := sockaddr q\<rparr>) v"
  obtain x where conf: "configure_socket_io_timeout E (pasv_sockfd (cl ?v)) ?v = (x, u)"
    using assms False acc by (auto simp: client_open_data_connection_def split: prod.splits if_splits)
  have "cl u = cl ?v" using quietD [OF configure_quiet [OF conf]] by simp
  moreover obtain tr where "trace u = trace v @ tr" using silent_configure [OF conf] by (auto simp: silent_def)
  ultimately show ?thesis
    using syscall_trace [OF acc] syscall_ftpD [OF acc] False
    by (intro exI [of _ "(Net (sceNetAccept (data_sockfd (cl t))), q) # tr"]) (auto simp: data_socket_def data_fd_def)
qed

lemma data_socket_mono: "data_socket c tr sock \<Longrightarrow> set tr \<subseteq> set tr' \<Longrightarrow> data_socket c tr' sock"
  by (auto simp: data_socket_def)

lemma data_socket_restore [simp]: "data_socket (c\<lparr>restore_point := n\<rparr>) = data_socket c"
  by (simp add: data_socket_def fun_eq_iff)

text \<open>The contract of the loop on the callbacks of a download, started after the 150 reply.\<close>

lemma retr_loop_bytes:
  assumes loop: "ftpvita_retr_extent (Some (retr_read E \<lparr>retr_fd = fd, retr_sockfd = data_fd (cl t)\<rparr>))
          (Some (retr_send E \<lparr>retr_fd = fd, retr_sockfd = data_fd (cl t)\<rparr>)) (Some buf) n (ucast rp) extent
          (client_send_ctrl_msg E msg t) = (result, u)"
    and buf: "unat n \<le> length buf" and le: "int (unat (rp :: u32)) \<le> sint extent"
  obtains T where "read_bytes fd (trace u) = read_bytes fd (trace t) @ T"
      "data_fd (cl t) \<noteq> ctrl_sockfd (cl t) \<Longrightarrow>
        sent_bytes (data_fd (cl t)) (trace u) = sent_bytes (data_fd (cl t)) (trace t) @ take (unat (retr_bytes_sent result)) T"
      "unat (retr_bytes_read result) = length T" "unat (retr_bytes_sent result) \<le> length T"
      "length T \<le> unat extent - unat rp"
      "retr_stage result = ''complete'' \<longleftrightarrow> n \<noteq> 0 \<and> n \<le> INT_MAX \<and> unat (retr_bytes_sent result) = unat extent - unat rp"
proof (rule retr.extent_outcome [OF loop buf])
  have "0 \<le> sint extent" using le by linarith
  then have "sint extent = int (unat extent)" by (rule sint_nonneg)
  with le have "unat rp \<le> unat extent" by (simp only: of_nat_le_iff)
  then have rp: "unat (ucast rp :: u64) = unat rp" "(ucast rp :: u64) \<le> extent"
    by (simp_all add: unat_ucast_up word_le_nat_alt)
  fix T
  assume "read_bytes (retr_fd \<lparr>retr_fd = fd, retr_sockfd = data_fd (cl t)\<rparr>) (trace u) =
      read_bytes (retr_fd \<lparr>retr_fd = fd, retr_sockfd = data_fd (cl t)\<rparr>) (trace (client_send_ctrl_msg E msg t)) @ T"
    and "sent_bytes (retr_sockfd \<lparr>retr_fd = fd, retr_sockfd = data_fd (cl t)\<rparr>) (trace u) =
      sent_bytes (retr_sockfd \<lparr>retr_fd = fd, retr_sockfd = data_fd (cl t)\<rparr>)
        (trace (client_send_ctrl_msg E msg t)) @ take (unat (retr_bytes_sent result)) T"
    and "unat (retr_bytes_read result) = length T" "unat (retr_bytes_sent result) \<le> length T"
    and "length T \<le> unat extent - unat (ucast rp :: u64)"
    and "retr_stage result = ''complete'' \<longleftrightarrow> n \<noteq> 0 \<and> n \<le> INT_MAX \<and>
      ucast rp \<le> extent \<and> unat (retr_bytes_sent result) = unat extent - unat (ucast rp :: u64)"
  then show thesis
    by (intro that [of T]) (simp_all add: ctrl_event_bytes rp)
qed

text \<open>The bytes of a download that reached its loop, up to the point where the reply is sent.\<close>

lemma retr_run_bytes:
  assumes "retr_run E path s fd extent result t u"
  obtains f e v T tr where
    "send_file E path s = client_end_transfer (client_send_ctrl_msg E (retr_reply result (restore_point (cl s)) extent) v)"
    and "trace v = trace s @ (Io (sceIoOpen path [SCE_O_RDONLY]), f) # (Io (sceIoLseek (rc f) 0 SCE_SEEK_END), e) # tr"
    and "fd = rc f" "\<not> neg fd" "extent = off e" "int (unat (restore_point (cl s))) \<le> sint extent"
    and "data_socket (cl s) tr (data_fd (cl t))" "ctrl_sockfd (cl t) = ctrl_sockfd (cl s)"
    and "read_bytes fd (trace v) = read_bytes fd (trace s) @ T"
    and "data_fd (cl t) \<noteq> ctrl_sockfd (cl t) \<Longrightarrow> sent_bytes (data_fd (cl t)) (trace v)
        = sent_bytes (data_fd (cl t)) (trace s) @ take (unat (retr_bytes_sent result)) T"
    and "unat (retr_bytes_read result) = length T" "unat (retr_bytes_sent result) \<le> length T"
    and "length T \<le> unat extent - unat (restore_point (cl s))"
    and "retr_stage result = ''complete'' \<longleftrightarrow> file_buf_size s \<noteq> 0 \<and> file_buf_size s \<le> INT_MAX \<and>
      unat (retr_bytes_sent result) = unat extent - unat (restore_point (cl s))"
proof -
  let ?rp = "restore_point (cl s)"
  let ?s1 = "s\<lparr>cl := (cl s)\<lparr>restore_point := 0\<rparr>, transfer_active := 1\<rparr>"
  obtain f s2 e s3 position s4 m s5 opened where
    c: "syscall E (Io (sceIoOpen path [SCE_O_RDONLY])) ?s1 = (f, s2)"
      "syscall E (Io (sceIoLseek fd 0 SCE_SEEK_END)) s2 = (e, s3)"
      "retr_position E fd ?rp extent s3 = (position, s4)"
      "syscall E (Kernel (malloc (file_buf_size s4))) s4 = (m, s5)" "client_open_data_connection E s5 = (opened, t)"
    and opened: "\<not> neg opened" and le: "int (unat ?rp) \<le> sint extent" and fd: "fd = rc f" "\<not> neg fd" "extent = off e"
    and loop: "ftpvita_retr_extent (Some (retr_read E \<lparr>retr_fd = fd, retr_sockfd = data_fd (cl t)\<rparr>))
          (Some (retr_send E \<lparr>retr_fd = fd, retr_sockfd = data_fd (cl t)\<rparr>))
          (Some (map (mem m) [0 ..< unat (file_buf_size s5)])) (file_buf_size t) (ucast ?rp) extent
          (client_send_ctrl_msg E (''150 Opening Image mode data transfer.'' @ EOL) t) = (result, u)"
    and final: "send_file E path s = client_end_transfer (client_send_ctrl_msg E (retr_reply result ?rp extent)
            (client_close_data_connection E (exec E (Kernel (free (rc m))) (exec E (Io (sceIoClose fd)) u))))"
    using assms unfolding retr_run_def by blast
  have "silent ?s1 s2" "silent s2 s3" "silent s3 s4" "silent s4 s5" "silent s5 t"
    using silent_syscall [OF c(1)] silent_syscall [OF c(2)] silent_retr_position [OF c(3)] silent_syscall [OF c(4)]
      silent_open [OF c(5)] by simp_all
  then have "silent ?s1 t" by (meson silent_trans)
  then have before: "read_bytes fd' (trace t) = read_bytes fd' (trace s)"
    "sent_bytes fd' (trace t) = sent_bytes fd' (trace s)" for fd'
    using silent_bytes [of ?s1 t] by simp_all
  let ?v = "client_close_data_connection E (exec E (Kernel (free (rc m))) (exec E (Io (sceIoClose fd)) u))"
  have after: "silent u ?v"
    by (rule silent_trans [OF silent_trans [OF silent_exec silent_exec] silent_close]) simp_all
  have size: "file_buf_size t = file_buf_size s" "file_buf_size s5 = file_buf_size s"
    using c by (auto dest!: syscall_ftpD client_open_data_connectionD retr_position_quiet quietD)
  have buf: "unat (file_buf_size t) \<le> length (map (mem m) [0 ..< unat (file_buf_size s5)])" by (simp add: size)
  from retr_loop_bytes [OF loop buf le] obtain T where T: "read_bytes fd (trace u) = read_bytes fd (trace s) @ T"
      "data_fd (cl t) \<noteq> ctrl_sockfd (cl t) \<Longrightarrow>
        sent_bytes (data_fd (cl t)) (trace u) = sent_bytes (data_fd (cl t)) (trace s) @ take (unat (retr_bytes_sent result)) T"
      "unat (retr_bytes_read result) = length T" "unat (retr_bytes_sent result) \<le> length T"
      "length T \<le> unat extent - unat ?rp"
      "retr_stage result = ''complete'' \<longleftrightarrow> file_buf_size s \<noteq> 0 \<and> file_buf_size s \<le> INT_MAX \<and>
        unat (retr_bytes_sent result) = unat extent - unat ?rp"
    by (auto simp: before size)
  have cls: "cl s5 = (cl s)\<lparr>restore_point := 0\<rparr>" "ctrl_sockfd (cl t) = ctrl_sockfd (cl s)"
    using c by (auto dest!: syscall_ftpD client_open_data_connectionD retr_position_quiet quietD)
  have "conserves s3 s4" "conserves (client_send_ctrl_msg E (''150 Opening Image mode data transfer.'' @ EOL) t) u"
    using retr_position_quiet [OF c(3)] retr_extent_quiet [OF loop] by (simp_all add: quiet_def)
  then obtain tr1 tr3 where tr13: "trace s4 = trace s3 @ tr1"
      "trace u = trace (client_send_ctrl_msg E (''150 Opening Image mode data transfer.'' @ EOL) t) @ tr3"
    by (auto simp: owes_def)
  obtain tr2 where tr2: "trace t = trace s5 @ tr2" "data_socket (cl s) tr2 (data_fd (cl t))"
    using open_data_socket [OF c(5) opened] by (auto simp: cls(1))
  obtain tr5 where tr5: "trace ?v = trace u @ tr5" using after by (auto simp: silent_def)
  obtain q where q: "trace (client_send_ctrl_msg E (''150 Opening Image mode data transfer.'' @ EOL) t) = trace t @ [q]"
    by (simp add: client_send_ctrl_msg_def)
  let ?tr = "tr1 @ (Kernel (malloc (file_buf_size s4)), m) # tr2 @ q # tr3 @ tr5"
  have tr: "trace ?v = trace s @ (Io (sceIoOpen path [SCE_O_RDONLY]), f) # (Io (sceIoLseek (rc f) 0 SCE_SEEK_END), e) # ?tr"
    using syscall_trace [OF c(1)] syscall_trace [OF c(2)] syscall_trace [OF c(4)] tr13 tr2(1) tr5 q fd(1) by simp
  have sock: "data_socket (cl s) ?tr (data_fd (cl t))" using tr2(2) by (rule data_socket_mono) auto
  have "read_bytes fd (trace ?v) = read_bytes fd (trace s) @ T"
    by (simp only: silent_bytes [OF after] T(1))
  moreover have "data_fd (cl t) \<noteq> ctrl_sockfd (cl t) \<Longrightarrow> sent_bytes (data_fd (cl t)) (trace ?v)
        = sent_bytes (data_fd (cl t)) (trace s) @ take (unat (retr_bytes_sent result)) T"
    by (simp only: silent_bytes [OF after]) (rule T(2))
  ultimately show thesis using that [OF final tr fd le sock cls(2) _ _ T(3-6)] by blast
qed

text \<open>C14: every RETR tells the truth. The last thing a RETR does is to answer on the control
  connection. Either the answer is a refusal; or the named file was opened for reading, its extent was
  measured on the descriptor, and with \<open>T\<close> the bytes read from that descriptor during the command:
  what went over the data socket is a prefix of \<open>T\<close>, the counters of the answer are the true numbers
  of bytes read and sent, nothing beyond the extent was read, and the answer is the 226 one if and only
  if all bytes from the restart offset to the extent were delivered.\<close>

theorem retr_answer_is_accurate:
  assumes "client_ok E (cl s)" and "file_buf_size s \<noteq> 0" and "file_buf_size s \<le> INT_MAX"
  shows "\<exists>tr msg r. trace (cmd_RETR_func E s) = trace s @ tr @ [(Net (sceNetSend (ctrl_sockfd (cl s)) msg), r)] \<and>
    (hd msg \<noteq> CHR ''2'' \<or>
     (\<exists>f e tr' sock result T.
        tr = (Io (sceIoOpen (get_vita_path (gen_ftp_fullpath E (cl s) (PATH_MAX E))) [SCE_O_RDONLY]), f) #
             (Io (sceIoLseek (rc f) 0 SCE_SEEK_END), e) # tr' \<and> \<not> neg (rc f) \<and>
        data_socket (cl s) tr' sock \<and> msg = retr_reply result (restore_point (cl s)) (off e) \<and>
        read_bytes (rc f) tr = T \<and>
        (sock \<noteq> ctrl_sockfd (cl s) \<longrightarrow> sent_bytes sock tr = take (unat (retr_bytes_sent result)) T) \<and>
        unat (retr_bytes_read result) = length T \<and> unat (retr_bytes_sent result) \<le> length T \<and>
        length T \<le> unat (off e) - unat (restore_point (cl s)) \<and>
        (msg = ''226 Transfer completed.'' @ EOL \<longleftrightarrow>
           unat (retr_bytes_sent result) = unat (off e) - unat (restore_point (cl s)))))"
proof -
  let ?p = "get_vita_path (gen_ftp_fullpath E (cl s) (PATH_MAX E))"
  have ends: "ends s (command_post E s) (send_file E ?p s)" using assms(1) by (rule send_file_ends)
  consider msg t where "trace (send_file E ?p s) = trace (client_send_ctrl_msg E msg t)"
      "cl (send_file E ?p s) = cl t" "hd msg \<noteq> CHR ''2''" "extends s t"
    | fd extent result t u where "retr_run E ?p s fd extent result t u"
    using send_file_cases [of E ?p s] by (auto simp: client_end_transfer_def)
  then show ?thesis
  proof cases
    case 1
    then have "ctrl_sockfd (cl t) = ctrl_sockfd (cl s)"
      using ends by (simp add: ends_def owes_def same_server_def ident_def)
    with 1 trace_ctrl [of E msg t] show ?thesis by (auto simp: cmd_RETR_func_def extends_def)
  next
    case (2 fd extent result t u)
    then obtain f e v T tr where v: "send_file E ?p s =
          client_end_transfer (client_send_ctrl_msg E (retr_reply result (restore_point (cl s)) extent) v)"
      "trace v = trace s @ (Io (sceIoOpen ?p [SCE_O_RDONLY]), f) # (Io (sceIoLseek (rc f) 0 SCE_SEEK_END), e) # tr"
      and fd: "fd = rc f" "\<not> neg fd" "extent = off e" and sock: "data_socket (cl s) tr (data_fd (cl t))"
      and T: "read_bytes fd (trace v) = read_bytes fd (trace s) @ T" "ctrl_sockfd (cl t) = ctrl_sockfd (cl s)"
        "data_fd (cl t) \<noteq> ctrl_sockfd (cl t) \<Longrightarrow> sent_bytes (data_fd (cl t)) (trace v)
          = sent_bytes (data_fd (cl t)) (trace s) @ take (unat (retr_bytes_sent result)) T"
        "unat (retr_bytes_read result) = length T" "unat (retr_bytes_sent result) \<le> length T"
        "length T \<le> unat extent - unat (restore_point (cl s))"
        "retr_stage result = ''complete'' \<longleftrightarrow> unat (retr_bytes_sent result) = unat extent - unat (restore_point (cl s))"
      using assms(2,3) by (elim retr_run_bytes) auto
    have "ctrl_sockfd (cl v) = ctrl_sockfd (cl s)"
      using ends v(1) by (simp add: ends_def owes_def same_server_def ident_def)
    moreover have "retr_reply result rp ex = ''226 Transfer completed.'' @ EOL \<longleftrightarrow> retr_stage result = ''complete''" for rp ex
      by (auto simp: retr_reply_def snprintf_def)
    ultimately show ?thesis
      using trace_ctrl [of E "retr_reply result (restore_point (cl s)) extent" v] v fd sock T
      by (fastforce simp: cmd_RETR_func_def client_end_transfer_def)
  qed
qed

text \<open>A client whose PORT command announced a data socket, and a download of a three-byte file.\<close>

definition port_client :: "string \<Rightarrow> ftpvita_client_info" where
  "port_client a = idle_client\<lparr>data_sockfd := 9, data_con_type := FTP_DATA_CONNECTION_ACTIVE, recv_cmd_args := Some a\<rparr>"

lemma port_client_ok: "client_ok script_env (port_client a)"
  by (simp add: client_ok_def client_idle_def cwd_ok_def port_client_def idle_client_def)

definition retr_session :: "ret list ftp" where
  "retr_session = script_ftp [answer 5, answer_off 3, answer_off 0, answer 64, answer 0, answer 40, answer_text ''abc'', answer 3,
     answer 0, answer 0, answer 0, answer 25] (port_client ''ux0:/f'')"

theorem retr_answer_is_accurate_witness:
  "\<exists>tr msg r. trace (cmd_RETR_func script_env retr_session) = tr @ [(Net (sceNetSend 7 msg), r)]"
  using retr_answer_is_accurate [of script_env retr_session] port_client_ok
  by (auto simp: retr_session_def port_client_def idle_client_def)

section \<open>Uploads\<close>

definition store_mode :: "u32 \<Rightarrow> open_flag list" where
  "store_mode restore = [SCE_O_CREAT, SCE_O_RDWR] @ (if restore \<noteq> 0 then [SCE_O_APPEND] else [SCE_O_TRUNC])"

text \<open>An upload that reaches its loop; the states are those after opening the data connection and after the loop.\<close>

definition store_run :: "'w env \<Rightarrow> path \<Rightarrow> 'w ftp \<Rightarrow> ret \<Rightarrow> ftpvita_store_result \<Rightarrow> 'w ftp \<Rightarrow> 'w ftp \<Rightarrow> bool" where
  "store_run E path s f result t u \<longleftrightarrow>
     (\<exists>s2 m s3 opened.
        syscall E (Io (sceIoOpen path (store_mode (restore_point (cl s))))) (s\<lparr>transfer_active := 1\<rparr>) = (f, s2) \<and>
        \<not> neg (rc f) \<and> syscall E (Kernel (malloc (file_buf_size s2))) s2 = (m, s3) \<and> rc m \<noteq> 0 \<and>
        client_open_data_connection E s3 = (opened, t) \<and> \<not> neg opened \<and>
        ftpvita_store_stream (Some (store_receive E)) (Some (store_write E (rc f)))
          (Some (map (mem m) [0 ..< unat (file_buf_size s3)])) (file_buf_size t)
          (client_send_ctrl_msg E (''150 Opening Image mode data transfer.'' @ EOL) t) = Some (result, u) \<and>
        receive_file E path s = Some (client_end_transfer (client_close_data_connection E
          (client_send_ctrl_msg E (store_reply result) (set_cl (\<lambda>c. c\<lparr>restore_point := 0\<rparr>)
            (exec E (Kernel (free (rc m))) (exec E (Io (sceIoClose (rc f))) u)))))))"

lemmas written_steps = silent_bytes(2) [OF silent_close] ctrl_event_bytes(3)

lemma receive_file_cases:
  "(\<exists>t. receive_file E path s = Some t \<and> restore_point (cl t) = restore_point (cl s) \<and>
      (\<forall>fd. written_bytes fd (trace t) = written_bytes fd (trace s))) \<or> receive_file E path s = None \<or>
   (\<exists>f result t u. store_run E path s f result t u)"
proof (cases "reboot_quiesce_requested s \<noteq> 0 \<or> transfer_active s \<noteq> 0")
  case True
  then show ?thesis by (simp add: receive_file_def client_begin_transfer_eq written_steps)
next
  case False
  obtain f s2 where 1: "syscall E (Io (sceIoOpen path (store_mode (restore_point (cl s))))) (s\<lparr>transfer_active := 1\<rparr>) = (f, s2)"
    by fastforce
  obtain m s3 where 2: "syscall E (Kernel (malloc (file_buf_size s2))) s2 = (m, s3)" by fastforce
  obtain opened t where 3: "client_open_data_connection E s3 = (opened, t)" by fastforce
  note run = False 1 [unfolded store_mode_def] 2 3
  note body = receive_file_def client_begin_transfer_eq Let_def
  have rp: "restore_point (cl s2) = restore_point (cl s)" "restore_point (cl s3) = restore_point (cl s)"
    "restore_point (cl t) = restore_point (cl s)"
    using syscall_ftpD [OF 1] syscall_ftpD [OF 2] client_open_data_connectionD [OF 3] by simp_all
  have wr: "written_bytes fd (trace s2) = written_bytes fd (trace s)" "written_bytes fd (trace s3) = written_bytes fd (trace s)"
    "written_bytes fd (trace t) = written_bytes fd (trace s)" for fd
    using silent_bytes(2) [OF silent_syscall [OF 1]] silent_bytes(2) [OF silent_syscall [OF 2]]
      silent_bytes(2) [OF silent_open [OF 3]] by simp_all
  show ?thesis
  proof (cases "neg (rc f) \<or> rc m = 0 \<or> neg opened")
    case True
    then show ?thesis using run rp by (auto simp: body client_end_transfer_def written_steps wr)
  next
    case no: False
    show ?thesis
    proof (cases "ftpvita_store_stream (Some (store_receive E)) (Some (store_write E (rc f)))
        (Some (map (mem m) [0 ..< unat (file_buf_size s3)])) (file_buf_size t)
        (client_send_ctrl_msg E (''150 Opening Image mode data transfer.'' @ EOL) t)")
      case None
      with no run show ?thesis by (simp add: body)
    next
      case (Some y)
      obtain result u where y: "y = (result, u)" by fastforce
      then have "store_run E path s f result t u"
        unfolding store_run_def using no run Some 1
        by (intro exI [of _ s2] exI [of _ m] exI [of _ s3] exI [of _ opened]) (simp add: body)
      then show ?thesis by blast
    qed
  qed
qed

text \<open>The contract of the loop on the callbacks of an upload.\<close>

lemma store_loop_bytes:
  assumes loop: "ftpvita_store_stream (Some (store_receive E)) (Some (store_write E fd)) (Some buf) n
      (client_send_ctrl_msg E msg t) = Some (result, u)" and buf: "unat n \<le> length buf"
  obtains T k where "received_bytes (data_fd (cl t)) (trace u) = received_bytes (data_fd (cl t)) (trace t) @ T"
    "written_bytes fd (trace u) = written_bytes fd (trace t) @ take k T" "k \<le> length T"
    "store_bytes_received result = word_of_nat (length T)" "store_bytes_written result = word_of_nat k"
    "store_stage result \<noteq> ''write'' \<Longrightarrow> k = length T"
proof -
  have cl: "cl u = cl t" using quietD [OF store_stream_quiet [OF loop]] by simp
  show thesis
    using store.stream_outcome [OF loop buf] that by (auto simp: cl ctrl_event_bytes)
qed

text \<open>What an upload does after its loop: close, free, answer, and close the data connection.\<close>

lemma upload_epilogue:
  "\<exists>c d r tr'. trace (client_close_data_connection E (client_send_ctrl_msg E msg (set_cl (\<lambda>c. c\<lparr>restore_point := 0\<rparr>)
      (exec E (Kernel (free p)) (exec E (Io (sceIoClose fd)) u)))))
      = trace u @ (Io (sceIoClose fd), c) # (Kernel (free p), d) # (Net (sceNetSend (ctrl_sockfd (cl u)) msg), r) # tr' \<and>
    (\<forall>e \<in> set tr'. \<not> moves_bytes (fst e))"
proof -
  let ?w = "client_send_ctrl_msg E msg (set_cl (\<lambda>c. c\<lparr>restore_point := 0\<rparr>)
      (exec E (Kernel (free p)) (exec E (Io (sceIoClose fd)) u)))"
  obtain tr' where "trace (client_close_data_connection E ?w) = trace ?w @ tr'" "\<forall>e \<in> set tr'. \<not> moves_bytes (fst e)"
    using silent_close [of ?w E] by (auto simp: silent_def)
  then show ?thesis by (simp add: client_send_ctrl_msg_def)
qed

text \<open>What the 150 reply and the loop add to the trace.\<close>

lemma upload_loop_trace:
  assumes loop: "ftpvita_store_stream (Some (store_receive E)) (Some (store_write E fd)) (Some buf) n
      (client_send_ctrl_msg E msg t) = Some (result, u)" and buf: "unat n \<le> length buf"
  obtains tr T k where "trace u = trace t @ tr" "received_bytes (data_fd (cl t)) tr = T" "written_bytes fd tr = take k T"
    "k \<le> length T" "store_bytes_received result = word_of_nat (length T)" "store_bytes_written result = word_of_nat k"
    "store_stage result \<noteq> ''write'' \<Longrightarrow> k = length T" "cl u = cl t"
proof -
  obtain T k where T: "received_bytes (data_fd (cl t)) (trace u) = received_bytes (data_fd (cl t)) (trace t) @ T"
    "written_bytes fd (trace u) = written_bytes fd (trace t) @ take k T" "k \<le> length T"
    "store_bytes_received result = word_of_nat (length T)" "store_bytes_written result = word_of_nat k"
    "store_stage result \<noteq> ''write'' \<Longrightarrow> k = length T"
    using store_loop_bytes [OF loop buf] by blast
  have q: "quiet (client_send_ctrl_msg E msg t) u" by (rule store_stream_quiet [OF loop])
  then obtain tr where "trace u = trace t @ tr"
    by (auto simp: quiet_def owes_def client_send_ctrl_msg_def)
  with T q show thesis by (intro that [of tr T k]) (auto simp: quiet_def)
qed

lemma store_run_bytes:
  assumes "store_run E path s f result t u"
  obtains t' tr tr' r T k where "receive_file E path s = Some t'"
    "trace t' = trace s @ (Io (sceIoOpen path (store_mode (restore_point (cl s)))), f) #
       tr @ (Net (sceNetSend (ctrl_sockfd (cl s)) (store_reply result)), r) # tr'"
    "\<not> neg (rc f)" "data_socket (cl s) tr (data_fd (cl t))" "received_bytes (data_fd (cl t)) tr = T"
    "written_bytes (rc f) tr = take k T" "k \<le> length T"
    "store_bytes_received result = word_of_nat (length T)" "store_bytes_written result = word_of_nat k"
    "store_stage result \<noteq> ''write'' \<Longrightarrow> k = length T" "restore_point (cl t') = 0"
proof -
  obtain s2 m s3 opened where
    1: "syscall E (Io (sceIoOpen path (store_mode (restore_point (cl s))))) (s\<lparr>transfer_active := 1\<rparr>) = (f, s2)" "\<not> neg (rc f)"
    and 2: "syscall E (Kernel (malloc (file_buf_size s2))) s2 = (m, s3)"
    and 3: "client_open_data_connection E s3 = (opened, t)" "\<not> neg opened"
    and loop: "ftpvita_store_stream (Some (store_receive E)) (Some (store_write E (rc f)))
          (Some (map (mem m) [0 ..< unat (file_buf_size s3)])) (file_buf_size t)
          (client_send_ctrl_msg E (''150 Opening Image mode data transfer.'' @ EOL) t) = Some (result, u)"
    and final: "receive_file E path s = Some (client_end_transfer (client_close_data_connection E
          (client_send_ctrl_msg E (store_reply result) (set_cl (\<lambda>c. c\<lparr>restore_point := 0\<rparr>)
            (exec E (Kernel (free (rc m))) (exec E (Io (sceIoClose (rc f))) u))))))"
    using assms unfolding store_run_def by blast
  have D: "cl s3 = cl s" "ctrl_sockfd (cl t) = ctrl_sockfd (cl s)" "file_buf_size t = file_buf_size s3"
    using syscall_ftpD [OF 1(1)] syscall_ftpD [OF 2] client_open_data_connectionD [OF 3(1)] by simp_all
  obtain tr1 where tr1: "trace t = trace s3 @ tr1" "data_socket (cl s) tr1 (data_fd (cl t))"
    using open_data_socket [OF 3] by (auto simp: D(1))
  have no: "received_bytes fd tr1 = []" "written_bytes fd tr1 = []" for fd
    using silent_bytes [OF silent_open [OF 3(1)]] tr1(1) by simp_all
  obtain tr2 T k where T: "trace u = trace t @ tr2" "received_bytes (data_fd (cl t)) tr2 = T"
    "written_bytes (rc f) tr2 = take k T" "k \<le> length T" "store_bytes_received result = word_of_nat (length T)"
    "store_bytes_written result = word_of_nat k" "store_stage result \<noteq> ''write'' \<Longrightarrow> k = length T" "cl u = cl t"
    using upload_loop_trace [OF loop] D(3) by auto
  obtain c d r tr' where e: "trace (the (receive_file E path s)) = trace u @ (Io (sceIoClose (rc f)), c) #
      (Kernel (free (rc m)), d) # (Net (sceNetSend (ctrl_sockfd (cl u)) (store_reply result)), r) # tr'"
    using upload_epilogue [of E "store_reply result" "rc m" "rc f" u] final by (auto simp: client_end_transfer_def)
  let ?tr = "(Kernel (malloc (file_buf_size s2)), m) # tr1 @ tr2 @ [(Io (sceIoClose (rc f)), c), (Kernel (free (rc m)), d)]"
  show thesis
  proof (rule that [of "the (receive_file E path s)" ?tr r tr' T k])
    show "data_socket (cl s) ?tr (data_fd (cl t))" using tr1(2) by (rule data_socket_mono) auto
  qed (use final e T D no tr1 1(2) syscall_trace [OF 1(1)] syscall_trace [OF 2] in auto)
qed

lemma store_reply_226: "store_reply result = ''226 Transfer completed.'' @ EOL \<longleftrightarrow> store_stage result = ''complete''"
  by (auto simp: store_reply_def snprintf_def)

text \<open>C13: every STOR that returns tells the truth. Either it was refused and no byte was written to any
  file; or the named file was opened, truncated exactly when no restart was requested, and with \<open>T\<close>
  the bytes received on the data socket: the bytes written to the file are a prefix of \<open>T\<close>, in order,
  the two counters of the answer are their lengths, and a 226 answer means that every byte received
  was written. Either way a completed upload consumes the restart request.\<close>

theorem stor_answer_is_accurate:
  assumes "cmd_STOR_func E s = Some t"
  shows "(\<forall>fd. written_bytes fd (trace t) = written_bytes fd (trace s)) \<and> restore_point (cl t) = restore_point (cl s) \<or>
    (\<exists>f tr r tr' sock result T k.
       trace t = trace s @ (Io (sceIoOpen (get_vita_path (gen_ftp_fullpath E (cl s) (PATH_MAX E)))
           ([SCE_O_CREAT, SCE_O_RDWR] @ (if restore_point (cl s) \<noteq> 0 then [SCE_O_APPEND] else [SCE_O_TRUNC]))), f) #
         tr @ (Net (sceNetSend (ctrl_sockfd (cl s)) (store_reply result)), r) # tr' \<and>
       \<not> neg (rc f) \<and> data_socket (cl s) tr sock \<and> received_bytes sock tr = T \<and>
       written_bytes (rc f) tr = take k T \<and> k \<le> length T \<and> store_bytes_received result = word_of_nat (length T) \<and>
       store_bytes_written result = word_of_nat k \<and> restore_point (cl t) = 0 \<and>
       (store_reply result = ''226 Transfer completed.'' @ EOL \<longrightarrow> written_bytes (rc f) tr = T))"
proof -
  let ?p = "get_vita_path (gen_ftp_fullpath E (cl s) (PATH_MAX E))"
  have run: "receive_file E ?p s = Some t" using assms by (simp add: cmd_STOR_func_def)
  then consider "(\<forall>fd. written_bytes fd (trace t) = written_bytes fd (trace s)) \<and> restore_point (cl t) = restore_point (cl s)"
    | f result t' u where "store_run E ?p s f result t' u"
    using receive_file_cases [of E ?p s] by auto
  then show ?thesis
  proof cases
    case (2 f result t' u)
    show ?thesis
    proof (rule store_run_bytes [OF 2], unfold store_mode_def store_reply_226, goal_cases)
      case (1 u' tr tr' r T k)
      then have "u' = t" using run by simp
      with 1(2-) show ?case
        by (intro disjI2 exI [of _ f] exI [of _ tr] exI [of _ r] exI [of _ tr'] exI [of _ "data_fd (cl t')"]
            exI [of _ result] exI [of _ T] exI [of _ k]) auto
    qed
  qed simp
qed

definition stor_session :: "ret list ftp" where
  "stor_session = script_ftp [answer 5, answer 64, answer 0, answer 40, answer_text ''ab'', answer 2, answer 0,
     answer 0, answer 0, answer 25, answer 0] (port_client ''ux0:/f'')"

lemma stor_session_runs: "\<exists>t. cmd_STOR_func script_env stor_session = Some t"
  by (simp add: cmd_STOR_func_def receive_file_def client_begin_transfer_eq stor_session_def script_syscall exec_def Let_def
      client_open_data_connection_def client_send_ctrl_msg_def ftpvita_store_stream_def store_loop.simps
      store_write_loop.simps store_receive_def store_write_def client_recv_data_raw_def
      script_ftp_def port_client_def idle_client_def answer_text_def answer_def)

theorem stor_answer_is_accurate_witness:
  "\<exists>t. cmd_STOR_func script_env stor_session = Some t \<and> restore_point (cl t) = 0"
proof -
  obtain t where t: "cmd_STOR_func script_env stor_session = Some t" using stor_session_runs by blast
  have "restore_point (cl stor_session) = 0" by (simp add: stor_session_def port_client_def idle_client_def)
  with t stor_answer_is_accurate [OF t] show ?thesis by auto
qed

text \<open>A session in which another transfer is active at first: every system call fails, so that
  no file is ever opened.\<close>

definition refused_session :: "ret list ftp" where
  "refused_session = (script_ftp []
     (idle_client\<lparr>recv_cmd_args := Some ''ux0:/f''\<rparr>))\<lparr>transfer_active := 1\<rparr>"

lemmas refused_session_runs = receive_file_def client_begin_transfer_def script_syscall exec_def Let_def
  client_send_ctrl_msg_def client_close_data_connection_def close_socket_def client_end_transfer_def refused_session_def script_ftp_def
  idle_client_def answer_def


end
