(* ===== verification/Package_Properties.thy ===== *)
theory Package_Properties
  imports Package_Installer Ftp_Script
begin

text \<open>
  The properties of the package installer as a whole, with a scripted installation on which they apply.
\<close>

section \<open>Properties\<close>

text \<open>An environment that answers from a list, except that directories are empty; a system file with both
  identifiers; the end record of an archive without members; and a run that installs.\<close>

definition install_env :: "ret list env" where
  "install_env = script_env\<lparr>sys := (\<lambda>c w. case c of Io (sceIoDread d) \<Rightarrow> (answer 0, w) | _ \<Rightarrow> sys script_env c w)\<rparr>"

lemma install_env_names: "names_ok install_env"
  by (simp add: names_ok_def install_env_def answer_def)

lemma install_syscall:
  "(\<forall>d. c \<noteq> Io (sceIoDread d)) \<Longrightarrow> syscall install_env c s = syscall script_env c s"
  by (auto simp: syscall_def install_env_def split: call.splits io_call.splits)

definition sample_sfo :: string where
  "sample_sfo = [NUL, CHR ''P'', CHR ''S'', CHR ''F'', CHR 0x01, CHR 0x01, NUL, NUL, CHR 0x24, NUL, NUL, NUL, CHR 0x30, NUL, NUL, NUL, CHR 0x01, NUL, NUL, NUL,
     NUL, NUL, CHR 0x04, CHR 0x02, CHR 0x0A, NUL, NUL, NUL, CHR 0x0C, NUL, NUL, NUL, NUL, NUL, NUL, NUL] @
     ''TITLE_ID'' @ [NUL, NUL, NUL, NUL] @ ''ABCD00001'' @ [NUL, NUL, NUL]"

lemma sample_ids: "package_ids sample_sfo = Some (Inr (''ABCD00001'', []))"
  by code_simp

definition end_only :: string where
  "end_only = [CHR ''P'', CHR ''K'', CHR 0x05, CHR 0x06] @ replicate 18 NUL"

definition install_script :: "ret list" where
  "install_script = [answer (- 1), answer 0, answer 0,
     answer 5, answer_off 22, answer 64, answer_off 0, answer_text end_only, answer 0, answer 0,
     answer 6, answer_off 60, answer_off 0, answer 64, answer_text sample_sfo, answer 0, answer 0,
     answer 96, answer 0, answer 0, answer 0, answer 0, answer 7, answer 1072, answer 0, answer 0,
     answer 0, answer 0, answer 0, answer 0, answer 0, answer 0, answer 0, answer (- 1)]"

lemma sample_length: "length sample_sfo = 60"
  by (simp add: sample_sfo_def)

text \<open>A scripted operation: its result and the rest of the script.\<close>

definition runs :: "('a \<times> (ret list, 'z) sysst_scheme) option \<Rightarrow> 'a \<Rightarrow> ret list \<Rightarrow> bool" where
  "runs y v w \<longleftrightarrow> (\<exists>t. y = Some (v, t) \<and> world t = w)"

lemma runs_Some [simp]: "runs (Some (v, t)) u w \<longleftrightarrow> v = u \<and> world t = w"
  by (auto simp: runs_def)

named_theorems run \<open>rules that follow a scripted run\<close>

lemma scripted_call [run]:
  "\<forall>d. c \<noteq> Io (sceIoDread d) \<Longrightarrow> world s = r # w \<Longrightarrow> (\<And>t. world t = w \<Longrightarrow> runs (f r t) v x) \<Longrightarrow>
     runs (case syscall install_env c s of (r, s) \<Rightarrow> f r s) v x"
  "\<forall>d. c \<noteq> Io (sceIoDread d) \<Longrightarrow> world s = r # w \<Longrightarrow> (\<And>t. world t = w \<Longrightarrow> runs (f r t) v x) \<Longrightarrow>
     runs (let (r, s) = syscall install_env c s in f r s) v x"
  by (simp_all add: install_syscall script_syscall)

lemma runs_control [run]:
  "runs (f a b) v w \<Longrightarrow> runs (case (a, b) of (x, y) \<Rightarrow> f x y) v w"
  "runs (k a b t) v w \<Longrightarrow> runs ((case (a, b) of (x, y) \<Rightarrow> k x y) t) v w"
  "runs (l c) v w \<Longrightarrow> runs (case Inl c of Inl x \<Rightarrow> l x | Inr y \<Rightarrow> g y) v w"
  "runs (g d) v w \<Longrightarrow> runs (case Inr d of Inl x \<Rightarrow> l x | Inr y \<Rightarrow> g y) v w"
  "runs (j e) v w \<Longrightarrow> runs (Some e \<bind> j) v w"
  "runs (j e) v w \<Longrightarrow> runs (case Some e of None \<Rightarrow> i | Some x \<Rightarrow> j x) v w"
  "runs (h x) v w \<Longrightarrow> runs (let y = x in h y) v w"
  "world t = w \<Longrightarrow> runs (Some (v, t)) v w"
  "v' = v \<Longrightarrow> world t = w \<Longrightarrow> runs (Some (v', t)) v w"
  by (simp_all add: Let_def)

lemma runs_if:
  "\<not> b \<Longrightarrow> runs z v w \<Longrightarrow> runs (if b then y else z) v w"
  "b \<Longrightarrow> runs y v w \<Longrightarrow> runs (if b then y else z) v w"
  by simp_all

lemma runs_bind [run]: "runs y v w \<Longrightarrow> (\<And>t. world t = w \<Longrightarrow> runs (f (v, t)) u x) \<Longrightarrow> runs (y \<bind> f) u x"
  by (auto simp: runs_def)

lemma answers [simp]: "rc (answer k) = k" "off (answer_off p) = p" "rc (answer_text t) = word_of_nat (length t)"
  by (simp_all add: answer_def answer_off_def answer_text_def)

lemma read_whole:
  assumes "world s = answer_text t # w" "length b = unat n" "length t = unat n" "0 < unat n" "unat n < 2 ^ 31"
  shows "runs (read_loop install_env f n 0 b s) (0, t) w"
proof -
  have n: "(word_of_nat (length t) :: u32) = n" using assms(3) by simp
  have less: "uint n < 2 ^ 31" using assms(5) unfolding uint_nat by (simp only: of_nat_less_numeral_power_cancel_iff)
  have "sint n = uint n" unfolding sint_uint
    using less by (subst signed_take_bit_int_eq_self) (simp_all add: order_trans [OF _ unsigned_greater_eq])
  moreover have "0 < uint n" unfolding uint_nat using assms(4) by (simp only: of_nat_0_less_iff)
  ultimately have pos: "\<not> sint n \<le> 0" "\<not> neg n" by simp_all
  have "stored (answer_text t) n = map (\<lambda>i. if i < length t then t ! i else NUL) [0 ..< length t]"
    using pos(2) assms(3) by (simp add: stored_def n answer_text_def)
  also have "\<dots> = t" by (rule nth_equalityI) simp_all
  finally have "fill (answer_text t) n b = t" using assms(2,3) by (simp add: fill_def)
  moreover have "0 < n" using assms(4) by (simp add: word_less_nat_alt)
  ultimately show ?thesis using assms(1) pos n
    by (subst read_loop.simps) (simp add: install_syscall script_syscall, subst read_loop.simps, simp)
qed

lemma runs_value: "y = Some e \<Longrightarrow> runs (f e) v w \<Longrightarrow> runs (y \<bind> f) v w"
  by simp

lemma runs_no_entries: "n = 0 \<Longrightarrow> world s = w \<Longrightarrow> runs (extract_entries E f z n c t s) 0 w"
  by simp

lemma extract_nothing:
  assumes "world s = answer 5 # answer_off 22 # answer 64 # answer_off 0 # answer_text end_only # answer 0 # answer 0 # w"
  shows "runs (extract_vpk install_env p s) 0 w"
proof -
  have found: "scan_tail end_only 22 0 = Some (Inr (0, 0))" by code_simp
  have len: "length end_only = 22" by (simp add: end_only_def)
  have scan: "(if neg (0 :: i32) then Some (Inl 0) else scan_tail end_only (off (answer_off 22)) (unat ((if sint (off (answer_off 22)) < 65558
      then ucast (off (answer_off 22)) else 65558) - 22 :: u32))) = Some (Inr (0, 0))" by (simp add: found)
  from assms show ?thesis unfolding extract_vpk_def find_central_directory_def tail_size_def read_at_def
    by - (assumption | (rule read_whole, assumption, (simp; fail), (simp add: len; fail), (simp; fail), (simp; fail)) | rule runs_value [OF scan]
        | (rule runs_no_entries, simp) | rule run | (rule runs_if, (simp; fail)) | (simp; fail))+
qed

lemma make_parents_slash:
  "cursor < length p \<Longrightarrow> p ! cursor = CHR ''/'' \<Longrightarrow> 0 < cursor \<Longrightarrow> p ! (cursor - 1) \<noteq> CHR '':'' \<Longrightarrow>
   make_parents E p cursor s = (let (result, s) = make_directory E (take cursor p) s
           in if neg result then (result, s) else make_parents E p (cursor + 1) s)"
  by (subst make_parents.simps) simp

lemma make_directory_run: "world s = answer 0 # w \<Longrightarrow> \<exists>t. make_directory install_env p s = (0, t) \<and> world t = w"
  by (simp add: make_directory_def install_syscall script_syscall)

lemma ensure_stage: "world s = answer 0 # answer 0 # w \<Longrightarrow> \<exists>t. ensure_directory install_env INSTALL_STAGE s = (0, t) \<and> world t = w"
  by (simp add: ensure_directory_def INSTALL_STAGE_def make_parents.simps make_directory_def install_syscall script_syscall)

lemma ensure_head_parent:
  "world s = answer 0 # answer 0 # answer 0 # answer 0 # w \<Longrightarrow>
   \<exists>t. ensure_parent_directory install_env INSTALL_HEAD s = (0, t) \<and> world t = w"
  by (simp add: ensure_parent_directory_def INSTALL_HEAD_def ensure_directory_def INSTALL_STAGE_def make_parents.simps make_directory_def install_syscall script_syscall)

lemma runs_pair: "\<exists>t. y = (v, t) \<and> world t = w \<Longrightarrow> (\<And>t. world t = w \<Longrightarrow> runs (f v t) u x) \<Longrightarrow> runs (let (r, s) = y in f r s) u x"
  by auto

lemma head_run:
  assumes "world s = [answer 6, answer_off 60, answer_off 0, answer 64, answer_text sample_sfo, answer 0, answer 0,
     answer 96, answer 0, answer 0, answer 0, answer 0, answer 7, answer 1072, answer 0, answer 0] @ w"
  shows "runs (make_head_bin install_env 12 s) (0, Some ''ABCD00001'') w"
proof -
  have id: "length (selected_content_id ''ABCD00001'' []) < 48" "NUL \<notin> set (selected_content_id ''ABCD00001'' [])"
    by (simp_all add: selected_content_id_def snprintf_def)
  obtain h where h: "fill_head (selected_content_id ''ABCD00001'' []) = Some (Inr h)" using fill_head_valid [OF id] by blast
  have title: "snprintf 12 ''ABCD00001'' = ''ABCD00001''" by (simp add: snprintf_def)
  from assms [simplified] show ?thesis unfolding make_head_bin_def read_file_def write_head_def
    by - (assumption | (rule read_whole, assumption, (simp; fail), (simp add: sample_length; fail), (simp; fail), (simp; fail))
        | rule runs_value [OF sample_ids] runs_value [OF h]
        | (rule runs_pair, rule ensure_head_parent, assumption) | rule run | (rule runs_if, (simp; fail)) | (simp add: title; fail))+
qed

lemma promote_run:
  "world s = [answer 0, answer 0, answer 0, answer 0, answer 0, answer 0, answer 0] @ w \<Longrightarrow> runs (promote_stage install_env s) 0 w"
  unfolding promote_stage_def promote_package_def append_Cons append_Nil
  by - (assumption | rule run | (rule runs_if, (simp; fail)) | (simp; fail))+

lemma no_tree: "world s = answer (- 1) # w \<Longrightarrow> runs (remove_tree install_env p s) 0 w"
  by (simp add: remove_tree_def remove_at.simps install_syscall script_syscall)

lemma install_run: "world s = install_script \<Longrightarrow> runs (install_vpk install_env (Some ''ux0:data/a.vpk'') 12 s) (0, Some ''ABCD00001'') []"
  unfolding install_vpk_def install_script_def
  by - (assumption | (rule no_tree, assumption) | (rule runs_pair, rule ensure_stage, assumption) | (rule extract_nothing, assumption)
      | (rule head_run, simp; fail) | (rule promote_run, simp; fail)
      | rule run | (rule runs_if, (simp; fail)) | (simp; fail))+



text \<open>C37: every header verifies. For every system file that is accepted, making the header ends without an access
  outside of the header and with one that has the size of the template, carries the content identifier
  (padded with zeros) in its field, in which each of the three codes is the one of the bytes it covers as they are in the
  finished header, and which is otherwise the template.\<close>

theorem made_header_verifies:
  assumes "package_ids sfo = Some (Inr (title, content))"
  shows "\<exists>head. fill_head (selected_content_id title content) = Some (Inr head) \<and>
    valid_head (selected_content_id title content) head"
  using package_ids_ok [of sfo] assms by (auto simp: ids_ok_def intro!: fill_head_valid)

theorem made_header_verifies_witness:
  "\<exists>head. fill_head ''EP9000-ABCD00001_00-0000000000000000'' = Some (Inr head) \<and> valid_head ''EP9000-ABCD00001_00-0000000000000000'' head"
  using made_header_verifies [OF sample_ids] by (simp add: selected_content_id_def snprintf_def)

text \<open>A member whose name contains a NUL is not what it seems. Whether a member is a directory is decided by the last byte of the name
  as it is stored, while its path ends at the first NUL: when the stored name goes on after a NUL and ends with a slash, the directory
  that is created has the last character of the path cut off, for the member \<open>..x\<close> the directory above the destination.\<close>

theorem nul_name_loses_a_character:
  assumes "NUL \<notin> set p" and "p \<noteq> []" and "length p < 480" and "unat (name_size c) = length (p @ NUL # q @ ''/'')"
  shows "extract_member E file file_size c (p @ NUL # q @ ''/'') s = Some (ensure_directory E (stage_path (butlast p)) s)"
proof -
  have "cstr (p @ NUL # q @ ''/'') = p" using assms(1) by (induction p) (auto simp: cstr_def)
  moreover have "take (length (stage_path p) - 1) (stage_path p) = stage_path (butlast p)"
    using assms(2) by (cases p rule: rev_cases) (simp_all add: stage_path_def)
  ultimately show ?thesis using assms(3,4) by (simp add: extract_member_def stage_path_def INSTALL_STAGE_def nth_append)
qed

theorem nul_name_loses_a_character_witness:
  "is_safe_archive_path (cstr (''..x'' @ NUL # ''/'')) \<and>
   extract_member install_env 5 100 \<lparr>flags = 0, zip_method = 0, expected_crc = 0, compressed_size = 0, uncompressed_size = 0, name_size = 5,
     extra_size = 0, comment_size = 0, disk = 0, attributes = 0, local_offset = 0\<rparr> (''..x'' @ NUL # ''/'') (script_ftp [] idle_client) =
   Some (ensure_directory install_env (INSTALL_STAGE @ ''/..'') (script_ftp [] idle_client))"
  using nul_name_loses_a_character [of "''..x''" "\<lparr>flags = 0, zip_method = 0, expected_crc = 0, compressed_size = 0, uncompressed_size = 0,
     name_size = 5, extra_size = 0, comment_size = 0, disk = 0, attributes = 0, local_offset = 0\<rparr>" "[]" install_env 5 100 "script_ftp [] idle_client"]
  by (simp add: stage_path_def safe_archive_path_iff path_names_def cstr_def)

end
