(* ===== verification/Cmd_Properties.thy ===== *)
theory Cmd_Properties
  imports Cmd_Server Ftp_Bytes Package_Properties
begin

text \<open>
  The properties of the command server: framing, dispatch, answers, confirmed launches, guarded reboots, and the
  accounts of its thread.
\<close>

section \<open>Framing\<close>

definition recv_event :: "i32 \<Rightarrow> event \<Rightarrow> bool" where
  "recv_event fd e \<longleftrightarrow> (\<exists>k. fst e = Net (sceNetRecv fd k))"

text \<open>A request that is complete: it has a line feed, the buffer is full, or the peer has closed.\<close>

definition complete :: "nat \<Rightarrow> string \<Rightarrow> event list \<Rightarrow> bool" where
  "complete n cmd tr \<longleftrightarrow> LF \<in> set cmd \<or> length cmd = n \<or> (tr \<noteq> [] \<and> rc (snd (last tr)) = 0)"

lemma receive_loop_bytes:
  assumes "receive_loop E fd n cmd s = Some (x, t)" and "n \<le> CMD_REQUEST_BYTES" and "LF \<notin> set cmd" and "length cmd \<le> n"
  shows "\<exists>tr. calls t = calls s @ tr \<and> (\<forall>e \<in> set tr. recv_event fd e) \<and>
    (case x of Inl e \<Rightarrow> neg e \<and> tr \<noteq> [] \<and> rc (snd (last tr)) = e
     | Inr cmd' \<Rightarrow> cmd' = cmd @ received_bytes fd tr \<and> length cmd' \<le> n \<and> complete n cmd' tr \<and>
         LF \<notin> set (received_bytes fd (butlast tr)))"
  using assms
proof (induction E fd n cmd s rule: receive_loop.induct)
  case (1 E fd n cmd s)
  let ?k = "word_of_nat (n - length cmd) :: u32"
  obtain r u where a: "ask E (Net (sceNetRecv fd ?k)) s = (r, u)" by fastforce
  let ?e = "(Net (sceNetRecv fd ?k), r)"
  have u: "calls u = calls s @ [?e]" using calls_ask [OF a] .
  have k: "unat ?k = n - length cmd" using 1(3) by (simp add: unat_of_nat)
  show ?case
  proof (cases "length cmd < n")
    case False
    with 1(2,4,5) show ?thesis
      by (subst (asm) receive_loop.simps) (auto simp: complete_def intro!: exI [of _ "[]"])
  next
    case more: True
    let ?m = "map (mem r) [0 ..< unat (rc r)]"
    show ?thesis
    proof (cases "neg (rc r) \<or> rc r = 0")
      case True
      with 1(2,4,5) more a u show ?thesis
        by (subst (asm) receive_loop.simps)
          (auto simp: recv_event_def complete_def event_received_def intro!: exI [of _ "[?e]"] split: if_splits)
    next
      case good: False
      then have fits: "unat (rc r) \<le> n - length cmd" using 1(2) more a by (subst (asm) receive_loop.simps) (auto split: if_splits)
      have pos: "0 < sint (rc r)" using good by (metis less_linear signed_eq_0_iff)
      have bytes: "event_received fd ?e = ?m"
        using pos fits k by (simp add: event_received_def word_le_nat_alt)
      show ?thesis
      proof (cases "LF \<in> set ?m")
        case True
        with 1(2) more good fits a u bytes show ?thesis
          by (subst (asm) receive_loop.simps)
            (auto simp: Let_def recv_event_def complete_def intro!: exI [of _ "[?e]"] split: if_splits)
      next
        case False
        have run: "receive_loop E fd n (cmd @ ?m) u = Some (x, t)"
          using 1(2,4) more good fits a False by (subst (asm) receive_loop.simps) (auto simp: Let_def split: if_splits)
        have size: "length (cmd @ ?m) \<le> n" using fits 1(5) by simp
        have line: "LF \<notin> set (cmd @ ?m)" using 1(4) False by simp
        from 1(1) [OF more a [symmetric] refl _ _ _ refl _ run 1(3) line size] good fits False 1(4) obtain tr where
          "calls t = calls u @ tr" "\<forall>e \<in> set tr. recv_event fd e"
          "case x of Inl e \<Rightarrow> neg e \<and> tr \<noteq> [] \<and> rc (snd (last tr)) = e
           | Inr cmd' \<Rightarrow> cmd' = (cmd @ ?m) @ received_bytes fd tr \<and> length cmd' \<le> n \<and> complete n cmd' tr \<and>
               LF \<notin> set (received_bytes fd (butlast tr))" by auto
        with u bytes False show ?thesis
          by (intro exI [of _ "?e # tr"]) (auto simp: recv_event_def complete_def split: sum.splits)
      qed
    qed
  qed
qed

text \<open>C23: a request is what was received, up to the first line feed. When \<open>receive_command\<close> returns with a request, that is
  the concatenation of what the calls of \<open>sceNetRecv\<close> delivered, in whatever pieces; it fits the buffer; reading
  stopped with the first piece that contains a line feed, when the buffer was full or when the peer closed; and it is
  reported as too long exactly when the buffer is full without a line feed. A negative result is that of the last call.
  Nothing but \<open>sceNetRecv\<close> on this socket is called.\<close>

theorem request_is_framed:
  assumes "receive_command E fd n s = Some ((received, too_long, cmd), t)" and "n \<le> CMD_REQUEST_BYTES"
  shows "\<exists>tr. calls t = calls s @ tr \<and> (\<forall>e \<in> set tr. recv_event fd e) \<and>
    (if neg received then \<not> too_long \<and> cmd = [] \<and> tr \<noteq> [] \<and> rc (snd (last tr)) = received
     else unat received = length cmd \<and> cmd = received_bytes fd tr \<and> length cmd \<le> n \<and> complete n cmd tr \<and>
       LF \<notin> set (received_bytes fd (butlast tr)) \<and> (too_long \<longleftrightarrow> length cmd = n \<and> LF \<notin> set cmd))"
proof -
  obtain x u where "receive_loop E fd n [] s = Some (x, u)" using assms(1) by (auto simp: receive_command_def Option.bind_eq_Some_conv)
  then have run: "receive_loop E fd n [] s = Some (x, t)"
    and x: "x = Inl received \<and> \<not> too_long \<and> cmd = [] \<or>
      x = Inr cmd \<and> received = of_nat (length cmd) \<and> too_long = (length cmd = n \<and> LF \<notin> set cmd)"
    using assms(1) by (cases x; auto simp: receive_command_def)+
  have "length cmd \<le> n \<Longrightarrow> unat (word_of_nat (length cmd) :: i32) = length cmd \<and> \<not> neg (word_of_nat (length cmd) :: i32)"
    using request_size [of "length cmd"] assms(2) by simp
  with receive_loop_bytes [OF run assms(2)] x show ?thesis by auto
qed

text \<open>A command server with an idle FTP server; it has been asked to start its thread.\<close>

definition companion :: "ret list \<Rightarrow> ret list plugin" where
  "companion w = \<lparr>ftpd = (script_ftp w idle_client)\<lparr>client_list := 0, number_clients := 0\<rparr>, shellShot = 0, shellshot_initialized = False,
     shellshot_available = False, loader_thid = 4, loader_sockfd = - 1, active_client_sockfd = - 1,
     loader_start_status = CMD_START_PENDING, run = True, all_is_up = False, net_connected = True, net_thid = 8, netctl_cb_id = 9,
     desired_connected = True, netctl_initialized = True\<rparr>"

lemma companion_simps [simp]:
  "calls (companion w) = []" "loader_sockfd (companion w) = - 1" "active_client_sockfd (companion w) = - 1" "loader_thid (companion w) = 4"
  by (simp_all add: companion_def script_ftp_def)

lemma companion_registry: "registry (ftpd (companion w)) []"
  by (simp add: registry_def companion_def script_ftp_def)

lemma script_ask: "ask script_env c s = (case world (ftpd s) of
     [] \<Rightarrow> (answer (- 1), s\<lparr>ftpd := (ftpd s)\<lparr>world := [], trace := calls s @ [(c, answer (- 1))]\<rparr>\<rparr>)
   | r # w \<Rightarrow> (r, s\<lparr>ftpd := (ftpd s)\<lparr>world := w, trace := calls s @ [(c, r)]\<rparr>\<rparr>))"
  by (simp add: ask_def script_syscall split: list.split)

lemma companion_world [simp]: "world (ftpd (companion w)) = w"
  by (simp add: companion_def script_ftp_def)

theorem request_is_framed_witness:
  "\<exists>received too_long cmd t. receive_command script_env 9 256 (companion [answer_text ''kill'', answer_text ('' PCSE'' @ [LF])]) =
       Some ((received, too_long, cmd), t) \<and> cmd = received_bytes 9 (calls t) \<and> cmd = ''kill PCSE'' @ [LF] \<and> \<not> too_long"
proof -
  let ?s = "companion [answer_text ''kill'', answer_text ('' PCSE'' @ [LF])]"
  have "\<exists>t. receive_command script_env 9 256 ?s = Some ((10, False, ''kill PCSE'' @ [LF]), t)"
    by (simp add: receive_command_def receive_loop.simps script_ask answer_text_def answer_def Let_def upt_rec)
  then obtain t where t: "receive_command script_env 9 256 ?s = Some ((10, False, ''kill PCSE'' @ [LF]), t)" ..
  from request_is_framed [OF t] t show ?thesis by auto
qed

section \<open>Dispatch and answers\<close>

text \<open>C38: what a request does depends on the words of its first line only. For every request buffer, \<open>cmd_handle\<close> behaves
  as the specification on words says: too many words, no word, an unknown name and a wrong number of arguments are
  refused with their messages and without any call; anything else runs the executor of the definition with this name on
  exactly these words. In particular two requests with the same words on their first line, however they are spaced or
  continued, do the same.\<close>

theorem cmd_handle_runs_first_line:
  "cmd_handle E cmd (length cmd) [] n s =
     (let ws = tokens (line_of cmd) in
      if CMD_ARG_MAX < length ws then Some (snprintf n (''Error: Too many arguments.'' @ [LF]), s)
      else case ws of
        [] \<Rightarrow> Some (snprintf n (''Error: Empty command.'' @ [LF]), s)
      | w # args \<Rightarrow>
          (case cmd_get_definition w of
             None \<Rightarrow> Some (snprintf n (''Error: Unknown command.'' @ [LF]), s)
           | Some d \<Rightarrow> if arg_count d \<noteq> length args then Some (snprintf n (''Error: Incorrect number of arguments.'' @ [LF]), s)
                       else execute E (executor d) ws [] n s))"
  by (simp add: cmd_handle_words run_words_def Let_def split: list.split)

text \<open>C11: every request is answered, and nothing else is disturbed. While the client list of the FTP server is well
  formed and directories list proper names, a request that is handled leaves a response that is not empty, has no NUL and fits the
  response buffer with its terminator (so that the substitute for an empty response is never sent); every resource
  that the request acquires is given back; the FTP server keeps its state but for the reboot guard, and the
  globals of the network thread are unchanged. Only an installation may fail to return.\<close>

theorem every_request_is_answered:
  assumes "registry (ftpd s) ps" and "names_ok E"
  shows "(\<forall>res t. client_response E fd s = Some (res, t) \<longrightarrow>
      res \<noteq> [] \<and> length res < CMD_RESPONSE_BYTES \<and> NUL \<notin> set res \<and> ftp_core (ftpd t) = ftp_core (ftpd s) \<and>
      net_fields t = net_fields s \<and> (\<forall>x. balance (calls t) x - cmd_owned t x = balance (calls s) x - cmd_owned s x)) \<and>
    (hd (tokens (line_of cmd)) \<noteq> ''install'' \<longrightarrow> cmd_handle E cmd (length cmd) [] n s \<noteq> None)"
proof -
  have "cmd_handle E cmd (length cmd) [] n s \<noteq> None" if name: "hd (tokens (line_of cmd)) \<noteq> ''install''"
  proof -
    have "executor d \<noteq> Cmd_install" if "cmd_get_definition (hd (tokens (line_of cmd))) = Some d" for d
      using that name by (auto simp: cmd_get_definition_def find_Some_iff cmd_definitions_def nth_Cons' split: if_splits)
    moreover have "execute E c ws [] n s \<noteq> None" if "c \<noteq> Cmd_install" for c ws
      using that ftpvita_abort_clients_eq [OF assms(1), of E] by (cases c) (auto simp: execute_def cmd_ftpreset_def Let_def)
    ultimately show ?thesis
      by (auto simp: cmd_handle_words run_words_def split: list.split option.split)
  qed
  moreover have "answered s (res, t)" if "client_response E fd s = Some (res, t)" for res t
    using client_response_answered [OF assms that] .
  ultimately show ?thesis using undisturbed_beside by (force simp: answered_def response_ok_def beside_def cmd_extra_def)
qed

lemma install_ask: "(\<forall>d. c \<noteq> Io (sceIoDread d)) \<Longrightarrow> ask install_env c s = ask script_env c s"
  by (simp add: ask_def install_syscall)

definition version_session :: "ret list" where
  "version_session = [answer 0, answer 0, answer_text (''version'' @ [LF])]"

lemma version_response: "\<exists>t. client_response install_env 9 (companion version_session) = Some (cmd_version 1024, t)"
proof -
  have "tokens (line_of (''version'' @ [LF])) = [''version'']" by code_simp
  moreover have "cmd_get_definition ''version'' = Some \<lparr>command_name = ''version'',
      description = ''Show protocol and hardening version'', arg_count = 0, executor = Cmd_version\<rparr>" by code_simp
  ultimately have words: "run_words install_env (tokens (line_of (''version'' @ [LF]))) 1024 s = Some (cmd_version 1024, s)" for s
    by (simp add: run_words_def execute_def)
  have len: "length (''version'' @ [LF]) = 8" by simp
  have "cmd_handle install_env (''version'' @ [LF]) 8 [] 1024 s = Some (cmd_version 1024, s)" for s
    by (rule cmd_handle_words [of install_env "''version'' @ [LF]" 1024 s, unfolded len words])
  then show ?thesis
    by (simp add: client_response_def configure_cmd_io_timeout_def install_ask script_ask version_session_def receive_command_def
        receive_loop.simps answer_text_def answer_def Let_def upt_rec)
qed

theorem every_request_is_answered_witness:
  "\<exists>t. client_response install_env 9 (companion version_session) = Some (cmd_version 1024, t) \<and>
     length (cmd_version 1024) < 1024 \<and> net_fields t = net_fields (companion version_session)"
  using every_request_is_answered [OF companion_registry install_env_names] version_response by blast

text \<open>C20: the thread of the command server cleans up. On each of its exits the listening socket and the socket of a client are
  closed and their slots empty, a pending start has been reported as failed, every resource that was acquired by it or
  by the commands that it ran has been given back, and the state of the FTP server is the one before but for the
  reboot guard.\<close>

theorem cmd_thread_cleans_up:
  assumes "registry (ftpd s) ps" and "names_ok E" and "neg (loader_sockfd s)" and "neg (active_client_sockfd s)" and "cmd_thread E s = Some t"
  shows "loader_sockfd t = - 1 \<and> active_client_sockfd t = - 1 \<and> loader_start_status t \<noteq> CMD_START_PENDING \<and>
    ftp_core (ftpd t) = ftp_core (ftpd s) \<and> net_fields t = net_fields s \<and>
    (\<forall>x. balance (calls t) x - cmd_owned t x = balance (calls s) x - cmd_owned s x)"
  using cmd_thread_ok [OF assms] by (simp add: beside_def cmd_extra_def)

lemma short_thread_runs: "\<exists>t. cmd_thread install_env (companion [answer 5, answer 0, answer 0, answer (- 1)]) = Some t"
  by (simp add: cmd_thread_def cmd_listen_def cmd_loop.simps install_ask script_ask Let_def companion_def set_loader_def script_ftp_def answer_def)

theorem cmd_thread_cleans_up_witness:
  "\<exists>t. cmd_thread install_env (companion [answer 5, answer 0, answer 0, answer (- 1)]) = Some t \<and> loader_sockfd t = - 1 \<and>
     balance (calls t) (Sock 5) = 0"
proof -
  obtain t where t: "cmd_thread install_env (companion [answer 5, answer 0, answer 0, answer (- 1)]) = Some t" using short_thread_runs ..
  have "neg (- 1 :: i32)" by simp
  with cmd_thread_cleans_up [OF companion_registry install_env_names _ _ t] t show ?thesis
    by (auto simp: cmd_owned_def holds_def dest!: spec [of _ "Sock 5"])
qed

section \<open>Launching\<close>

lemma title_ids_equal_iff:
  "NUL \<notin> set l \<Longrightarrow> NUL \<notin> set r \<Longrightarrow> title_ids_equal l r \<longleftrightarrow> map upper l = map upper r"
  by (induction l r rule: title_ids_equal.induct) (auto simp: deref_def split: list.splits)

definition delays :: "event list \<Rightarrow> nat" where
  "delays tr = length (filter (\<lambda>e. fst e = Kernel (sceKernelDelayThread LAUNCH_CONFIRM_INTERVAL_US)) tr)"

lemma delays_append [simp]: "delays (tr @ tr') = delays tr + delays tr'"
  by (simp add: delays_def)

lemma delays_delay [simp]: "delays ((Kernel (sceKernelDelayThread 100000), x) # tr) = Suc (delays tr)"
  by (simp add: delays_def)

text \<open>What the last query of the foreground application has answered: the shell, or the name of a process.\<close>

definition shown :: "'w env \<Rightarrow> event list \<Rightarrow> string \<Rightarrow> bool" where
  "shown E tr title \<longleftrightarrow>
     (\<exists>r. tr \<noteq> [] \<and> last tr = (App (sceAppMgrGetAppIdByAppId SCE_APPMGR_APP_ID_ACTIVE), r) \<and> sint (rc r) \<le> 0 \<and>
        title = snprintf (FOREGROUND_TITLE_ID_SIZE E) ''main'') \<or>
     (\<exists>p r. tr \<noteq> [] \<and> last tr = (App (sceAppMgrGetNameById p), r) \<and> \<not> neg (rc r) \<and>
        title = cstr (map (mem r) [0 ..< SCE_APPMGR_MAX_APP_NAME_LENGTH E]))"

lemma shown_later: "shown E tr title \<Longrightarrow> shown E (e # tr) title" "shown E tr title \<Longrightarrow> shown E (tr0 @ tr) title"
  by (auto simp: shown_def)

lemma foreground_shown:
  assumes "get_foreground_title_id E b (FOREGROUND_TITLE_ID_SIZE E) s = ((r, title), t)"
  shows "\<exists>tr. calls t = calls s @ tr \<and> delays tr = 0 \<and> (\<not> neg r \<longrightarrow> shown E tr title)"
  using assms
  by (auto simp: get_foreground_title_id_def Let_def delays_def shown_def split: prod.splits if_splits dest!: calls_ask)

lemma confirm_launch_trace:
  assumes "confirm_launch E title k fg s = ((b, fg'), t)" and "NUL \<notin> set title" and "NUL \<notin> set fg"
  shows "\<exists>tr. calls t = calls s @ tr \<and>
    (if b then delays tr < k \<and> shown E tr fg' \<and> map upper fg' = map upper title else delays tr = k)"
  using assms
proof (induction k arbitrary: fg s)
  case 0
  then show ?case by (simp add: delays_def)
next
  case (Suc k)
  obtain r f1 s1 where q: "get_foreground_title_id E fg (FOREGROUND_TITLE_ID_SIZE E) s = ((r, f1), s1)" by (metis prod.exhaust)
  from foreground_shown [OF q] obtain tr where tr: "calls s1 = calls s @ tr" "delays tr = 0" "\<not> neg r \<longrightarrow> shown E tr f1" by blast
  have nn: "NUL \<notin> set f1" using foreground_ok [OF q undisturbed_refl Suc.prems(3)] by simp
  show ?case
  proof (cases "\<not> neg r \<and> title_ids_equal f1 title")
    case True
    with Suc.prems q tr nn show ?thesis by (auto simp: title_ids_equal_iff)
  next
    case False
    let ?s2 = "tell E (Kernel (sceKernelDelayThread LAUNCH_CONFIRM_INTERVAL_US)) s1"
    have "confirm_launch E title k f1 ?s2 = ((b, fg'), t)" using Suc.prems(1) q False by (auto split: if_splits)
    from Suc.IH [OF this Suc.prems(2) nn] obtain tr' where
      tr': "calls t = calls ?s2 @ tr'" "if b then delays tr' < k \<and> shown E tr' fg' \<and> map upper fg' = map upper title else delays tr' = k"
      by blast
    show ?thesis using tr tr'
      by (intro exI [of _ "tr @ [(Kernel (sceKernelDelayThread LAUNCH_CONFIRM_INTERVAL_US),
            fst (ask E (Kernel (sceKernelDelayThread LAUNCH_CONFIRM_INTERVAL_US)) s1))] @ tr'"])
        (auto simp: calls_tell shown_later)
  qed
qed


definition launch_session :: "ret list" where
  "launch_session = [answer 0, answer 5, answer 6, answer_text ''PCSE00001'']"

lemma launch_session_runs:
  "\<exists>t. cmd_launch script_env [''launch'', ''pcse00001''] 1024 (companion launch_session) = (''Launched: PCSE00001'' @ [LF], t) \<and>
     length (calls t) = 4"
proof -
  have shown: "cstr (map (mem (answer_text ''PCSE00001'')) [0 ..< 31]) = ''PCSE00001''"
    by (simp add: answer_text_def upt_rec)
  have [simp]: "SCE_APPMGR_MAX_APP_NAME_LENGTH script_env = 31" "rc (answer_text ''PCSE00001'') = 9"
    by (simp_all add: script_env_def answer_text_def answer_def)
  have [simp]: "rc (answer r) = r" for r by (simp add: answer_def)
  have same: "title_ids_equal ''PCSE00001'' ''pcse00001''" by code_simp
  let ?s = "companion launch_session"
  obtain u where u: "ask script_env (App (sceAppMgrLaunchAppByUri 0x20000 ''psgm:play?titleid=pcse00001'')) ?s = (answer 0, u)"
    "world (ftpd u) = [answer 5, answer 6, answer_text ''PCSE00001'']" "length (calls u) = 1"
    by (simp add: script_ask launch_session_def)
  obtain t where t: "get_foreground_title_id script_env ''unknown'' 32 u = ((9, ''PCSE00001''), t)" "length (calls t) = 4"
    using u(2,3) by (simp add: get_foreground_title_id_def script_ask shown del: upt_conv_Cons)
  have "confirm_launch script_env ''pcse00001'' 80 ''unknown'' u = ((True, ''PCSE00001''), t)"
    using confirm_launch.simps(2) [of script_env "''pcse00001''" 79 "''unknown''" u] by (simp add: t same del: title_ids_equal.simps)
  with u(1) t(2) show ?thesis by (simp add: cmd_launch_def snprintf_def)
qed


section \<open>Rebooting\<close>

definition reset_requested :: "event list \<Rightarrow> bool" where
  "reset_requested tr \<longleftrightarrow> (\<exists>r. (App scePowerRequestColdReset, r) \<in> set tr)"

lemma prepare_trace:
  assumes "ftpvita_prepare_for_reboot E f = ((b, counts), g)"
  shows "\<exists>tr. trace g = trace f @ tr \<and> \<not> reset_requested tr \<and> number_clients g = number_clients f \<and> transfer_active g = transfer_active f \<and>
    (if b then ftp_initialized f \<and> number_clients f = 0 \<and> transfer_active f = 0 \<and> reboot_quiesce_requested f = 0 \<and> reboot_quiesce_requested g = 1 \<and>
       (\<exists>r u. \<not> neg (rc r) \<and> tr = [(Kernel (sceKernelLockMutex (client_list_mtx f)), r), (Kernel (sceKernelUnlockMutex (client_list_mtx f)), u)])
     else reboot_quiesce_requested g = reboot_quiesce_requested f \<and>
       (counts = None \<or> counts = Some (number_clients f, transfer_active f \<noteq> 0)))"
  using assms
  by (auto simp: ftpvita_prepare_for_reboot_def Let_def syscall_def unlock_list_def exec_def reset_requested_def
      ftpvita_get_active_client_count_def ftpvita_has_active_transfer_def split: prod.splits if_splits)



end
