(* ===== verification/Package_Termination.thy ===== *)
theory Package_Termination
  imports Package_Properties Termination
begin

text \<open>
  An installation ends. Besides the finite input (directories, and the steps of the decompressor) it relies on
  reads and writes that report at most what was asked for. As \<open>None\<close> is also an access outside a
  buffer, the same theorem says that the installer makes none, whatever the archive contains.
\<close>

section \<open>What is relied on\<close>

definition io_bounded :: "'w env \<Rightarrow> bool" where
  "io_bounded E \<longleftrightarrow> (\<forall>fd n bs w.
     (0 < sint (rc (fst (sys E (Io (sceIoRead fd n)) w))) \<longrightarrow> rc (fst (sys E (Io (sceIoRead fd n)) w)) \<le> n) \<and>
     (0 < sint (rc (fst (sys E (Io (sceIoWrite fd bs)) w))) \<longrightarrow> unat (rc (fst (sys E (Io (sceIoWrite fd bs)) w))) \<le> length bs))"

lemma io_boundedD:
  assumes "io_bounded E" and "0 < sint (rc r)"
  shows "syscall E (Io (sceIoRead fd n)) s = (r, t) \<Longrightarrow> rc r \<le> n"
    and "syscall E (Io (sceIoWrite fd bs)) s = (r, t) \<Longrightarrow> unat (rc r) \<le> length bs"
  using assms by (auto simp: io_bounded_def syscall_def split: prod.splits) (metis fst_conv)+

section \<open>Removing and creating directories\<close>

lemma remove_at_halts:
  fixes s :: "('w, 'z) sysst_scheme"
  assumes "finite_input E left"
  shows "pair_returns left (left (world s)) (remove_at E path handle s)"
proof (induction "2 * left (world s) + (if handle = None then 1 else 0)" arbitrary: s path handle rule: less_induct)
  case less
  have IH: "pair_returns left k (remove_at E p h t)"
    if "within left k t" "2 * k + (if h = None then 1 else 0) < 2 * left (world s) + (if handle = None then 1 else 0)" for t :: "('w, 'z) sysst_scheme" and p h k
  proof (rule pair_returns_mono [OF less.hyps])
    show "2 * left (world t) + (if h = None then 1 else 0) < 2 * left (world s) + (if handle = None then 1 else 0)"
      using that by (simp add: within_def)
    show "left (world t) \<le> k" using that(1) by (simp add: within_def)
  qed
  show ?case
  proof (cases handle)
    case None
    have step: "within left (left (world s)) t \<Longrightarrow> pair_returns left (left (world s)) (remove_at E path (Some d) t)" for d and t :: "('w, 'z) sysst_scheme"
      using IH None by simp
    show ?thesis unfolding None remove_at.simps [of E path None s] option.case
      by (rule pair_returns_bind [OF step] | rule stays_rules | (rule stay_pulls, rule assms, assumption) | rule within_refl | assumption)+
  next
    case (Some d)
    obtain r u where read: "syscall E (Io (sceIoDread d)) s = (r, u)" by fastforce
    show ?thesis
    proof (cases "sint (rc r) \<le> 0")
      case True
      have "within left (left (world s)) u" by (rule within_call [OF assms read within_refl])
      then show ?thesis unfolding Some remove_at.simps [of E path "Some d" s] using read True by (simp add: pair_returnsI)
    next
      case False
      have less': "left (world u) < left (world s)" using input_falls [OF assms read] False by simp
      have step: "within left (left (world u)) t \<Longrightarrow> pair_returns left (left (world u)) (remove_at E p h t)"
      for p h and t :: "('w, 'z) sysst_scheme"
        using IH less' by simp
      have "pair_returns left (left (world u))
          (if d_name r = ''.'' \<or> d_name r = ''..'' then remove_at E path (Some d) u
           else let child = path @ ''/'' @ d_name r
                in if INSTALL_PATH_MAX \<le> length child then Some (INSTALL_ERROR_ARCHIVE_PATH, u)
                   else do {
                     (result, s) \<leftarrow> remove_at E child None u;
                     if neg result then Some (result, s) else remove_at E path (Some d) s })"
        by (rule pair_returns_bind [OF step] | rule stays_rules | rule step | rule within_refl | assumption)+
      from pair_returns_mono [OF this, of "left (world s)"] less' show ?thesis
        unfolding Some remove_at.simps [of E path "Some d" s] by (simp add: read False del: not_le)
    qed
  qed
qed

lemma remove_tree_halts [halts]: "finite_input E left \<Longrightarrow> within left n s \<Longrightarrow> pair_returns left n (remove_tree E path s)"
  unfolding remove_tree_def by (rule pair_returns_mono [OF remove_at_halts]) (simp_all add: within_def)

lemma make_directory_stays:
  assumes "finite_input E left" and "within left n s"
  shows "pair_within left n (make_directory E p s)"
  unfolding make_directory_def
  by (rule stays_rules | (rule stay_pulls, rule assms(1), assumption) | rule assms)+

lemma make_directory_stay [stay_pulls]:
  "finite_input E left \<Longrightarrow> make_directory E p s = (r, t) \<Longrightarrow> within left n s \<Longrightarrow> within left n t"
  by (rule pair_withinD [OF make_directory_stays])

lemma make_parents_stays:
  "finite_input E left \<Longrightarrow> within left n s \<Longrightarrow> pair_within left n (make_parents E p c s)"
proof (induction E p c s rule: make_parents.induct)
  case (1 E p c s)
  obtain r t where made: "make_directory E (take c p) s = (r, t)" by fastforce
  have t: "within left n t" using make_directory_stay [OF 1(4) made 1(5)] .
  show ?case
    by (subst make_parents.simps) (use 1 made t in \<open>auto simp: pair_withinI\<close>)
qed

lemma make_parents_stay [stay_pulls]:
  "finite_input E left \<Longrightarrow> make_parents E p c s = (r, t) \<Longrightarrow> within left n s \<Longrightarrow> within left n t"
  by (rule pair_withinD [OF make_parents_stays])

lemma ensure_directory_stays:
  assumes "finite_input E left" and "within left n s"
  shows "pair_within left n (ensure_directory E p s)"
proof -
  have first: "within left n t" if "(if b then make_parents E p k s else (0, s)) = (r, t)" for b k r t
    using that make_parents_stay [OF assms(1) _ assms(2)] assms(2) by (auto split: if_splits)
  show ?thesis unfolding ensure_directory_def
    by (rule stays_rules | (rule pair_withinD [OF make_directory_stays, OF assms(1)], assumption, assumption)
        | rule make_directory_stays [OF assms(1)] | (rule first, assumption) | rule assms)+
qed

lemma ensure_directory_stay [stay_pulls]:
  "finite_input E left \<Longrightarrow> ensure_directory E p s = (r, t) \<Longrightarrow> within left n s \<Longrightarrow> within left n t"
  by (rule pair_withinD [OF ensure_directory_stays])

lemma ensure_parent_stay [stay_pulls]:
  "finite_input E left \<Longrightarrow> ensure_parent_directory E p s = (r, t) \<Longrightarrow> within left n s \<Longrightarrow> within left n t"
  using ensure_directory_stay [of E left _ s r t n] by (auto simp: ensure_parent_directory_def split: if_splits)

section \<open>Complete reads and writes\<close>

text \<open>One more piece brings a loop closer to its end.\<close>

lemma piece_progress:
  fixes m n r :: u32
  assumes "m < n" and "0 < sint r" and "r \<le> n - m"
  shows "unat (n - (m + r)) < unat (n - m)"
proof -
  have "n - (m + r) = (n - m) - r" by simp
  then have "unat (n - (m + r)) = unat (n - m) - unat r" using assms(3) by (simp only: unat_sub)
  moreover have "0 < unat r" using assms(2) by (rule sint_pos_unat)
  moreover have "unat r \<le> unat (n - m)" using assms(3) by (simp add: word_le_nat_alt)
  ultimately show ?thesis by simp
qed

lemma read_loop_halts [halts]:
  assumes "finite_input E left" and "io_bounded E"
  shows "within left k s \<Longrightarrow> pair_returns left k (read_loop E fd n m b s)"
proof (induction "unat (n - m)" arbitrary: m b s rule: less_induct)
  case less
  obtain r t where read: "syscall E (Io (sceIoRead fd (n - m))) s = (r, t)" by fastforce
  have t: "within left k t" using within_call [OF assms(1) read less.prems] .
  consider "\<not> m < n" | "m < n" "sint (rc r) \<le> 0" | "m < n" "0 < sint (rc r)" by linarith
  then show ?case
  proof cases
    case 3
    have "unat (n - (m + rc r)) < unat (n - m)" using piece_progress [OF 3] io_boundedD(1) [OF assms(2) 3(2) read] by simp
    from less.hyps [OF this t] 3 read show ?thesis by (subst read_loop.simps) simp
  qed (use less.prems t read in \<open>subst read_loop.simps, simp add: pair_returnsI\<close>)+
qed

lemma read_at_halts [halts]:
  assumes "finite_input E left" and "io_bounded E" and "within left k s"
  shows "pair_returns left k (read_at E fd p n s)"
  unfolding read_at_def
  by (rule stays_rules | rule read_loop_halts [OF assms(1,2)] | (rule stay_pulls, rule assms(1), assumption) | rule assms(3))+

lemma write_loop_halts:
  assumes "finite_input E left" and "io_bounded E"
  shows "within left k s \<Longrightarrow> pair_returns left k (write_loop E fd b n m s)"
proof (induction "unat (n - m)" arbitrary: m s rule: less_induct)
  case less
  let ?bs = "take (unat (n - m)) (drop (unat m) b)"
  obtain r t where "write": "syscall E (Io (sceIoWrite fd ?bs)) s = (r, t)" by fastforce
  have t: "within left k t" using within_call [OF assms(1) "write" less.prems] .
  consider "\<not> m < n" | "m < n" "sint (rc r) \<le> 0" | "m < n" "0 < sint (rc r)" by linarith
  then show ?case
  proof cases
    case 3
    have "unat (rc r) \<le> length ?bs" by (rule io_boundedD(2) [OF assms(2) 3(2) "write"])
    then have "rc r \<le> n - m" by (simp add: word_le_nat_alt)
    from less.hyps [OF piece_progress [OF 3 this] t] 3 "write" show ?thesis by (subst write_loop.simps) simp
  qed (use less.prems t "write" in \<open>subst write_loop.simps, simp add: pair_returnsI\<close>)+
qed

lemma write_all_halts [halts]:
  "finite_input E left \<Longrightarrow> io_bounded E \<Longrightarrow> within left k s \<Longrightarrow> pair_returns left k (write_all E fd b n s)"
  unfolding write_all_def by (rule write_loop_halts)

section \<open>Unpacking\<close>

lemma stored_loop_halts:
  assumes "finite_input E left" and "io_bounded E"
  shows "within left k s \<Longrightarrow> pair_returns left k (stored_loop E fi fo z s)"
proof (induction "unat (compressed_left z)" arbitrary: z s rule: less_induct)
  case less
  let ?n = "chunk_size (compressed_left z)"
  obtain r t where read: "syscall E (Io (sceIoRead fi ?n)) s = (r, t)" by fastforce
  have t: "within left k t" using within_call [OF assms(1) read less.prems] .
  obtain q u where w: "write_all E fo (stored r ?n) ?n t = Some (q, u)" "within left k u"
    using write_all_halts [OF assms t] by (blast dest: pair_returnsD)
  have "pair_returns left k (stored_loop E fi fo (z'\<lparr>compressed_left := compressed_left z - ?n, produced_total := p\<rparr>) u)"
    if "0 < compressed_left z" for z' p
    using less.hyps [OF _ w(2), of "z'\<lparr>compressed_left := compressed_left z - ?n, produced_total := p\<rparr>"] chunk_progress [OF that] by simp
  then show ?case using less.prems t read w by (subst stored_loop.simps) (auto simp: Let_def intro: pair_returnsI)
qed

lemma refill_stay [stay_pulls]:
  "finite_input E left \<Longrightarrow> refill E fi pending z s = (v, t) \<Longrightarrow> within left n s \<Longrightarrow> within left n t"
  by (auto simp: refill_def Let_def split: if_splits prod.splits intro: within_call)

lemma put_output_halts [halts]:
  assumes "finite_input E left" and "io_bounded E" and "within left k s"
  shows "pair_returns left k (put_output E fo r z s)"
  unfolding put_output_def
  by (rule pair_returns_bind | rule stays_rules | rule write_all_halts [OF assms(1,2)] | assumption | rule assms(3))+

text \<open>Each turn of the decompressor that goes on uses up input.\<close>

lemma inflate_loop_halts:
  fixes s :: "('w, 'z) sysst_scheme"
  assumes "finite_input E left" and "io_bounded E"
  shows "pair_returns left (left (world s)) (inflate_loop E fi fo pending z s)"
proof (induction "left (world s)" arbitrary: pending z s rule: less_induct)
  case less
  obtain q pending' z' t where 1: "refill E fi pending z s = ((q, pending', z'), t)"
    by (metis prod.exhaust)
  have t: "within left (left (world s)) t" using refill_stay [OF assms(1) 1 within_refl] .
  obtain r u where 2: "syscall E (Zlib (inflate pending' INSTALL_IO_BUFFER)) t = (r, u)" by fastforce
  have u: "within left (left (world s)) u" using within_call [OF assms(1) 2 t] .
  obtain e z2 v where 3: "put_output E fo r z' u = Some ((e, z2), v)" "within left (left (world u)) v"
    using pair_returnsD [OF put_output_halts [OF assms within_refl [of left u], of fo r z']] by (metis prod.exhaust)
  have v: "within left (left (world s)) v" using 3(2) u by (simp add: within_def)
  have goes: "pair_returns left (left (world s)) (inflate_loop E fi fo (inflate_rest pending' r) z2 v)" if "rc r = 0"
  proof -
    have "left (world u) < left (world t)" using input_falls [OF assms(1) 2] that by simp
    then have "left (world v) < left (world s)" using 3(2) t by (simp add: within_def)
    then show ?thesis by (intro pair_returns_mono [OF less.hyps]) simp_all
  qed
  have eq: "inflate_loop E fi fo pending z s = (if neg q then Some ((q, z'), t) else if neg e then Some ((e, z2), v)
      else if rc r = Z_STREAM_END then Some ((e, z2), v)
      else if rc r \<noteq> Z_OK \<or> (inflate_produced r = 0 \<and> inflate_rest pending' r = [] \<and> compressed_left z2 = 0)
      then Some ((INSTALL_ERROR_ARCHIVE, z2), v) else inflate_loop E fi fo (inflate_rest pending' r) z2 v)"
    unfolding inflate_loop.simps [of E fi fo pending z s] by (simp only: 1 2 3(1) prod.case Let_def bind.bind_lunit)
  show ?case unfolding eq by (rule stays_rules | rule goes | rule t v | (simp; fail))+
qed

lemma inflate_data_halts:
  assumes "finite_input E left" and "io_bounded E" and "within left k s"
  shows "pair_returns left k (inflate_data E fi fo z s)"
proof -
  have loop: "within left k t \<Longrightarrow> pair_returns left k (inflate_loop E fi fo p y t)" for p y and t :: "('a, 'b) sysst_scheme"
    by (rule pair_returns_mono [OF inflate_loop_halts [OF assms(1,2)]]) (simp add: within_def)
  show ?thesis unfolding inflate_data_def
    by (rule pair_returns_bind [OF loop] | rule stays_rules | (rule stay_pulls, rule assms(1), assumption) | assumption | rule assms(3))+
qed

lemma unpack_data_halts [halts]:
  assumes "finite_input E left" and "io_bounded E" and "within left k s"
  shows "pair_returns left k (unpack_data E fi fo cs us m s)"
  unfolding unpack_data_def
  by (rule stays_rules | rule stored_loop_halts [OF assms(1,2)] inflate_data_halts [OF assms(1,2)] | rule assms(3))+

lemma finish_member_halts [halts]:
  assumes "finite_input E left" and "within left k s"
  shows "pair_returns left k (finish_member E a b fo d r s)"
  unfolding finish_member_def
  by (rule stays_rules | (rule stay_pulls, rule assms(1), assumption) | rule assms(2))+

lemma extract_zip_data_halts [halts]:
  assumes "finite_input E left" and "io_bounded E" and "within left k s"
  shows "pair_returns left k (extract_zip_data E fi at cs us m crc d s)"
  unfolding extract_zip_data_def
  by (rule pair_returns_bind [OF unpack_data_halts [OF assms(1,2)]] | rule finish_member_halts [OF assms(1)] | rule stays_rules
      | (rule stay_pulls, rule assms(1), assumption) | assumption | rule assms(3))+

section \<open>The archive\<close>

lemma read_at_length: "read_at E fd p n s = Some ((e, b), t) \<Longrightarrow> length b = unat n"
  using read_at_meets [of s n E fd p] by (auto simp: leaves_def)

lemma find_central_directory_halts [halts]:
  assumes "finite_input E left" and "io_bounded E" and "within left k s" and "22 \<le> sint m"
  shows "pair_returns left k (find_central_directory E fd m s)"
proof -
  let ?n = "tail_size m"
  have tail: "\<exists>x. (if neg e then Some (Inl e) else scan_tail b m (unat (?n - 22))) = Some x" if "length b = unat ?n" for b e
  proof -
    have "22 \<le> unat ?n" by (rule tail_size_bounds [OF assms(4)])
    then have "unat (?n - 22) + 22 \<le> length b" using that by (simp add: unat_sub word_le_nat_alt)
    then show ?thesis using scan_tail_ok [of "unat (?n - 22)" b m] by auto
  qed
  show ?thesis unfolding find_central_directory_def
    by (rule pair_returns_bind [OF read_at_halts [OF assms(1,2)]] | rule stays_rules | rule pair_returns_pure [OF tail]
        | (rule stay_pulls, rule assms(1), assumption) | assumption | rule assms(3) | (hypsubst, rule read_at_length, assumption))+
qed

lemma extract_file_halts:
  assumes "finite_input E left" and "io_bounded E" and "within left k s"
  shows "pair_returns left k (extract_file E fd m c d s)"
proof -
  have reads: "\<exists>v. read_le32 b i = Some v" if "length b = unat (30 :: u32)" "i < 27" for b i
    using that by (intro read_le_ok) simp
  have reads16: "\<exists>v. read_le16 b i = Some v" if "length b = unat (30 :: u32)" "i < 29" for b i
    using that by (intro read_le_ok) simp
  show ?thesis unfolding extract_file_def
    by (rule pair_returns_bind [OF read_at_halts [OF assms(1,2)]] | rule stays_rules | rule pair_returns_pure [OF reads] pair_returns_pure [OF reads16]
        | rule extract_zip_data_halts [OF assms(1,2)] | assumption | rule assms(3) | (hypsubst, rule read_at_length, assumption) | (simp; fail))+
qed

lemma extract_member_halts:
  assumes "finite_input E left" and "io_bounded E" and "within left k s"
  shows "pair_returns left k (extract_member E fd m c name s)"
  unfolding extract_member_def
  by (rule stays_rules | rule pair_returns_Some [OF ensure_directory_stays [OF assms(1)]]
      | rule extract_file_halts [OF assms(1,2)] | rule assms(3))+

lemma central_header_ok: "46 \<le> length b \<Longrightarrow> \<exists>c. central_header b = Some c"
  using read_le_ok(1) [of 8 b] read_le_ok(1) [of 10 b] read_le_ok(2) [of 16 b] read_le_ok(2) [of 20 b] read_le_ok(2) [of 24 b]
    read_le_ok(1) [of 28 b] read_le_ok(1) [of 30 b] read_le_ok(1) [of 32 b] read_le_ok(1) [of 34 b] read_le_ok(2) [of 38 b] read_le_ok(2) [of 42 b]
  by (auto simp: central_header_def)

lemma extract_entry_halts:
  assumes "finite_input E left" and "io_bounded E" and "within left k s"
  shows "pair_returns left k (extract_entry E fd m cursor amount s)"
proof -
  have signature: "\<exists>v. read_le32 b 0 = Some v" if "length b = unat (46 :: u32)" for b using that by (intro read_le_ok) simp
  have header: "\<exists>v. central_header b = Some v" if "length b = unat (46 :: u32)" for b using that by (intro central_header_ok) simp
  show ?thesis unfolding extract_entry_def
    by (rule pair_returns_bind [OF read_at_halts [OF assms(1,2)]] pair_returns_bind [OF extract_member_halts [OF assms(1,2)]] | rule stays_rules
        | rule pair_returns_pure [OF signature] pair_returns_pure [OF header] | assumption | rule assms(3)
        | (hypsubst, rule read_at_length, assumption))+
qed

lemma extract_entries_halts:
  assumes "finite_input E left" and "io_bounded E"
  shows "within left k s \<Longrightarrow> pair_returns left k (extract_entries E fd m j cursor amount s)"
proof (induction j arbitrary: cursor amount s)
  case 0
  then show ?case by (simp add: pair_returnsI)
next
  case (Suc j)
  show ?case unfolding extract_entries.simps
    by (rule pair_returns_bind [OF extract_entry_halts [OF assms]] | rule stays_rules Suc.IH | assumption | rule Suc.prems)+
qed

lemma extract_vpk_halts:
  assumes "finite_input E left" and "io_bounded E" and "within left k s"
  shows "pair_returns left k (extract_vpk E p s)"
  unfolding extract_vpk_def
  by (rule pair_returns_bind [OF find_central_directory_halts [OF assms(1,2)]] pair_returns_bind | rule extract_entries_halts [OF assms(1,2)]
      | rule stays_rules | (rule stay_pulls, rule assms(1), assumption) | assumption | rule assms(3) | (simp; fail))+

section \<open>The header and the promotion\<close>

lemma read_file_halts:
  assumes "finite_input E left" and "io_bounded E" and "within left k s"
  shows "pair_returns left k (read_file E p s)"
  unfolding read_file_def
  by (rule pair_returns_bind [OF read_loop_halts [OF assms(1,2)]]
      | rule stays_rules | (rule stay_pulls, rule assms(1), assumption) | assumption | rule assms(3))+

lemma write_head_halts:
  assumes "finite_input E left" and "within left k s"
  shows "pair_returns left k (write_head E h s)"
  unfolding write_head_def
  by (rule stays_rules | (rule stay_pulls, rule assms(1), assumption) | assumption | rule assms(2))+

lemma fill_head_ok: "package_ids sfo = Some (Inr (t, c)) \<Longrightarrow> \<exists>x. fill_head (selected_content_id t c) = Some x"
  using package_ids_ok [of sfo] fill_head_valid by (fastforce simp: ids_ok_def)

lemma make_head_bin_halts:
  assumes "finite_input E left" and "io_bounded E" and "within left k s"
  shows "pair_returns left k (make_head_bin E m s)"
proof -
  have ids: "\<exists>x. package_ids b = Some x" for b using package_ids_ok by blast
  show ?thesis unfolding make_head_bin_def
    by (rule pair_returns_bind [OF read_file_halts [OF assms(1,2)]] pair_returns_pure [OF ids] | rule stays_rules
        | (rule pair_returns_pure, hypsubst, rule fill_head_ok, assumption) | rule pair_returns_bind | rule write_head_halts [OF assms(1)]
        | (rule stay_pulls, rule assms(1), assumption) | assumption | rule assms(3))+
qed

lemma promote_package_halts:
  assumes "finite_input E left" and "within left k s"
  shows "pair_returns left k (promote_package E s)"
  unfolding promote_package_def
  by (rule stays_rules | (rule stay_pulls, rule assms(1), assumption) | assumption | rule assms(2))+

lemma promote_stage_halts:
  assumes "finite_input E left" and "within left k s"
  shows "pair_returns left k (promote_stage E s)"
  unfolding promote_stage_def
  by (rule pair_returns_bind [OF promote_package_halts [OF assms(1)]] | rule stays_rules
      | (rule stay_pulls, rule assms(1), assumption) | assumption | rule assms(2))+

lemma install_vpk_halts:
  assumes "finite_input E left" and "io_bounded E" and "within left k s"
  shows "pair_returns left k (install_vpk E p m s)"
  unfolding install_vpk_def
  by (rule pair_returns_bind [OF remove_tree_halts [OF assms(1)]] pair_returns_bind
      | rule extract_vpk_halts [OF assms(1,2)] make_head_bin_halts [OF assms(1,2)] promote_stage_halts [OF assms(1)]
      | rule stays_rules | (rule stay_pulls, rule assms(1), assumption) | assumption | rule assms(3))+

section \<open>The property\<close>


text \<open>The scripted installation of \<open>install_is_confined_witness\<close> on a system whose reads and writes keep the bound.\<close>

definition bounded_env :: "ret list env" where
  "bounded_env = install_env\<lparr>sys := (\<lambda>c w. let (r, w) = sys script_env c w
     in (case c of Io (sceIoRead fd n) \<Rightarrow> (if rc r \<le> n then r else answer (- 1), w)
         | Io (sceIoWrite fd bs) \<Rightarrow> (if unat (rc r) \<le> length bs then r else answer (- 1), w)
         | _ \<Rightarrow> (r, w)))\<rparr>"

lemma bounded_env_input: "finite_input bounded_env length"
  unfolding finite_input_def
proof (intro allI)
  fix c w
  show "length (snd (sys bounded_env c w)) \<le> length w \<and>
    (uses_up c (fst (sys bounded_env c w)) \<longrightarrow> length (snd (sys bounded_env c w)) < length w)"
    using script_falls [of c w] uses_up_code [of c "fst (sys script_env c w)"]
    by (auto simp: bounded_env_def split: prod.splits call.splits io_call.splits)
qed

lemma bounded_env_io: "io_bounded bounded_env"
  by (auto simp: io_bounded_def bounded_env_def answer_def split: prod.splits)


end
