(* ===== verification/Cmd_Termination.thy ===== *)
theory Cmd_Termination
  imports Cmd_Properties Package_Termination
begin

text \<open>
  When the thread of the command server ends: it serves each client in finitely many steps, so it ends when the
  clients do.
\<close>

section \<open>What is relied on\<close>

text \<open>Only finitely many clients connect, and a receive or send moves at most what it was asked to move.\<close>

definition finite_clients :: "'w env \<Rightarrow> ('w \<Rightarrow> nat) \<Rightarrow> bool" where
  "finite_clients E left \<longleftrightarrow> (\<forall>fd w. neg (rc (fst (sys E (Net (sceNetAccept fd)) w))) \<or> left (snd (sys E (Net (sceNetAccept fd)) w)) < left w)"

definition recv_bounded :: "'w env \<Rightarrow> bool" where
  "recv_bounded E \<longleftrightarrow> (\<forall>fd n w. 0 < sint (rc (fst (sys E (Net (sceNetRecv fd n)) w))) \<longrightarrow> rc (fst (sys E (Net (sceNetRecv fd n)) w)) \<le> n)"

definition serving :: "'w env \<Rightarrow> ('w \<Rightarrow> nat) \<Rightarrow> bool" where
  "serving E left \<longleftrightarrow> finite_input E left \<and> io_bounded E \<and> recv_bounded E \<and> send_bounded E"

lemma servingD:
  assumes "serving E left"
  shows "finite_input E left" and "io_bounded E"
    and "ask E (Net (sceNetRecv fd n)) s = (r, t) \<Longrightarrow> 0 < sint (rc r) \<Longrightarrow> rc r \<le> n"
    and "ask E (Net (sceNetSend fd bs)) s = (r, t) \<Longrightarrow> 0 < sint (rc r) \<Longrightarrow> unat (rc r) \<le> length bs"
  using assms by (auto simp: serving_def recv_bounded_def send_bounded_def ask_eq syscall_def split: prod.splits) (metis fst_conv)+

section \<open>Steps of the command server\<close>

text \<open>Nothing more is left than \<open>n\<close>.\<close>

definition keeps_within :: "('w \<Rightarrow> nat) \<Rightarrow> nat \<Rightarrow> 'r \<times> 'w plugin \<Rightarrow> bool" where
  "keeps_within left n y \<longleftrightarrow> within left n (ftpd (snd y))"

lemma ask_within: "finite_input E left \<Longrightarrow> ask E c s = (r, t) \<Longrightarrow> within left n (ftpd s) \<Longrightarrow> within left n (ftpd t)"
  using within_call [of E left c "ftpd s"] by (cases "syscall E c (ftpd s)") (auto simp: ask_def)

lemma tell_within: "finite_input E left \<Longrightarrow> within left n (ftpd s) \<Longrightarrow> within left n (ftpd (tell E c s))"
  using ask_within [of E left c s] by (cases "ask E c s") (auto simp: tell_def)

lemma exec_within: "finite_input E left \<Longrightarrow> within left n s \<Longrightarrow> within left n (exec E c s)"
  unfolding exec_def using within_call [of E left c s] by (cases "syscall E c s") simp

lemma guard_within [simp]: "within left n (f\<lparr>reboot_quiesce_requested := g\<rparr>) = within left n f"
  by (simp add: within_def)

lemma keeps_within_rules:
  "within left n (ftpd t) \<Longrightarrow> keeps_within left n (x, t)"
  "(b \<Longrightarrow> keeps_within left n y) \<Longrightarrow> (\<not> b \<Longrightarrow> keeps_within left n z) \<Longrightarrow> keeps_within left n (if b then y else z)"
  "(\<And>v t. m = (v, t) \<Longrightarrow> keeps_within left n (h v t)) \<Longrightarrow> keeps_within left n (case m of (v, t) \<Rightarrow> h v t)"
  "(\<And>v t. m = (v, t) \<Longrightarrow> keeps_within left n (k v t u)) \<Longrightarrow> keeps_within left n ((case m of (v, t) \<Rightarrow> k v t) u)"
  "keeps_within left n (l a) \<Longrightarrow> keeps_within left n (let x = a in l x)"
  by (simp_all add: keeps_within_def split: prod.split)

lemma keeps_withinD: "keeps_within left n m \<Longrightarrow> m = (v, t) \<Longrightarrow> within left n (ftpd t)"
  by (simp add: keeps_within_def)

lemma foreground_within:
  assumes "finite_input E left" and "within left n (ftpd s)"
  shows "keeps_within left n (get_foreground_title_id E b k s)"
  unfolding get_foreground_title_id_def
  by (rule keeps_within_rules | (rule ask_within [OF assms(1)], assumption) | rule assms(2))+

lemma confirm_launch_within:
  assumes "finite_input E left"
  shows "within left n (ftpd s) \<Longrightarrow> keeps_within left n (confirm_launch E title k fg s)"
proof (induction k arbitrary: fg s)
  case 0
  then show ?case by (simp add: keeps_within_def)
next
  case (Suc k)
  show ?case unfolding confirm_launch.simps
    by (rule keeps_within_rules Suc.IH tell_within [OF assms]
        | (rule keeps_withinD [OF foreground_within [OF assms Suc.prems]], assumption))+
qed

named_theorems commands_within \<open>commands read nothing more\<close>

lemma small_commands_within [commands_within]:
  assumes "finite_input E left" and "within left k (ftpd s)"
  shows "keeps_within left k (cmd_kill E args n s)" "keeps_within left k (cmd_destroy E n s)" "keeps_within left k (cmd_foreground E n s)"
    "keeps_within left k (cmd_screen E args n s)" "keeps_within left k (cmd_battery E n s)"
  unfolding cmd_kill_def cmd_destroy_def cmd_foreground_def cmd_screen_def cmd_battery_def
  by (rule keeps_within_rules tell_within [OF assms(1)] | (rule ask_within [OF assms(1)], assumption)
      | (rule keeps_withinD [OF foreground_within [OF assms]], assumption) | rule assms(2))+

lemma launch_within [commands_within]:
  assumes "finite_input E left" and "within left k (ftpd s)"
  shows "keeps_within left k (cmd_launch E args n s)"
  unfolding cmd_launch_def
  by (rule keeps_within_rules | (rule keeps_withinD [OF confirm_launch_within [OF assms(1)], rotated], assumption)
      | (rule ask_within [OF assms(1)], assumption) | rule assms(2))+

lemma prepare_within:
  assumes "finite_input E left" and "within left k s" and "ftpvita_prepare_for_reboot E s = (x, t)"
  shows "within left k t"
proof -
  have "within left k u" if "syscall E c (s\<lparr>reboot_quiesce_requested := g\<rparr>) = (r, u)" for c g r u
    by (rule within_call [OF assms(1) that]) (simp add: assms(2))
  then show ?thesis using assms
    by (auto simp: ftpvita_prepare_for_reboot_def Let_def unlock_list_def exec_within split: prod.splits if_splits)
qed

lemma reboot_within [commands_within]:
  assumes "finite_input E left" and "within left k (ftpd s)"
  shows "keeps_within left k (cmd_reboot E n s)"
proof -
  have prepared: "within left k (ftpd (s\<lparr>ftpd := f\<rparr>))" if "ftpvita_prepare_for_reboot E (ftpd s) = (x, f)" for x f
    using prepare_within [OF assms that] by simp
  have cancelled: "within left k (ftpd u) \<Longrightarrow> within left k (ftpd (u\<lparr>ftpd := ftpvita_cancel_reboot (ftpd u)\<rparr>))" for u
    by (simp add: ftpvita_cancel_reboot_def)
  show ?thesis unfolding cmd_reboot_def
    by (rule keeps_within_rules cancelled | (rule ask_within [OF assms(1)], assumption) | (rule prepared, assumption))+
qed

lemma screenshot_within [commands_within]:
  assumes "finite_input E left" and "within left k (ftpd s)"
  shows "keeps_within left k (cmd_screenshot E n s)"
proof -
  have "within left k (ftpd (init_shellshot E s))"
    using assms by (auto simp: init_shellshot_def module_get_offset_def Let_def tell_within dest!: ask_tellD split: prod.splits option.splits if_splits)
  then show ?thesis unfolding cmd_screenshot_def
    by - (rule keeps_within_rules | (rule ask_within [OF assms(1)], assumption) | assumption)+
qed

lemma abort_loop_within:
  assumes "finite_input E left" and "abort_loop E p n t = Some (r, u)"
  shows "within left k t \<Longrightarrow> within left k u"
proof -
  have "within left k t \<longrightarrow> within left k (snd (r, u))" if "finite_input E left"
    using that
  proof (rule abort_loop.raw_induct [where P = "\<lambda>E p n t y. finite_input E left \<longrightarrow> within left k t \<longrightarrow> within left k (snd y)", OF _ assms(2), THEN mp, rotated])
    fix f and E :: "'a env" and p n t y
    assume IH: "\<And>E p n t y. f E p n t = Some y \<Longrightarrow> finite_input E left \<longrightarrow> within left k t \<longrightarrow> within left k (snd y)"
      and eq: "(if p = 0 then Some (n, t) else case client_heap t p of None \<Rightarrow> None
        | Some c \<Rightarrow> f E (next_client c) (n + 1)
            (abort_socket E (pasv_sockfd c) (abort_socket E (data_sockfd c) (abort_socket E (ctrl_sockfd c) t)))) = Some y"
    show "finite_input E left \<longrightarrow> within left k t \<longrightarrow> within left k (snd y)"
      using eq IH by (auto simp: abort_socket_def exec_within split: if_splits option.splits)
  qed
  with assms(1) show "within left k t \<Longrightarrow> within left k u" by simp
qed

text \<open>What an operation on a request returns.\<close>

definition plugin_returns :: "('w \<Rightarrow> nat) \<Rightarrow> nat \<Rightarrow> ('r \<times> 'w plugin) option \<Rightarrow> bool" where
  "plugin_returns left n m \<longleftrightarrow> (\<exists>y. m = Some y \<and> keeps_within left n y)"

lemma ftpreset_returns:
  assumes "finite_input E left" and "within left k (ftpd s)" and "registry (ftpd s) ps"
  shows "plugin_returns left k (cmd_ftpreset E n s)"
proof -
  obtain r u where run: "ftpvita_abort_clients E (ftpd s) = Some (r, u)" using ftpvita_abort_clients_eq [OF assms(3)] by blast
  have "within left k u" using run assms(2)
    by (auto simp: ftpvita_abort_clients_def Option.bind_eq_Some_conv Let_def unlock_list_def split: if_splits prod.splits
        intro!: exec_within [OF assms(1)] intro: abort_loop_within [OF assms(1)] within_call [OF assms(1)])
  with run show ?thesis by (simp add: plugin_returns_def cmd_ftpreset_def keeps_within_def Let_def)
qed

lemma install_returns:
  assumes "finite_input E left" and "io_bounded E" and "within left k (ftpd s)"
  shows "plugin_returns left k (cmd_install E args n s)"
  using install_vpk_halts [OF assms, of "Some (args ! 1)" 12]
  by (auto simp: pair_returns_def plugin_returns_def cmd_install_def keeps_within_def)

lemma execute_returns:
  assumes "finite_input E left" and "io_bounded E" and "within left k (ftpd s)" and "registry (ftpd s) ps"
  shows "plugin_returns left k (execute E c ws [] n s)"
proof -
  have some: "plugin_returns left k (Some y)" if "keeps_within left k y" for y :: "string \<times> 'a plugin"
    using that by (simp add: plugin_returns_def)
  show ?thesis
    using ftpreset_returns [OF assms(1,3,4)] install_returns [OF assms(1-3)] commands_within [OF assms(1,3)] assms(3)
    by (cases c) (auto simp: execute_def intro!: some keeps_within_rules(1))
qed

lemma handle_returns:
  assumes "finite_input E left" and "io_bounded E" and "within left k (ftpd s)" and "registry (ftpd s) ps"
  shows "plugin_returns left k (cmd_handle E cmd (length cmd) [] n s)"
proof -
  have "plugin_returns left k (Some (m, s))" for m :: string using assms(3) by (simp add: plugin_returns_def keeps_within_def)
  then show ?thesis using execute_returns [OF assms]
    by (auto simp: cmd_handle_words run_words_def split: list.split option.split)
qed

section \<open>A client\<close>

lemma beside_registry: "beside s t \<Longrightarrow> registry (ftpd s) ps \<Longrightarrow> registry (ftpd t) ps"
  using ftp_core_same(1) [of "ftpd t" "ftpd s" ps] by (simp add: beside_def)

lemma configure_within:
  assumes "finite_input E left" and "within left k (ftpd s)"
  shows "keeps_within left k (configure_cmd_io_timeout E fd s)"
  unfolding configure_cmd_io_timeout_def
  by (rule keeps_within_rules | (rule ask_within [OF assms(1)], assumption) | rule assms(2))+

lemma receive_loop_returns:
  assumes "serving E left" and "n \<le> CMD_REQUEST_BYTES"
  shows "within left k (ftpd s) \<Longrightarrow> plugin_returns left k (receive_loop E fd n cmd s)"
proof (induction "n - length cmd" arbitrary: cmd s rule: less_induct)
  case less
  let ?k = "word_of_nat (n - length cmd) :: u32"
  obtain r t where a: "ask E (Net (sceNetRecv fd ?k)) s = (r, t)" by fastforce
  have t: "within left k (ftpd t)" using ask_within [OF servingD(1) [OF assms(1)] a less.prems] .
  have k: "unat ?k = n - length cmd" using assms(2) by (simp add: unat_of_nat)
  have fits: "unat (rc r) \<le> n - length cmd" "0 < unat (rc r)" if "\<not> neg (rc r)" "rc r \<noteq> 0"
  proof -
    have pos: "0 < sint (rc r)" using that by (metis less_linear signed_eq_0_iff)
    then show "unat (rc r) \<le> n - length cmd" using servingD(3) [OF assms(1) a] k by (simp add: word_le_nat_alt)
    show "0 < unat (rc r)" using pos by (rule sint_pos_unat)
  qed
  have IH: "plugin_returns left k (receive_loop E fd n (cmd @ map (mem r) [0 ..< unat (rc r)]) t)"
    if "\<not> neg (rc r)" "rc r \<noteq> 0" "length cmd < n"
    by (rule less.hyps [OF _ t]) (use fits [OF that(1,2)] that(3) in simp)
  show ?case
  proof (cases "neg (rc r) \<or> rc r = 0")
    case True
    with less.prems t a show ?thesis by (subst receive_loop.simps) (auto simp: plugin_returns_def keeps_within_def)
  next
    case False
    then have "\<not> n - length cmd < unat (rc r)" using fits(1) by (simp add: not_less)
    with False less.prems t a IH show ?thesis by (subst receive_loop.simps) (auto simp: plugin_returns_def keeps_within_def Let_def)
  qed
qed

lemma send_response_returns:
  assumes "serving E left"
  shows "within left k (ftpd s) \<Longrightarrow> \<exists>t. send_response E fd m s = Some t \<and> within left k (ftpd t)"
proof (induction "length m" arbitrary: m s rule: less_induct)
  case less
  obtain r t where a: "ask E (Net (sceNetSend fd m)) s = (r, t)" by fastforce
  have t: "within left k (ftpd t)" using ask_within [OF servingD(1) [OF assms] a less.prems] .
  have IH: "\<exists>u. send_response E fd (drop (unat (rc r)) m) t = Some u \<and> within left k (ftpd u)" if "0 < sint (rc r)" "m \<noteq> []"
    by (rule less.hyps [OF _ t]) (use sint_pos_unat [OF that(1)] that(2) in simp)
  show ?case
    using less.prems t a IH servingD(4) [OF assms a] by (subst send_response.simps) (auto simp: not_le)
qed

lemma receive_command_returns:
  assumes "serving E left" and "within left k (ftpd s)"
  shows "\<exists>received too_long cmd t. receive_command E fd CMD_REQUEST_BYTES s = Some ((received, too_long, cmd), t) \<and> within left k (ftpd t) \<and>
    undisturbed s t \<and> (0 < sint received \<longrightarrow> unat received = length cmd)"
proof -
  obtain x t where x: "receive_loop E fd CMD_REQUEST_BYTES [] s = Some (x, t)" "within left k (ftpd t)"
    using receive_loop_returns [OF assms(1) _ assms(2), of CMD_REQUEST_BYTES fd "[]"] by (auto simp: plugin_returns_def keeps_within_def)
  have u: "undisturbed s t" using receive_loop_undisturbed [OF x(1)] by simp
  show ?thesis
  proof (cases x)
    case (Inl e)
    then show ?thesis using x u receive_loop_error [of E fd CMD_REQUEST_BYTES "[]" s e t]
      by (auto simp: receive_command_def intro: exI [of _ False])
  next
    case (Inr cmd)
    then show ?thesis using x u request_size receive_loop_bounded [of E fd CMD_REQUEST_BYTES "[]" s cmd t]
      by (simp add: receive_command_def)
  qed
qed

lemma client_response_returns:
  assumes "serving E left" and "within left k (ftpd s)" and "registry (ftpd s) ps"
  shows "plugin_returns left k (client_response E fd s)"
proof -
  obtain ret s1 where 1: "configure_cmd_io_timeout E fd s = (ret, s1)" by fastforce
  have s1: "within left k (ftpd s1)" using keeps_withinD [OF configure_within [OF servingD(1) [OF assms(1)] assms(2)] 1] .
  obtain received too_long cmd s2 where 2: "receive_command E fd CMD_REQUEST_BYTES s1 = Some ((received, too_long, cmd), s2)"
    and s2: "within left k (ftpd s2)" "undisturbed s1 s2" and size: "0 < sint received \<Longrightarrow> unat received = length cmd"
    using receive_command_returns [OF assms(1) s1] by blast
  have "undisturbed s s2" using configure_undisturbed [OF 1] s2(2) undisturbed_trans by blast
  then have "registry (ftpd s2) ps" using beside_registry [OF undisturbed_beside] assms(3) by blast
  then have "plugin_returns left k (cmd_handle E cmd (length cmd) [] CMD_RESPONSE_BYTES s2)"
    using handle_returns servingD(1,2) [OF assms(1)] s2(1) by blast
  with 1 2 s1 s2(1) size show ?thesis
    by (auto simp: client_response_def plugin_returns_def keeps_within_def)
qed

lemma serve_client_returns:
  assumes "serving E left" and "within left k (ftpd s)" and "registry (ftpd s) ps"
  shows "\<exists>t. serve_client E fd s = Some t \<and> within left k (ftpd t)"
proof -
  obtain m u where 1: "client_response E fd (set_active fd s) = Some (m, u)" "within left k (ftpd u)"
    using client_response_returns [OF assms(1), of k "set_active fd s" ps fd] assms(2,3)
    by (auto simp: set_active_def plugin_returns_def keeps_within_def)
  obtain v where 2: "send_response E fd (if m = [] then snprintf CMD_RESPONSE_BYTES (''Error: Empty response.'' @ [LF]) else m) u = Some v"
    "within left k (ftpd v)" using send_response_returns [OF assms(1) 1(2)] by blast
  have "within left k (ftpd (close_active E v))"
    using 2(2) by (simp add: close_socket_slot_def set_active_def Let_def tell_within [OF servingD(1) [OF assms(1)]])
  with 1 2 show ?thesis by (simp add: serve_client_def Let_def)
qed

section \<open>The thread\<close>

lemma cmd_loop_returns:
  assumes "serving E left" and "finite_clients E left" and "names_ok E"
  shows "registry (ftpd s) ps \<Longrightarrow> neg (active_client_sockfd s) \<Longrightarrow> \<exists>t. cmd_loop E s = Some t"
proof (induction "left (world (ftpd s))" arbitrary: s rule: less_induct)
  case less
  let ?accept = "Net (sceNetAccept (loader_sockfd s))"
  obtain r u where a: "ask E ?accept s = (r, u)" by fastforce
  show ?case
  proof (cases "run s \<and> net_connected s \<and> \<not> neg (rc r)")
    case False
    with a show ?thesis by (subst cmd_loop.simps) auto
  next
    case True
    have fall: "left (world (ftpd u)) < left (world (ftpd s))"
      using a True assms(2) by (auto simp: finite_clients_def ask_eq syscall_def split: prod.splits) (metis fst_conv snd_conv)
    have "ftp_core (ftpd u) = ftp_core (ftpd s)" by (simp add: ask_tellD [OF a])
    then have "registry (ftpd u) ps" using less.prems(1) ftp_core_same(1) by blast
    then obtain v where v: "serve_client E (rc r) u = Some v" "within left (left (world (ftpd u))) (ftpd v)"
      using serve_client_returns [OF assms(1) within_refl] by blast
    have "loader_ok s v" using cmd_turn_ok [OF _ less.prems(1) assms(3) a _ v(1)] True less.prems(2) by (simp add: loader_ok_def)
    then have "registry (ftpd v) ps" "neg (active_client_sockfd v)" using less.prems(1) beside_registry by (auto simp: loader_ok_def)
    moreover have "left (world (ftpd v)) < left (world (ftpd s))" using v(2) fall by (simp add: within_def)
    ultimately obtain t where "cmd_loop E v = Some t" using less.hyps by blast
    with a True v(1) show ?thesis by (subst cmd_loop.simps) simp
  qed
qed

text \<open>C12: the command server ends. While the client list of the FTP server is well formed, directories list proper names, only
  finitely many clients connect and directories are finite, and no call claims to have moved more bytes than it was asked to, the
  thread returns, whatever its clients send (installations included) and whichever calls fail: each request is received, run and
  answered in finitely many steps without an access outside of a buffer, and the thread leaves with its sockets closed and its
  start reported.\<close>

theorem cmd_thread_ends:
  assumes "registry (ftpd s) ps" and "names_ok E" and "neg (loader_sockfd s)" and "neg (active_client_sockfd s)"
    and "finite_input E left" and "finite_clients E left" and "io_bounded E" and "recv_bounded E" and "send_bounded E"
  shows "\<exists>t. cmd_thread E s = Some t \<and> loader_sockfd t = - 1 \<and> active_client_sockfd t = - 1 \<and> loader_start_status t \<noteq> CMD_START_PENDING"
proof -
  have l: "serving E left" using assms(5,7-9) by (simp add: serving_def)
  obtain ok u where 1: "cmd_listen E s = (ok, u)" by fastforce
  have u: "beside s u" "neg (active_client_sockfd u)" using cmd_listen_ok [OF assms(3) 1] assms(4) by simp_all
  then have "registry (ftpd u) ps" using beside_registry assms(1) by blast
  then obtain v where "cmd_loop E u = Some v" using cmd_loop_returns [OF l assms(6,2) _ u(2)] by blast
  then obtain t where t: "cmd_thread E s = Some t" using 1 by (cases ok) (auto simp: cmd_thread_def)
  with cmd_thread_ok [OF assms(1-4) t] show ?thesis by blast
qed

text \<open>A system with an end, on which the sends go through and nothing claims too much; one client asks for the version.\<close>

definition serving_env :: "ret list env" where
  "serving_env = bounded_env\<lparr>sys := (\<lambda>c w. case c of Net (sceNetSend fd bs) \<Rightarrow> (answer (word_of_nat (length bs)), w)
     | Net (sceNetRecv fd n) \<Rightarrow> (let (r, w) = sys script_env c w in (if rc r \<le> n then r else answer (- 1), w))
     | Io (sceIoDread d) \<Rightarrow> (answer 0, w) | _ \<Rightarrow> sys bounded_env c w)\<rparr>"

lemma bounded_env_code: "rc (fst (sys bounded_env c w)) \<noteq> - 1 \<Longrightarrow> length (snd (sys bounded_env c w)) < length w"
  using script_falls [of c w] by (auto simp: bounded_env_def answer_def split: prod.splits call.splits io_call.splits if_splits)

lemma serving_env_input: "finite_input serving_env length"
  unfolding finite_input_def
proof (intro allI)
  fix c w
  show "length (snd (sys serving_env c w)) \<le> length w \<and>
    (uses_up c (fst (sys serving_env c w)) \<longrightarrow> length (snd (sys serving_env c w)) < length w)"
    using bounded_env_input [unfolded finite_input_def] script_falls [of c w] uses_up_code [of c "fst (sys script_env c w)"]
    by (auto simp: serving_env_def split: prod.splits call.splits io_call.splits net_call.splits)
qed

lemma serving_env_bounds:
  "finite_clients serving_env length" "io_bounded serving_env" "recv_bounded serving_env" "send_bounded serving_env" "names_ok serving_env"
proof -
  have "neg (rc (fst (sys serving_env (Net (sceNetAccept fd)) w))) \<or> length (snd (sys serving_env (Net (sceNetAccept fd)) w)) < length w"
    for fd w using bounded_env_code [of "Net (sceNetAccept fd)" w]
    by (cases "rc (fst (sys bounded_env (Net (sceNetAccept fd)) w)) = - 1") (simp_all add: serving_env_def)
  then show "finite_clients serving_env length" by (simp add: finite_clients_def)
  show "io_bounded serving_env" using bounded_env_io by (simp add: io_bounded_def serving_env_def)
  show "recv_bounded serving_env" by (auto simp: recv_bounded_def serving_env_def answer_def split: prod.splits)
  show "send_bounded serving_env" by (simp add: send_bounded_def serving_env_def answer_def unat_of_nat)
  show "names_ok serving_env" by (simp add: names_ok_def serving_env_def answer_def)
qed

theorem cmd_thread_ends_witness:
  "\<exists>t. cmd_thread serving_env (companion ([answer 5, answer 0, answer 0, answer 9] @ version_session)) = Some t \<and> loader_sockfd t = - 1"
proof -
  let ?s = "companion ([answer 5, answer 0, answer 0, answer 9] @ version_session)"
  have "neg (loader_sockfd ?s)" "neg (active_client_sockfd ?s)" by (simp_all add: companion_def)
  then show ?thesis
    using cmd_thread_ends [OF companion_registry serving_env_bounds(5) _ _ serving_env_input serving_env_bounds(1-4), of "[answer 5, answer 0, answer 0, answer 9] @ version_session"]
    by blast
qed

end
