(* ===== verification/Ftp_Threads.thy ===== *)
theory Ftp_Threads
  imports Ftp_Lifecycle
begin

text \<open>
  The steps of the FTP server's threads, also after a shutdown: \<open>ftpvita_fini\<close> takes the clients off the list and waits
  for their threads, which then leave on their own. So a record may be in the heap without being in the list (it is
  \<^emph>\<open>detached\<close>); such a client still owns its sockets and its memory, but no longer its thread.
\<close>

section \<open>Listed and detached clients\<close>

definition client_owned :: "u32 \<Rightarrow> ftpvita_client_info option \<Rightarrow> resource \<Rightarrow> int" where
  "client_owned p r x = (case r of None \<Rightarrow> 0
     | Some c \<Rightarrow> held c x + of_bool (x = Mem p) + of_bool (in_client_list c \<and> x = Thread (thid c)))"

definition clients_owned :: "'w ftp \<Rightarrow> resource \<Rightarrow> int" where
  "clients_owned f x = (\<Sum>p \<in> dom (client_heap f). client_owned p (client_heap f p) x)"

definition heap_ok :: "'w env \<Rightarrow> 'w ftp \<Rightarrow> bool" where
  "heap_ok E s \<longleftrightarrow> finite (dom (client_heap s)) \<and> (\<exists>ps. registry s ps) \<and> (\<forall>p c. client_heap s p = Some c \<longrightarrow> client_ok E c)"

lemma heap_okD: "heap_ok E s \<Longrightarrow> client_heap s p = Some c \<Longrightarrow> client_ok E c"
  by (auto simp: heap_ok_def)

lemma client_owned_None [simp]: "client_owned p None x = 0"
  by (simp add: client_owned_def)

lemma client_owned_listed: "registry s ps \<Longrightarrow> client_heap s p = Some c \<Longrightarrow> p \<in> set ps \<Longrightarrow> client_owned p (Some c) x = owned p (Some c) x"
  using registry_in [of s ps p c] by (simp add: client_owned_def owned_def)

text \<open>A record that keeps its core and its place owns the same.\<close>

lemma client_owned_same:
  assumes "registry s ps" and "registry t ps'" and "map_option core (client_heap t q) = map_option core (client_heap s q)"
    and "q \<in> set ps' \<longleftrightarrow> q \<in> set ps"
  shows "client_owned q (client_heap t q) x = client_owned q (client_heap s q) x"
proof (cases "client_heap s q")
  case (Some c)
  then obtain d where d: "client_heap t q = Some d" "core d = core c" using assms(3) by auto
  then have "in_client_list d = in_client_list c"
    using registry_in [OF assms(1) Some] registry_in [OF assms(2) d(1)] assms(4) by simp
  then show ?thesis using Some d core_projections [OF d(2)] by (simp add: client_owned_def)
qed (use assms(3) in simp)

lemma sum_changed:
  fixes f g :: "'a \<Rightarrow> int"
  assumes "finite A" and "finite B" and "\<And>q. q \<notin> A \<Longrightarrow> f q = 0" and "\<And>q. q \<notin> B \<Longrightarrow> g q = 0" and "\<And>q. q \<noteq> p \<Longrightarrow> g q = f q"
  shows "sum g B = sum f A + g p - f p"
proof -
  let ?D = "insert p (A \<union> B)"
  have fin: "finite ?D" using assms(1,2) by simp
  have "sum f A = sum f ?D" "sum g B = sum g ?D"
    by (rule sum.mono_neutral_left; use fin assms(3,4) in auto)+
  moreover have "sum g (?D - {p}) = sum f (?D - {p})" by (rule sum.cong) (use assms(5) in auto)
  ultimately show ?thesis using fin by (simp add: sum.remove [of ?D p])
qed

text \<open>A step changes one record.\<close>

lemma clients_changed:
  assumes "heap_ok E s" and "registry s ps" and "registry t ps'"
    and "\<And>q. q \<noteq> p \<Longrightarrow> map_option core (client_heap t q) = map_option core (client_heap s q)"
    and "\<And>q. q \<noteq> p \<Longrightarrow> q \<in> set ps' \<longleftrightarrow> q \<in> set ps" and "\<And>c. client_heap t p = Some c \<Longrightarrow> client_ok E c"
  shows "heap_ok E t" and "clients_owned t x = clients_owned s x + client_owned p (client_heap t p) x - client_owned p (client_heap s p) x"
proof -
  have fin: "finite (dom (client_heap s))" using assms(1) by (simp add: heap_ok_def)
  have dom: "dom (client_heap t) \<subseteq> insert p (dom (client_heap s))"
  proof
    fix q
    assume "q \<in> dom (client_heap t)"
    then show "q \<in> insert p (dom (client_heap s))" using assms(4) [of q] by (cases "q = p"; cases "client_heap s q") auto
  qed
  have fin': "finite (dom (client_heap t))" by (rule finite_subset [OF dom]) (simp add: fin)
  have ok: "client_ok E d" if rec: "client_heap t q = Some d" for q d
  proof (cases "q = p")
    case False
    then obtain c where "client_heap s q = Some c" "core d = core c" using assms(4) [OF False] rec by (cases "client_heap s q") auto
    with heap_okD [OF assms(1)] core_projections(3) show ?thesis by metis
  qed (use assms(6) rec in simp)
  have same: "client_owned q (client_heap t q) x = client_owned q (client_heap s q) x" if "q \<noteq> p" for q
    using client_owned_same [OF assms(2,3)] assms(4,5) that by blast
  from ok fin' assms(3) show "heap_ok E t" by (auto simp: heap_ok_def)
  show "clients_owned t x = clients_owned s x + client_owned p (client_heap t p) x - client_owned p (client_heap s p) x"
    unfolding clients_owned_def
    by (rule sum_changed [OF fin fin']) (simp_all add: domIff same)
qed

text \<open>What a step of the FTP server keeps: the records, the accounts, and a list that grows by new records only.\<close>

definition unaccounted_for :: "'w ftp \<Rightarrow> resource \<Rightarrow> int" where
  "unaccounted_for s x = balance (trace s) x - clients_owned s x"

definition step_ok :: "'w env \<Rightarrow> 'w ftp \<Rightarrow> 'w ftp \<Rightarrow> bool" where
  "step_ok E s t \<longleftrightarrow> heap_ok E t \<and> (\<forall>x. unaccounted_for t x = unaccounted_for s x) \<and>
     (\<forall>ps. registry s ps \<longrightarrow> (\<exists>ps'. registry t ps' \<and> set ps' \<subseteq> set ps \<union> (dom (client_heap t) - dom (client_heap s))))"

lemma step_ok_quiet:
  assumes "heap_ok E s" and "client_heap t = client_heap s" and "registry t = registry s" and "\<And>x. balance (trace t) x = balance (trace s) x"
  shows "step_ok E s t"
  using assms by (auto simp: step_ok_def heap_ok_def unaccounted_for_def clients_owned_def)

lemma step_ok_trans:
  assumes "step_ok E s t" and "step_ok E t u" and "dom (client_heap t) = dom (client_heap s)"
  shows "step_ok E s u"
proof -
  have "\<exists>ps''. registry u ps'' \<and> set ps'' \<subseteq> set ps \<union> (dom (client_heap u) - dom (client_heap s))" if reg: "registry s ps" for ps
  proof -
    obtain ps' where ps': "registry t ps'" "set ps' \<subseteq> set ps"
      using assms(1) reg unfolding step_ok_def assms(3) Diff_cancel Un_empty_right by blast
    obtain ps'' where "registry u ps''" "set ps'' \<subseteq> set ps' \<union> (dom (client_heap u) - dom (client_heap t))"
      using assms(2) ps'(1) unfolding step_ok_def by blast
    with ps'(2) assms(3) show ?thesis by blast
  qed
  with assms(1,2) show ?thesis by (simp add: step_ok_def)
qed

section \<open>A command\<close>

lemma turn_step_ok:
  assumes ok: "heap_ok E s" and c: "client_heap s p = Some c" and path: "514 \<le> PATH_MAX E" and cust: "custom_ok E custom"
    and run: "client_turn E custom (s\<lparr>cl := c\<rparr>) = Some y"
  shows "step_ok E s (write_back p (turn_end y)) \<and> dom (client_heap (write_back p (turn_end y))) = dom (client_heap s)"
proof -
  let ?t = "turn_end y"
  have "client_ok E (cl (s\<lparr>cl := c\<rparr>))" using heap_okD [OF ok c] by simp
  from client_turn_ends [OF this path cust run] have t: "client_heap ?t = client_heap s" "client_list ?t = client_list s"
    "number_clients ?t = number_clients s" "ident (cl ?t) = ident c" "client_ok E (cl ?t)"
    "\<And>x. balance (trace ?t) x - held (cl ?t) x = balance (trace s) x - held c x"
    by (auto simp: ends_def owes_def same_server_def command_post_def unaccounted_def)
  let ?u = "write_back p ?t"
  have others: "q \<noteq> p \<Longrightarrow> map_option core (client_heap ?u q) = map_option core (client_heap s q)" for q
    by (simp add: write_back_def t(1))
  have reg: "registry ?u ps" if "registry s ps" for ps
    by (rule registry_ident [OF that]) (use t c in \<open>auto simp: write_back_def\<close>)
  obtain ps where ps: "registry s ps" using ok by (auto simp: heap_ok_def)
  have "client_ok E d" if "client_heap ?u p = Some d" for d using that t(5) by (simp add: write_back_def)
  note changed = clients_changed [where p = p, OF ok ps reg [OF ps] others refl this]
  have own: "client_owned p (client_heap ?u p) x - client_owned p (client_heap s p) x = held (cl ?t) x - held c x" for x
    using t(4) c by (simp add: client_owned_def write_back_def ident_def)
  have "trace ?u = trace ?t" by (simp add: write_back_def)
  then have "unaccounted_for ?u x = unaccounted_for s x" for x
    using changed(2) [where x = x] t(6) [of x] own [of x] by (simp add: unaccounted_for_def)
  then show ?thesis using changed(1) reg c t(1) by (auto simp: step_ok_def write_back_def)
qed

section \<open>The departure of a client\<close>

text \<open>A detached client does not delete its thread.\<close>

lemma detached_exit_eq:
  assumes reg: "registry s ps" and c: "client_heap s p = Some c" and p: "p \<notin> set ps"
  shows "\<exists>t. client_exit E p s = Some t \<and> registry t ps \<and> client_heap t p = None \<and>
    (\<forall>q. q \<noteq> p \<longrightarrow> map_option core (client_heap t q) = map_option core (client_heap s q)) \<and>
    (\<forall>x. balance (trace t) x = balance (trace s) x - client_owned p (Some c) x)"
proof -
  obtain u where u: "client_list_delete E p s = Some (False, u)" "registry u ps" "list_frame s u"
    using client_list_delete_refines [OF reg c, of E] p by (auto simp: remove1_idem)
  note heap = list_frame_heap [OF u(3)] and bal = list_frame_balance [OF u(3)]
  obtain d where d: "client_heap u p = Some d" "core d = core c" using heap [of p] c by auto
  have held: "held d = held c" using core_projections(1) [OF d(2)] .
  obtain fd v where close: "close_socket E (ctrl_sockfd d) (u\<lparr>cl := d\<rparr>) = (fd, v)" by fastforce
  note v = close_socket_eq [OF close] and facts = close_socket_ftpD [OF close]
  let ?v = "set_cl (\<lambda>c. c\<lparr>ctrl_sockfd := fd\<rparr>) v"
  let ?w = "client_close_data_connection E ?v"
  let ?x = "?w\<lparr>client_heap := (client_heap ?w)(p := None)\<rparr>"
  let ?t = "exec E (Kernel sceKernelExitThread) (exec E (Kernel (free p)) ?x)"
  have nz: "p \<noteq> 0" using registry_nonzero [OF reg c] .
  have run: "client_exit E p s = Some ?t"
    using u(1) d close facts by (simp add: client_exit_def free_client_def closed_def)
  have "registry ?x ps" using registry_upd [of ?w ps p None] u(2) v(1,2) nz p by (simp add: client_close_data_list)
  moreover have "client_heap ?x = (client_heap u)(p := None)" using v(1) by (simp add: client_close_data_list)
  moreover have "balance (trace ?t) x = balance (trace s) x - client_owned p (Some c) x" for x
  proof -
    have "held (d\<lparr>ctrl_sockfd := fd\<rparr>) x = held d x - holds (ctrl_sockfd d) x" using facts by (simp add: held_def)
    then have "balance (trace ?w) x = balance (trace s) x - held d x"
      using facts v(3) bal by (subst close_data_balance) auto
    then show ?thesis using nz registry_in [OF reg c] p by (auto simp: delta_def client_owned_def held)
  qed
  ultimately show ?thesis using run heap by (intro exI [of _ ?t]) auto
qed

lemma exit_step_ok:
  assumes ok: "heap_ok E s" and c: "client_heap s p = Some c" and run: "client_exit E p s = Some t"
  shows "step_ok E s t"
proof -
  have exit: "registry t (remove1 p ps) \<and> client_heap t p = None \<and>
    (\<forall>q. q \<noteq> p \<longrightarrow> map_option core (client_heap t q) = map_option core (client_heap s q)) \<and>
    (\<forall>x. balance (trace t) x = balance (trace s) x - client_owned p (Some c) x)" if "registry s ps" for ps
  proof (cases "p \<in> set ps")
    case True
    with client_exit_eq [OF that c True, of E] run client_owned_listed [OF that c] show ?thesis by simp
  next
    case False
    with detached_exit_eq [OF that c False, of E] run show ?thesis by (simp add: remove1_idem)
  qed
  obtain ps where ps: "registry s ps" using ok by (auto simp: heap_ok_def)
  note t = exit [OF ps]
  then have others: "\<And>q. q \<noteq> p \<Longrightarrow> map_option core (client_heap t q) = map_option core (client_heap s q)" by blast
  have mem: "q \<noteq> p \<Longrightarrow> q \<in> set (remove1 p ps) \<longleftrightarrow> q \<in> set ps" for q by simp
  have reg: "registry t (remove1 p ps)" using t by blast
  have "client_ok E d" if "client_heap t p = Some d" for d using that t by simp
  note changed = clients_changed [where p = p, OF ok ps reg others mem this]
  have "unaccounted_for t x = unaccounted_for s x" for x
    using changed(2) [where x = x] t c by (simp add: unaccounted_for_def)
  moreover have "\<exists>ps'. registry t ps' \<and> set ps' \<subseteq> set ps \<union> (dom (client_heap t) - dom (client_heap s))" if "registry s ps" for ps
    using exit [OF that] set_remove1_subset by fast
  ultimately show ?thesis using changed(1) by (simp add: step_ok_def)
qed

section \<open>The arrival of a client\<close>

lemma accept_step_ok:
  assumes ok: "heap_ok E s" and path: "1 < PATH_MAX E" and fresh: "fresh_record E s" and run: "accept_client E s = Some y"
  shows "step_ok E s (turn_end y)"
proof -
  let ?t = "turn_end y"
  have ends: "accept_ends s ps ?t" if "registry s ps" for ps using accept_client_ends [OF that fresh] run by auto
  have list: "\<exists>ps'. registry ?t ps' \<and> set ps' \<subseteq> set ps \<union> (dom (client_heap ?t) - dom (client_heap s))" if "registry s ps" for ps
    using ends [OF that] unfolding accept_ends_def by fastforce
  obtain ps where ps: "registry s ps" using ok by (auto simp: heap_ok_def)
  have "heap_ok E ?t \<and> (\<forall>x. unaccounted_for ?t x = unaccounted_for s x)"
    using ends [OF ps, unfolded accept_ends_def]
  proof (elim disjE [of "_ \<and> registry _ _ \<and> _"] exE conjE, goal_cases)
    case 1
    with ok show ?case by (auto simp: heap_ok_def unaccounted_for_def clients_owned_def)
  next
    case (2 p n fd a)
    have new: "p \<notin> set ps" using 2(1) ps by (fastforce simp: registry_def dest: dseg_in)
    from 2(3) show ?case
    proof (elim disjE exE conjE)
      assume t: "registry ?t ps" "client_heap ?t p = None" "\<forall>x. balance (trace ?t) x = balance (trace s) x"
      have "client_ok E c" if "client_heap ?t p = Some c" for c using t(2) that by simp
      note changed = clients_changed [where p = p, OF ok ps t(1) 2(2) [THEN spec, THEN mp] refl this]
      then show ?case using t(2,3) 2(1) by (simp add: unaccounted_for_def)
    next
      fix th
      assume t: "registry ?t (p # ps)" "map_option core (client_heap ?t p) = Some (core ((new_client n fd a)\<lparr>thid := th\<rparr>))"
        "\<forall>x. balance (trace ?t) x = balance (trace s) x + holds fd x + of_bool (x = Mem p) + of_bool (x = Thread th)"
      obtain d where d: "client_heap ?t p = Some d" "core d = core ((new_client n fd a)\<lparr>thid := th\<rparr>)" using t(2) by auto
      have "client_ok E d" using core_projections(3) [OF d(2), of E] new_client_ok [of E] path by simp
      then have okp: "client_ok E c" if "client_heap ?t p = Some c" for c using d(1) that by simp
      have mem: "q \<noteq> p \<Longrightarrow> q \<in> set (p # ps) \<longleftrightarrow> q \<in> set ps" for q by simp
      note changed = clients_changed [where p = p, OF ok ps t(1) 2(2) [THEN spec, THEN mp] mem okp]
      have "client_owned p (Some d) x = holds fd x + of_bool (x = Mem p) + of_bool (x = Thread th)" for x
        using client_owned_listed [OF t(1) d(1)] owned_core [of "Some d" "Some ((new_client n fd a)\<lparr>thid := th\<rparr>)" p x] d(2)
        by (simp add: owned_def held_def new_client_def)
      with changed t(3) 2(1) d(1) show ?case by (simp add: unaccounted_for_def)
    qed
  qed
  with list show ?thesis by (simp add: step_ok_def)
qed

section \<open>The globals of the FTP server\<close>

definition ftp_globals :: "'w ftp \<Rightarrow> (i32 \<times> i32 \<times> i32 \<times> i32 \<times> u32 \<times> bool) \<times> i32" where
  "ftp_globals f = (server_fields f, server_sockfd f)"

named_theorems globals \<open>operations that keep the globals of the FTP server\<close>

lemma globals_calls [simp]:
  "ftp_globals (exec E c s) = ftp_globals s" "ftp_globals (s\<lparr>client_heap := h\<rparr>) = ftp_globals s" "ftp_globals (s\<lparr>cl := d\<rparr>) = ftp_globals s"
  "ftp_globals (s\<lparr>client_list := l\<rparr>) = ftp_globals s" "ftp_globals (s\<lparr>number_clients := n\<rparr>) = ftp_globals s"
  "ftp_globals (s\<lparr>next_client_num := m\<rparr>) = ftp_globals s" "ftp_globals (s\<lparr>reboot_quiesce_requested := q\<rparr>) = ftp_globals s"
  "ftp_globals (s\<lparr>socket_timeout_config_failures := q\<rparr>) = ftp_globals s" "ftp_globals (s\<lparr>world := w\<rparr>) = ftp_globals s"
  "ftp_globals (s\<lparr>trace := tr\<rparr>) = ftp_globals s" "ftp_globals (lock_list E s) = ftp_globals s" "ftp_globals (unlock_list E s) = ftp_globals s"
  by (simp_all add: ftp_globals_def server_fields_def lock_list_def unlock_list_def)

lemma globals_syscall [globals]: "syscall E c s = (r, t) \<Longrightarrow> ftp_globals t = ftp_globals s"
  by (auto simp: ftp_globals_def server_fields_def syscall_def split: prod.splits)

lemma globals_same_server: "same_server s t \<Longrightarrow> ftp_globals t = ftp_globals s"
  by (simp add: same_server_def ftp_globals_def server_fields_def)

lemma globals_set [globals]: "client_set p f s = Some t \<Longrightarrow> ftp_globals t = ftp_globals s"
  by (auto simp: client_set_def split: option.splits)

text \<open>Sequences of list operations, step by step.\<close>

definition steady :: "'w ftp \<Rightarrow> 'w ftp option \<Rightarrow> bool" where
  "steady s m \<longleftrightarrow> (\<forall>t. m = Some t \<longrightarrow> ftp_globals t = ftp_globals s)"

lemma steady_bind: "steady s m \<Longrightarrow> (\<And>t. ftp_globals t = ftp_globals s \<Longrightarrow> steady s (h t)) \<Longrightarrow> steady s (m \<bind> h)"
  unfolding steady_def Option.bind_eq_Some_conv by blast

lemma steady_set: "ftp_globals t = ftp_globals s \<Longrightarrow> steady s (client_set p f t)"
  unfolding steady_def using globals_set by metis

lemma steady_get: "(\<And>c. steady s (h c)) \<Longrightarrow> steady s (client_heap t p \<bind> h)"
  unfolding steady_def Option.bind_eq_Some_conv by blast

lemma steady_value:
  "ftp_globals t = ftp_globals s \<Longrightarrow> steady s (Some t)"
  "(b \<Longrightarrow> steady s m) \<Longrightarrow> (\<not> b \<Longrightarrow> steady s n) \<Longrightarrow> steady s (if b then m else n)"
  by (simp_all add: steady_def)

lemmas steady_rules = steady_value steady_set steady_get steady_bind

lemma globals_add [globals]:
  assumes "client_list_add E p s = Some (b, t)"
  shows "ftp_globals t = ftp_globals s"
proof -
  have snd: "map_option snd (m \<bind> h) = m \<bind> (\<lambda>s. map_option snd (h s))" for m :: "'a ftp option" and h :: "'a ftp \<Rightarrow> (bool \<times> 'a ftp) option"
    by (cases m) simp_all
  have "steady s (map_option snd (client_list_add E p s))"
    unfolding client_list_add_def Let_def if_distrib [of "map_option snd"] snd option.map prod.sel
    by ((rule steady_rules | (simp; fail))+)
  with assms show ?thesis by (simp add: steady_def)
qed

lemma globals_unlink [globals]:
  assumes "client_unlink p s = Some t"
  shows "ftp_globals t = ftp_globals s"
proof -
  have "steady s (client_unlink p s)"
    unfolding client_unlink_def by ((rule steady_rules | (simp; fail))+)
  with assms show ?thesis by (simp add: steady_def)
qed

lemma globals_delete [globals]: "client_list_delete E p s = Some (b, t) \<Longrightarrow> ftp_globals t = ftp_globals s"
  by (auto simp: client_list_delete_def Let_def Option.bind_eq_Some_conv split: if_splits dest!: globals_set globals_unlink)

lemma globals_close [globals]: "close_socket E fd s = (fd', t) \<Longrightarrow> ftp_globals t = ftp_globals s"
  by (auto simp: close_socket_def split: if_splits)

lemma globals_close_data [simp]: "ftp_globals (client_close_data_connection E s) = ftp_globals s"
  using conserves_close [of s E] by (auto simp: owes_def intro: globals_same_server)

lemma globals_discard [globals]:
  assumes "discard_client E p s = Some t"
  shows "ftp_globals t = ftp_globals s"
proof -
  obtain c where c: "client_heap s p = Some c" using assms by (auto simp: discard_client_def Option.bind_eq_Some_conv)
  obtain fd u where "close_socket E (ctrl_sockfd c) s = (fd, u)" by fastforce
  with assms c globals_close [OF this] show ?thesis
    by (auto simp: discard_client_def free_client_def Option.bind_eq_Some_conv dest!: globals_set)
qed

lemma globals_send [globals]: "send_to_client E p m s = Some t \<Longrightarrow> ftp_globals t = ftp_globals s"
  by (auto simp: send_to_client_def Option.bind_eq_Some_conv)

lemma globals_start [globals]: "start_client E p th s = Some t \<Longrightarrow> ftp_globals t = ftp_globals s"
  by (auto simp: start_client_def Option.bind_eq_Some_conv split: if_splits prod.splits dest!: globals)

lemma globals_admit [globals]: "admit_client E p n s = Some t \<Longrightarrow> ftp_globals t = ftp_globals s"
  by (auto simp: admit_client_def Option.bind_eq_Some_conv split: if_splits prod.splits dest!: globals)

lemma globals_configure [globals]: "configure_socket_io_timeout E fd s = (r, t) \<Longrightarrow> ftp_globals t = ftp_globals s"
  by (auto simp: configure_socket_io_timeout_def Let_def split: if_splits prod.splits dest!: globals_syscall)

lemma globals_accept [globals]: "accept_client E s = Some (Inr t) \<Longrightarrow> ftp_globals t = ftp_globals s"
  by (auto simp: accept_client_def Let_def split: if_splits prod.splits dest!: globals)

lemma globals_exit [globals]:
  assumes "client_exit E p s = Some t"
  shows "ftp_globals t = ftp_globals s"
proof -
  obtain b u where 1: "client_list_delete E p s = Some (b, u)" using assms by (auto simp: client_exit_def Option.bind_eq_Some_conv)
  obtain c where 2: "client_heap u p = Some c" using assms 1 by (auto simp: client_exit_def Option.bind_eq_Some_conv)
  obtain fd v where 3: "close_socket E (ctrl_sockfd c) (u\<lparr>cl := c\<rparr>) = (fd, v)" by fastforce
  have "ftp_globals v = ftp_globals s" using globals_delete [OF 1] globals_close [OF 3] by simp
  then show ?thesis using assms 1 2 3 by (auto simp: client_exit_def free_client_def split: if_splits)
qed

lemma globals_write_back [simp]: "ftp_globals (write_back p s) = ftp_globals s"
  by (simp add: write_back_def)

section \<open>Every step\<close>

lemma turn_globals:
  assumes "heap_ok E s" and "client_heap s p = Some c" and "514 \<le> PATH_MAX E" and "custom_ok E custom"
    and "client_turn E custom (s\<lparr>cl := c\<rparr>) = Some y"
  shows "ftp_globals (turn_end y) = ftp_globals s"
proof -
  have "client_ok E (cl (s\<lparr>cl := c\<rparr>))" using heap_okD [OF assms(1,2)] by simp
  from client_turn_ends [OF this assms(3-5)] have "same_server (s\<lparr>cl := c\<rparr>) (turn_end y)"
    by (auto simp: ends_def owes_def)
  then show ?thesis using globals_same_server by fastforce
qed

lemma ftp_step_keeps:
  assumes step: "ftp_step E custom s t" and ok: "heap_ok E s" and path: "514 \<le> PATH_MAX E" and cust: "custom_ok E custom"
  shows "step_ok E s t \<and> ftp_globals t = ftp_globals s"
  using step
proof cases
  case accept
  then show ?thesis using accept_step_ok [OF ok _ accept(2,1)] path by (auto simp: turn_end_def dest: globals_accept)
next
  case (command p c t)
  with turn_step_ok [OF ok command(2) path cust command(3)] turn_globals [OF ok command(2) path cust command(3)] show ?thesis
    by (simp add: turn_end_def)
next
  case (leave p c u)
  then have w: "step_ok E s (write_back p u)" "dom (client_heap (write_back p u)) = dom (client_heap s)" "ftp_globals u = ftp_globals s"
    using turn_step_ok [OF ok leave(1) path cust leave(2)] turn_globals [OF ok leave(1) path cust leave(2)] by (simp_all add: turn_end_def)
  have "client_heap (write_back p u) p = Some (cl u)" by (simp add: write_back_def)
  moreover have "heap_ok E (write_back p u)" using w(1) by (simp add: step_ok_def)
  ultimately have "step_ok E (write_back p u) t" using exit_step_ok leave(3) by blast
  then have "step_ok E s t" using step_ok_trans [OF w(1) _ w(2)] by blast
  moreover have "ftp_globals t = ftp_globals s" using globals_exit [OF leave(3)] w(3) by simp
  ultimately show ?thesis by blast
next
  case (prepare r)
  have "ftp_globals t = ftp_globals s" using prepare
    by (auto simp: ftpvita_prepare_for_reboot_def Let_def split: prod.splits if_splits dest!: globals_syscall)
  then show ?thesis using step_ok_quiet [OF ok] prepare_list [OF prepare] by blast
next
  case cancel
  have "registry (s\<lparr>reboot_quiesce_requested := 0\<rparr>) = registry s" by (rule ext) simp
  then show ?thesis using step_ok_quiet [OF ok, of t] cancel by (simp add: ftpvita_cancel_reboot_def)
next
  case (abort r)
  obtain ps where "registry s ps" using ok by (auto simp: heap_ok_def)
  with abort ftpvita_abort_clients_eq [of s ps E] have calls: "only_calls s t" by auto
  have "registry t = registry s" using registry_cong [OF only_callsD(1-3) [OF calls]] by blast
  then show ?thesis using step_ok_quiet [OF ok] only_callsD [OF calls] calls by (auto simp: only_calls_def)
qed

end
