(* ===== verification/Plugin_Lifecycle.thy ===== *)
theory Plugin_Lifecycle
  imports Cmd_Server Ftp_Threads
begin

text \<open>
  The life of the plugin: the network thread that starts and stops the two servers with the connection
  (\<^verbatim>\<open>net.c\<close>), and the module's entry points (\<^verbatim>\<open>main.c\<close>).

  What the other threads do while the network thread waits are three arguments: \<open>starting\<close> is the server
  thread of the FTP server during \<open>ftpvita_init\<close>, \<open>loading\<close> all other threads during \<open>cmd_start\<close>, and \<open>meanwhile\<close> all
  other threads during the delays of the network thread. As they may depend on the world, they need not do the
  same at each time.
\<close>

section \<open>The network thread\<close>

definition start_devices :: "string list" where
  "start_devices = [''ux0:'', ''ur0:'', ''uma0:'', ''imc0:'', ''xmc0:'', ''grw0:'']"

definition add_devices :: "'w ftp \<Rightarrow> 'w ftp" where
  "add_devices f = fold (\<lambda>d f. snd (ftpvita_add_device d f)) start_devices f"

definition start_services :: "'w env \<Rightarrow> (nat \<Rightarrow> 'w ftp \<Rightarrow> 'w ftp) \<Rightarrow> (nat \<Rightarrow> 'w plugin \<Rightarrow> 'w plugin) \<Rightarrow> 'w plugin \<Rightarrow> (i32 \<times> 'w plugin) option" where
  "start_services E starting loading s =
     (let ((ret, addr), f) = ftpvita_init E starting (ftpvita_set_file_buf_size (64 * 1024) (ftpd s));
          s = s\<lparr>ftpd := f\<rparr>
      in if neg ret then Some (- 1, s)
         else let s = s\<lparr>ftpd := add_devices (ftpd s)\<rparr>;
                  s = s\<lparr>net_connected := True\<rparr>;
                  (ret, s) = cmd_start E loading s
              in if neg ret
                 then do { f \<leftarrow> ftpvita_fini E (ftpd s); Some (- 1, s\<lparr>net_connected := False, ftpd := f\<rparr>) }
                 else Some (0, s\<lparr>all_is_up := True\<rparr>))"

definition stop_services :: "'w env \<Rightarrow> 'w plugin \<Rightarrow> 'w plugin option" where
  "stop_services E s =
     (let s = s\<lparr>net_connected := False\<rparr>
      in if \<not> all_is_up s then Some s
         else let s = cmd_end E s
              in do { f \<leftarrow> ftpvita_fini E (ftpd s); Some (s\<lparr>ftpd := f, all_is_up := False\<rparr>) })"

definition netctl_cb :: "u32 \<Rightarrow> 'w plugin \<Rightarrow> 'w plugin" where
  "netctl_cb event_type s =
     (if event_type = 1 \<or> event_type = 2 then s\<lparr>desired_connected := False\<rparr>
      else if event_type = 3 then s\<lparr>desired_connected := True\<rparr>
      else s)"

text \<open>The events for which \<open>sceNetCtlCheckCallback\<close> calls the callback: of its answer, word 0 is their number.\<close>

definition netctl_events :: "ret \<Rightarrow> u32 list" where
  "netctl_events r = map (\<lambda>i. out r (Suc i)) [0 ..< unat (out r 0)]"

text \<open>One turn of the loop before its delay.\<close>

definition net_turn :: "'w env \<Rightarrow> (nat \<Rightarrow> 'w ftp \<Rightarrow> 'w ftp) \<Rightarrow> (nat \<Rightarrow> 'w plugin \<Rightarrow> 'w plugin) \<Rightarrow> 'w plugin \<Rightarrow> 'w plugin option" where
  "net_turn E starting loading s =
     (let (r, s) = ask E (Net sceNetCtlCheckCallback) s;
          s = fold netctl_cb (netctl_events r) s
      in if desired_connected s \<and> \<not> all_is_up s then map_option snd (start_services E starting loading s)
         else if \<not> desired_connected s \<and> all_is_up s then stop_services E s
         else Some s)"

partial_function (option) net_loop :: "'w env \<Rightarrow> (nat \<Rightarrow> 'w ftp \<Rightarrow> 'w ftp) \<Rightarrow> (nat \<Rightarrow> 'w plugin \<Rightarrow> 'w plugin) \<Rightarrow>
    ('w plugin \<Rightarrow> 'w plugin) \<Rightarrow> 'w plugin \<Rightarrow> 'w plugin option" where
  "net_loop E starting loading meanwhile s =
     (if run s
      then do {
        s \<leftarrow> net_turn E starting loading s;
        net_loop E starting loading meanwhile (meanwhile (tell E (Kernel (sceKernelDelayThread (1000 * 1000))) s)) }
      else Some s)"

text \<open>The query of the connection, and the two parts of the end of the thread.\<close>

definition sample_connection :: "'w env \<Rightarrow> 'w plugin \<Rightarrow> i32 \<times> 'w plugin" where
  "sample_connection E s =
     (let (r, s) = ask E (Net sceNetCtlInetGetState) s
      in (rc r, s\<lparr>desired_connected := (\<not> neg (rc r) \<and> out r 0 = 3)\<rparr>))"

definition unregister_callback :: "'w env \<Rightarrow> 'w plugin \<Rightarrow> 'w plugin" where
  "unregister_callback E s =
     (if neg (netctl_cb_id s) then s
      else (tell E (Net (sceNetCtlInetUnregisterCallback (netctl_cb_id s))) s)\<lparr>netctl_cb_id := - 1\<rparr>)"

definition exit_netctl :: "'w env \<Rightarrow> 'w plugin \<Rightarrow> 'w plugin" where
  "exit_netctl E s = (if netctl_initialized s then (tell E (Net sceNetCtlTerm) s)\<lparr>netctl_initialized := False\<rparr> else s)"

text \<open>What follows the loop.\<close>

definition net_finish :: "'w env \<Rightarrow> 'w plugin \<Rightarrow> 'w plugin option" where
  "net_finish E s = do {
     s \<leftarrow> stop_services E s;
     Some (exit_netctl E (unregister_callback E s)) }"

definition net_thread :: "'w env \<Rightarrow> (nat \<Rightarrow> 'w ftp \<Rightarrow> 'w ftp) \<Rightarrow> (nat \<Rightarrow> 'w plugin \<Rightarrow> 'w plugin) \<Rightarrow>
    ('w plugin \<Rightarrow> 'w plugin) \<Rightarrow> 'w plugin \<Rightarrow> (i32 \<times> 'w plugin) option" where
  "net_thread E starting loading meanwhile s =
     (let s = meanwhile (tell E (Kernel (sceKernelDelayThread (3 * 1000 * 1000))) s);
          (r, s) = ask E (Net sceNetCtlInit) s
      in if neg (rc r) \<and> rc r \<noteq> NET_CTL_ERROR_NOT_TERMINATED then Some (rc r, s)
         else let s = s\<lparr>netctl_initialized := (rc r = 0)\<rparr>;
                  (_, s) = sample_connection E s;
                  (r, s) = ask E (Net sceNetCtlInetRegisterCallback) s
              in if neg (rc r) then Some (rc r, exit_netctl E s)
                 else let s = s\<lparr>netctl_cb_id := out r 0\<rparr>;
                          (ret, s) = sample_connection E s
                      in do {
                        s \<leftarrow> net_loop E starting loading meanwhile s;
                        s \<leftarrow> net_finish E s;
                        Some (if neg ret then ret else 0, s) })"

definition net_start :: "'w env \<Rightarrow> 'w plugin \<Rightarrow> i32 \<times> 'w plugin" where
  "net_start E s =
     (if 0 \<le> sint (net_thid s) then (0, s)
      else let (r, s) = ask E (Kernel (sceKernelCreateThread ''vitacompanion_net_thread'')) s;
               s = s\<lparr>net_thid := rc r\<rparr>
           in if neg (net_thid s) then (net_thid s, s)
              else let (r, s) = ask E (Kernel (sceKernelStartThread (net_thid s))) s
                   in if neg (rc r) then (rc r, (tell E (Kernel (sceKernelDeleteThread (net_thid s))) s)\<lparr>net_thid := - 1\<rparr>)
                      else (rc r, s))"

text \<open>\<open>ending\<close> is what the network thread still does until it ends.\<close>

definition net_end :: "'w env \<Rightarrow> ('w plugin \<Rightarrow> 'w plugin option) \<Rightarrow> 'w plugin \<Rightarrow> 'w plugin option" where
  "net_end E ending s =
     (if 0 \<le> sint (net_thid s)
      then do {
        s \<leftarrow> ending (tell E (Kernel (sceKernelWaitThreadEnd (net_thid s))) s);
        Some ((tell E (Kernel (sceKernelDeleteThread (net_thid s))) s)\<lparr>net_thid := - 1\<rparr>) }
      else Some s)"

section \<open>The module\<close>

datatype start_result = SCE_KERNEL_START_SUCCESS | SCE_KERNEL_START_FAILED

definition module_start :: "'w env \<Rightarrow> 'w plugin \<Rightarrow> start_result \<times> 'w plugin" where
  "module_start E s =
     (let (r, s) = ask E (Kernel (taipool_init (1 * 1024 * 1024))) s
      in if neg (rc r) then (SCE_KERNEL_START_FAILED, s)
         else let (ret, s) = net_start E (s\<lparr>run := True\<rparr>)
              in if neg ret then (SCE_KERNEL_START_FAILED, tell E (Kernel taipool_term) (s\<lparr>run := False\<rparr>))
                 else (SCE_KERNEL_START_SUCCESS, s))"

definition module_stop :: "'w env \<Rightarrow> ('w plugin \<Rightarrow> 'w plugin option) \<Rightarrow> 'w plugin \<Rightarrow> 'w plugin option" where
  "module_stop E ending s = do {
     s \<leftarrow> net_end E ending (s\<lparr>run := False\<rparr>);
     Some (tell E (Kernel taipool_term) s) }"

section \<open>What the plugin owns\<close>

definition net_owned :: "'w plugin \<Rightarrow> resource \<Rightarrow> int" where
  "net_owned s x = of_bool (\<not> neg (net_thid s) \<and> x = Thread (net_thid s)) + of_bool (netctl_initialized s \<and> x = NetCtl) +
     of_bool (\<not> neg (netctl_cb_id s) \<and> x = Callback (netctl_cb_id s))"

definition plugin_extra :: "'w plugin \<Rightarrow> resource \<Rightarrow> int" where
  "plugin_extra s x = cmd_extra s x - server_owned (ftpd s) x - net_owned s x - clients_owned (ftpd s) x"

text \<open>The slots and the start status of the command server.\<close>

definition slots_ok :: "'w plugin \<Rightarrow> bool" where
  "slots_ok s \<longleftrightarrow> (neg (loader_thid s) \<longrightarrow> neg (loader_sockfd s) \<and> neg (active_client_sockfd s)) \<and>
     (loader_start_status s \<noteq> 0 \<longrightarrow> neg (active_client_sockfd s)) \<and>
     (loader_start_status s = 0 \<or> loader_start_status s = CMD_START_PENDING \<or> neg (loader_start_status s))"

text \<open>The state of the plugin between two calls, with the account \<open>c\<close> of everything that it does not own.\<close>

definition plugin_ok :: "'w env \<Rightarrow> (resource \<Rightarrow> int) \<Rightarrow> 'w plugin \<Rightarrow> bool" where
  "plugin_ok E c s \<longleftrightarrow>
     heap_ok E (ftpd s) \<and> (\<exists>ps. registry (ftpd s) ps \<and> (ftp_initialized (ftpd s) \<or> ps = [])) \<and>
     (if ftp_initialized (ftpd s) then \<not> neg (client_list_mtx (ftpd s)) else server_clean (ftpd s)) \<and>
     slots_ok s \<and> (\<forall>x. plugin_extra s x = c x)"

text \<open>What only the network thread and the module's entry points change.\<close>

definition services :: "'w plugin \<Rightarrow> (bool \<times> bool \<times> i32 \<times> i32 \<times> bool \<times> bool) \<times> (i32 \<times> i32 \<times> i32 \<times> i32 \<times> u32 \<times> bool)" where
  "services s = ((all_is_up s, net_connected s, net_thid s, netctl_cb_id s, netctl_initialized s, desired_connected s),
     server_fields (ftpd s))"

text \<open>What the network thread relies on from the other threads.\<close>

definition bystander :: "'w env \<Rightarrow> ('w plugin \<Rightarrow> 'w plugin) \<Rightarrow> bool" where
  "bystander E m \<longleftrightarrow> (\<forall>c s. plugin_ok E c s \<longrightarrow> plugin_ok E c (m s) \<and> services (m s) = services s \<and> loader_thid (m s) = loader_thid s)"

definition listener :: "(nat \<Rightarrow> 'w ftp \<Rightarrow> 'w ftp) \<Rightarrow> bool" where
  "listener starting \<longleftrightarrow> others_ok starting \<and> (\<forall>i f. list_fields (starting i f) = list_fields f)"

lemma plugin_okI:
  assumes "plugin_ok E c s" and "ftp_core (ftpd t) = ftp_core (ftpd s)" and "slots_ok t"
    and "\<And>x. cmd_extra t x - net_owned t x = cmd_extra s x - net_owned s x"
  shows "plugin_ok E c t"
proof -
  note same = ftp_core_same [OF assms(2)]
  have fields: "client_list_mtx (ftpd t) = client_list_mtx (ftpd s)" "ftp_initialized (ftpd t) = ftp_initialized (ftpd s)"
    "server_clean (ftpd t) = server_clean (ftpd s)"
    using same(3,4) by (auto simp: server_fields_def server_clean_def)
  have "plugin_extra t x = plugin_extra s x" for x
    using assms(4) [of x] same(2,5) by (simp add: plugin_extra_def clients_owned_def)
  with assms(1,3) show ?thesis by (simp add: plugin_ok_def heap_ok_def same(1,5) fields)
qed

lemma slots_ok_upd [simp]:
  "slots_ok (s\<lparr>net_connected := b\<rparr>) = slots_ok s" "slots_ok (s\<lparr>all_is_up := b\<rparr>) = slots_ok s"
  "slots_ok (s\<lparr>desired_connected := b\<rparr>) = slots_ok s" "slots_ok (s\<lparr>run := b\<rparr>) = slots_ok s"
  "slots_ok (s\<lparr>ftpd := f\<rparr>) = slots_ok s" "slots_ok (s\<lparr>netctl_initialized := b\<rparr>) = slots_ok s"
  "slots_ok (s\<lparr>netctl_cb_id := i\<rparr>) = slots_ok s" "slots_ok (s\<lparr>net_thid := i\<rparr>) = slots_ok s"
  "slots_ok (tell E n s) = slots_ok s"
  by (simp_all add: slots_ok_def)

lemma plugin_ok_upd [simp]:
  "plugin_ok E c (s\<lparr>net_connected := b\<rparr>) = plugin_ok E c s" "plugin_ok E c (s\<lparr>all_is_up := b\<rparr>) = plugin_ok E c s"
  "plugin_ok E c (s\<lparr>desired_connected := b\<rparr>) = plugin_ok E c s" "plugin_ok E c (s\<lparr>run := b\<rparr>) = plugin_ok E c s"
  by (simp_all add: plugin_ok_def plugin_extra_def cmd_extra_def cmd_owned_def net_owned_def)

lemma net_owned_tell [simp]: "net_owned (tell E n s) x = net_owned s x"
  by (simp add: net_owned_def tell_eq)

lemma plugin_ok_slots: "plugin_ok E c s \<Longrightarrow> slots_ok s"
  by (simp add: plugin_ok_def)

lemma plugin_ok_tell [simp]:
  assumes "neutral n" and "plugin_ok E c s"
  shows "plugin_ok E c (tell E n s)"
  by (rule plugin_okI [OF assms(2)]) (use assms(1) plugin_ok_slots [OF assms(2)] in simp_all)

lemma plugin_ok_beside:
  assumes "plugin_ok E c s" and "beside s t" and "slots_ok t"
  shows "plugin_ok E c t"
  by (rule plugin_okI [OF assms(1)]) (use assms in \<open>auto simp: beside_def net_fields_def net_owned_def\<close>)

lemma services_beside: "beside s t \<Longrightarrow> services t = services s"
  using ftp_core_same(3) by (auto simp: beside_def services_def net_fields_def)

section \<open>The FTP server in the plugin\<close>

lemma plugin_extra_ftpd:
  "plugin_extra (s\<lparr>ftpd := f\<rparr>) x = plugin_extra s x + (server_extra f x - clients_owned f x) - (server_extra (ftpd s) x - clients_owned (ftpd s) x)"
  by (simp add: plugin_extra_def cmd_extra_def cmd_owned_def server_extra_def net_owned_def)

lemma registry_Nil:
  assumes "registry f []" and "list_fields g \<in> {list_fields f, (client_heap f, 0, 0)}"
  shows "registry g [] \<and> client_heap g = client_heap f"
  using assms by (auto simp: registry_def list_fields_def)

lemma services_ftpd [simp]: "loader_thid (s\<lparr>ftpd := f\<rparr>) = loader_thid s"
  by simp

lemma init_ok:
  assumes "plugin_ok E c s" and "\<not> ftp_initialized (ftpd s)" and "listener starting" and "ftpvita_init E starting (ftpd s) = ((ret, addr), f)"
  shows "plugin_ok E c (s\<lparr>ftpd := f\<rparr>) \<and> (ftp_initialized f \<longrightarrow> ret = 0)"
proof -
  have clean: "server_clean (ftpd s)" "registry (ftpd s) []" and others: "others_ok starting"
    using assms(1-3) by (auto simp: plugin_ok_def listener_def)
  note books = ftpvita_init_books [OF clean(1) assms(2) others assms(4)]
  have "list_fields f \<in> {list_fields (ftpd s), (client_heap (ftpd s), 0, 0)}"
    by (rule ftpvita_init_list [OF assms(4)]) (use assms(3) in \<open>simp add: listener_def\<close>)
  then have f: "registry f []" "client_heap f = client_heap (ftpd s)" using registry_Nil [OF clean(2)] by blast+
  have "plugin_extra (s\<lparr>ftpd := f\<rparr>) x = plugin_extra s x" for x
    using books [of x] f(2) unfolding plugin_extra_ftpd by (simp add: clients_owned_def)
  moreover have "heap_ok E f" using assms(1) f by (auto simp: plugin_ok_def heap_ok_def)
  ultimately show ?thesis using assms(1) books f(1) by (auto simp: plugin_ok_def split: if_splits)
qed

text \<open>The clients of the list give up their threads, and nothing else.\<close>

lemma clients_detached:
  fixes s t :: "'w ftp"
  assumes "registry s ps" and "finite (dom (client_heap s))" and "client_heap t = detached (set ps) (client_heap s)"
  shows "clients_owned t x = clients_owned s x - (\<Sum>p \<leftarrow> ps. of_bool (x = Thread (thid (the (client_heap s p)))))"
proof -
  let ?h = "client_heap s" and ?th = "\<lambda>p. of_bool (x = Thread (thid (the (client_heap s p)))) :: int"
  obtain l where seg: "dseg ?h 0 (client_list s) ps 0 l" and dis: "distinct ps" using assms(1) by (auto simp: registry_def)
  have ps: "\<exists>c. ?h p = Some c \<and> in_client_list c" if "p \<in> set ps" for p using dseg_in [OF seg that] by auto
  then have sub: "set ps \<subseteq> dom ?h" by blast
  have dom: "dom (client_heap t) = dom ?h" using assms(3) by (auto simp: detached_def split: if_splits)
  have one: "client_owned p (client_heap t p) x = client_owned p (?h p) x - (if p \<in> set ps then ?th p else 0)" if "p \<in> dom ?h" for p
    using that ps [of p] assms(3) by (auto simp: detached_def client_owned_def held_def)
  have "clients_owned t x = (\<Sum>p \<in> dom ?h. client_owned p (?h p) x - (if p \<in> set ps then ?th p else 0))"
    unfolding clients_owned_def dom by (rule sum.cong) (simp_all add: one)
  also have "\<dots> = clients_owned s x - (\<Sum>p \<in> dom ?h. if p \<in> set ps then ?th p else 0)"
    by (simp add: sum_subtractf clients_owned_def)
  also have "(\<Sum>p \<in> dom ?h. if p \<in> set ps then ?th p else 0) = (\<Sum>p \<in> set ps. ?th p)"
    by (simp only: sum.inter_restrict [OF assms(2), symmetric] Int_absorb1 [OF sub])
  also have "(\<Sum>p \<in> set ps. ?th p) = (\<Sum>p \<leftarrow> ps. ?th p)" using dis by (simp add: sum_list_distinct_conv_sum_set)
  finally show ?thesis .
qed

lemma detached_heap_ok:
  assumes "heap_ok E s" and "registry t qs" and "client_heap t = detached ps (client_heap s)"
  shows "heap_ok E t"
proof -
  have "dom (client_heap t) = dom (client_heap s)" using assms(3) by (auto simp: detached_def split: if_splits)
  moreover have "client_ok E d" if "client_heap t p = Some d" for p d
  proof (cases "client_heap s p")
    case None
    with that assms(3) show ?thesis by (simp add: detached_def split: if_splits)
  next
    case (Some c)
    then have "d = c \<or> d = c\<lparr>in_client_list := False\<rparr>" using that assms(3) by (auto simp: detached_def split: if_splits)
    with heap_okD [OF assms(1) Some] show ?thesis by (auto simp: client_ok_def client_idle_def)
  qed
  ultimately show ?thesis using assms(1,2) by (auto simp: heap_ok_def)
qed

lemma fini_ok:
  assumes "plugin_ok E c s"
  shows "\<exists>f. ftpvita_fini E (ftpd s) = Some f \<and> plugin_ok E c (s\<lparr>ftpd := f\<rparr>) \<and> \<not> ftp_initialized f"
proof (cases "ftp_initialized (ftpd s)")
  case True
  then obtain ps where ps: "registry (ftpd s) ps" "\<not> neg (client_list_mtx (ftpd s))" "heap_ok E (ftpd s)"
    using assms by (auto simp: plugin_ok_def)
  from ftpvita_fini_books [OF True ps(1,2), of E] obtain f where f: "ftpvita_fini E (ftpd s) = Some f" "server_clean f" "\<not> ftp_initialized f"
    "registry f []" "client_heap f = detached (set ps) (client_heap (ftpd s))"
    "\<And>x. balance (trace f) x = balance (calls s) x - server_owned (ftpd s) x -
       (\<Sum>p \<leftarrow> ps. of_bool (x = Thread (thid (the (client_heap (ftpd s) p)))))" by blast
  have "plugin_extra (s\<lparr>ftpd := f\<rparr>) x = plugin_extra s x" for x
  proof -
    have "server_owned f x = 0" using f(2) by (simp add: server_clean_def server_owned_def)
    then show ?thesis using f(6) [of x] clients_detached [OF ps(1) _ f(5), of x] ps(3)
      unfolding plugin_extra_ftpd by (simp add: server_extra_def heap_ok_def)
  qed
  moreover have "heap_ok E f" using detached_heap_ok [OF ps(3) f(4,5)] .
  ultimately show ?thesis using assms f(1-4) by (auto simp: plugin_ok_def)
next
  case False
  with assms show ?thesis by (intro exI [of _ "ftpd s"]) (simp add: ftpvita_fini_def)
qed

section \<open>The command server in the plugin\<close>

lemma services_tell [simp]: "services (tell E n s) = services s"
  by (simp add: services_def tell_eq server_fields_def)

lemma services_upd [simp]:
  "services (s\<lparr>loader_thid := i\<rparr>) = services s" "services (s\<lparr>loader_start_status := i\<rparr>) = services s"
  by (simp_all add: services_def)

lemma net_fields_loader [simp]:
  "net_fields (s\<lparr>loader_thid := i\<rparr>) = net_fields s" "net_fields (s\<lparr>loader_start_status := i\<rparr>) = net_fields s"
  by (simp_all add: net_fields_def)

lemma bystanderD:
  "bystander E m \<Longrightarrow> plugin_ok E c s \<Longrightarrow> plugin_ok E c (m s) \<and> services (m s) = services s \<and> loader_thid (m s) = loader_thid s"
  by (simp add: bystander_def)

lemma await_loader_ok:
  assumes "\<forall>i. bystander E (others i)" and "plugin_ok E c s"
  shows "plugin_ok E c (await_loader E others n s) \<and> services (await_loader E others n s) = services s \<and>
    loader_thid (await_loader E others n s) = loader_thid s"
  using assms(2)
proof (induction n arbitrary: s)
  case (Suc n)
  let ?s = "tell E (Kernel (sceKernelDelayThread 1000)) s"
  have "plugin_ok E c (others n ?s) \<and> services (others n ?s) = services s \<and> loader_thid (others n ?s) = loader_thid s"
    using bystanderD [OF assms(1) [THEN spec], of c ?s n] Suc.prems by simp
  with Suc show ?case by auto
qed simp

lemma delete_loader_ok:
  assumes "plugin_ok E c s" and "\<not> neg (loader_thid s)" and "neg (loader_sockfd s)" and "neg (active_client_sockfd s)"
  shows "plugin_ok E c (delete_loader E s) \<and> services (delete_loader E s) = services s \<and> neg (loader_thid (delete_loader E s))"
proof -
  have "beside s (delete_loader E s)"
    using assms(2) by (auto simp: beside_def delete_loader_def calls_tell net_fields_def cmd_extra_def cmd_owned_def delta_def)
      (simp_all add: tell_eq ftp_core_def)
  moreover have "slots_ok (delete_loader E s)"
    using plugin_ok_slots [OF assms(1)] assms(3,4) by (simp add: slots_ok_def delete_loader_def)
  ultimately show ?thesis using plugin_ok_beside [OF assms(1)] by (simp add: delete_loader_def services_beside)
qed

lemma cmd_end_ok:
  assumes "plugin_ok E c s"
  shows "plugin_ok E c (cmd_end E s) \<and> services (cmd_end E s) = services s \<and> neg (loader_thid (cmd_end E s))"
proof -
  let ?s = "close_active E (close_loader E s)"
  have b: "beside s ?s" by (intro beside_close beside_refl)
  have ok: "plugin_ok E c ?s" using plugin_ok_beside [OF assms b] plugin_ok_slots [OF assms] by (simp add: slots_ok_def)
  let ?t = "tell E (Kernel (sceKernelWaitThreadEnd (loader_thid s))) ?s"
  have "plugin_ok E c ?t" using ok by simp
  from delete_loader_ok [OF this] ok services_beside [OF b] show ?thesis
    by (auto simp: cmd_end_def Let_def not_le)
qed

lemma cmd_start_ok:
  assumes "plugin_ok E c s" and "neg (loader_thid s)" and "\<forall>i. bystander E (others i)" and "cmd_start E others s = (ret, t)"
  shows "plugin_ok E c t \<and> services t = services s \<and>
    (if neg ret then neg (loader_thid t) else ret = 0 \<and> \<not> neg (loader_thid t) \<and> loader_start_status t = 0)"
proof -
  let ?s = "s\<lparr>loader_start_status := CMD_START_PENDING\<rparr>"
  obtain r u where 1: "ask E (Kernel (sceKernelCreateThread ''vitacompanion_cmd_thread'')) ?s = (r, u)" by fastforce
  let ?u = "u\<lparr>loader_thid := rc r\<rparr>"
  have u: "u = tell E (Kernel (sceKernelCreateThread ''vitacompanion_cmd_thread'')) ?s"
    and r: "fst (ask E (Kernel (sceKernelCreateThread ''vitacompanion_cmd_thread'')) ?s) = r" using 1 by (simp_all add: ask_tellD)
  have slots: "neg (loader_sockfd s)" "neg (active_client_sockfd s)"
    using plugin_ok_slots [OF assms(1)] assms(2) by (simp_all add: slots_ok_def)
  have extra: "cmd_extra ?u x = cmd_extra s x" for x
    using assms(2) by (simp add: cmd_extra_def cmd_owned_def u r delta_def)
  have "beside s ?u" using extra by (simp add: beside_def u calls_tell)
  then have ok: "plugin_ok E c ?u" "services ?u = services s"
    using plugin_ok_beside [OF assms(1)] slots services_beside by (auto simp: slots_ok_def u)
  show ?thesis
  proof (cases "neg (rc r)")
    case True
    with assms(2,4) 1 ok show ?thesis by (auto simp: cmd_start_def Let_def not_le)
  next
    case False
    obtain q v where 2: "ask E (Kernel (sceKernelStartThread (rc r))) ?u = (q, v)" by fastforce
    have v: "plugin_ok E c v" "services v = services s" "loader_thid v = rc r" "loader_sockfd v = loader_sockfd s" "active_client_sockfd v = active_client_sockfd s"
      using ok by (simp_all add: ask_tellD [OF 2] u)
    show ?thesis
    proof (cases "neg (rc q)")
      case True
      then have "(ret, t) = (rc q, delete_loader E v)" using assms(2,4) 1 2 False by (simp add: cmd_start_def Let_def not_le)
      with delete_loader_ok [OF v(1)] v slots True False show ?thesis by simp
    next
      case started: False
      let ?w = "await_loader E others CMD_START_TIMEOUT_MS v"
      have w: "plugin_ok E c ?w" "services ?w = services s" "loader_thid ?w = rc r"
        using await_loader_ok [OF assms(3) v(1), where n = CMD_START_TIMEOUT_MS] v(2,3) by auto
      show ?thesis
      proof (cases "loader_start_status ?w = 0")
        case True
        then show ?thesis using assms(2,4) 1 2 False started w by (auto simp: cmd_start_def Let_def not_le)
      next
        case failed: False
        let ?ret = "if loader_start_status ?w = CMD_START_PENDING then - 1 else loader_start_status ?w"
        let ?x = "tell E (Kernel (sceKernelWaitThreadEnd (loader_thid (close_loader E ?w)))) (close_loader E ?w)"
        have "(ret, t) = (?ret, delete_loader E ?x)"
          using assms(2,4) 1 2 False started failed by (simp add: cmd_start_def Let_def not_le)
        moreover have "neg ?ret" "neg (active_client_sockfd ?w)" using plugin_ok_slots [OF w(1)] failed by (auto simp: slots_ok_def)
        moreover have b: "beside ?w (close_loader E ?w)" by (intro beside_close beside_refl)
        have "plugin_ok E c (close_loader E ?w)"
          using plugin_ok_beside [OF w(1) b] plugin_ok_slots [OF w(1)] by (simp add: slots_ok_def)
        then have "plugin_ok E c ?x" "services ?x = services s" using services_beside [OF b] w(2) by simp_all
        ultimately show ?thesis using delete_loader_ok [of E c ?x] w(3) False by simp
      qed
    qed
  qed
qed

section \<open>Starting and stopping the services\<close>

text \<open>While the services are down, neither server exists.\<close>

definition services_ok :: "'w env \<Rightarrow> (resource \<Rightarrow> int) \<Rightarrow> 'w plugin \<Rightarrow> bool" where
  "services_ok E c s \<longleftrightarrow> plugin_ok E c s \<and> (all_is_up s \<or> neg (loader_thid s) \<and> \<not> ftp_initialized (ftpd s))"

text \<open>The fields of the network thread that the services do not touch.\<close>

definition netctl_fields :: "'w plugin \<Rightarrow> i32 \<times> i32 \<times> bool" where
  "netctl_fields s = (net_thid s, netctl_cb_id s, netctl_initialized s)"

lemma servicesD:
  assumes "services t = services s"
  shows "all_is_up t = all_is_up s" "net_connected t = net_connected s" "netctl_fields t = netctl_fields s"
    "server_fields (ftpd t) = server_fields (ftpd s)" "ftp_initialized (ftpd t) = ftp_initialized (ftpd s)"
  using assms by (simp_all add: services_def netctl_fields_def server_fields_def)

lemma services_ok_same:
  "plugin_ok E c t \<Longrightarrow> services t = services s \<Longrightarrow> loader_thid t = loader_thid s \<Longrightarrow> services_ok E c s \<Longrightarrow> services_ok E c t"
  using servicesD [of t s] by (simp add: services_ok_def)

lemma services_ok_tell [simp]: "neutral n \<Longrightarrow> services_ok E c s \<Longrightarrow> services_ok E c (tell E n s)"
  by (rule services_ok_same [of E c _ s]) (simp_all add: services_ok_def)

lemma services_ok_bystander:
  "bystander E m \<Longrightarrow> services_ok E c s \<Longrightarrow> services_ok E c (m s) \<and> netctl_fields (m s) = netctl_fields s \<and> all_is_up (m s) = all_is_up s"
  using bystanderD [of E m c s] services_ok_same [of E c "m s" s] servicesD(1,3) [of "m s" s] by (simp add: services_ok_def)

lemma services_ok_upd [simp]:
  "services_ok E c (s\<lparr>desired_connected := b\<rparr>) = services_ok E c s" "services_ok E c (s\<lparr>run := b\<rparr>) = services_ok E c s"
  by (simp_all add: services_ok_def)

lemma plugin_ok_ftpd:
  assumes "plugin_ok E c s" and "list_fields f = list_fields (ftpd s)" and "server_fields f = server_fields (ftpd s)"
    and "server_sockfd f = server_sockfd (ftpd s)" and "trace f = calls s"
  shows "plugin_ok E c (s\<lparr>ftpd := f\<rparr>)"
proof -
  have f: "registry f ps = registry (ftpd s) ps" "client_heap f = client_heap (ftpd s)" "server_owned f x = server_owned (ftpd s) x"
    "server_clean f = server_clean (ftpd s)" "client_list_mtx f = client_list_mtx (ftpd s)" "ftp_initialized f = ftp_initialized (ftpd s)" for ps x
    using assms(2-4) by (auto simp: list_fields_def server_fields_def registry_def server_owned_def server_clean_def)
  have "plugin_extra (s\<lparr>ftpd := f\<rparr>) x = plugin_extra s x" for x
    unfolding plugin_extra_ftpd using f(2,3) assms(5) by (simp add: server_extra_def clients_owned_def)
  with assms(1) f show ?thesis by (simp add: plugin_ok_def heap_ok_def)
qed

definition ftp_frame :: "'w ftp \<Rightarrow> ((u32 \<Rightarrow> ftpvita_client_info option) \<times> u32 \<times> i32) \<times> (i32 \<times> i32 \<times> i32 \<times> i32 \<times> u32 \<times> bool) \<times> i32 \<times> event list" where
  "ftp_frame f = (list_fields f, server_fields f, server_sockfd f, trace f)"

lemma ftp_frame_upd [simp]:
  "ftp_frame (snd (ftpvita_add_device d f)) = ftp_frame f" "ftp_frame (ftpvita_set_file_buf_size n f) = ftp_frame f"
  by (simp_all add: ftp_frame_def list_fields_def server_fields_def ftpvita_add_device_def ftpvita_set_file_buf_size_def split: option.split)

lemma add_devices_frame [simp]: "ftp_frame (add_devices f) = ftp_frame f"
proof -
  have "ftp_frame (fold (\<lambda>d f. snd (ftpvita_add_device d f)) ds f) = ftp_frame f" for ds
    by (induction ds arbitrary: f) simp_all
  then show ?thesis by (simp add: add_devices_def)
qed

lemma plugin_ok_frame: "plugin_ok E c s \<Longrightarrow> ftp_frame f = ftp_frame (ftpd s) \<Longrightarrow> plugin_ok E c (s\<lparr>ftpd := f\<rparr>)"
  by (rule plugin_ok_ftpd) (simp_all add: ftp_frame_def)

lemma start_services_ok:
  assumes "services_ok E c s" and "\<not> all_is_up s" and "listener starting" and "\<forall>i. bystander E (loading i)"
  shows "\<exists>ret t. start_services E starting loading s = Some (ret, t) \<and> services_ok E c t \<and> netctl_fields t = netctl_fields s \<and>
    (if ret = 0 then all_is_up t \<and> net_connected t \<and> \<not> neg (loader_thid t) \<and> loader_start_status t = 0
     else ret = - 1 \<and> \<not> all_is_up t)"
proof -
  let ?f = "ftpvita_set_file_buf_size (64 * 1024) (ftpd s)"
  let ?s = "s\<lparr>ftpd := ?f\<rparr>"
  have s: "plugin_ok E c s" "neg (loader_thid s)" "\<not> ftp_initialized (ftpd s)" using assms(1,2) by (simp_all add: services_ok_def)
  have ok: "plugin_ok E c ?s"
    by (rule plugin_ok_frame [OF s(1)]) simp
  obtain ret addr g where init: "ftpvita_init E starting ?f = ((ret, addr), g)" by (metis prod.exhaust)
  have g: "plugin_ok E c (s\<lparr>ftpd := g\<rparr>)" "ftp_initialized g \<longrightarrow> ret = 0"
    using init_ok [OF ok _ assms(3), of ret addr g] init s(3) by (simp_all add: ftpvita_set_file_buf_size_def)
  show ?thesis
  proof (cases "neg ret")
    case True
    then show ?thesis using init g s(2) assms(2) by (auto simp: start_services_def services_ok_def netctl_fields_def)
  next
    case False
    let ?t = "s\<lparr>ftpd := add_devices g, net_connected := True\<rparr>"
    have "plugin_ok E c (s\<lparr>ftpd := g, ftpd := add_devices g\<rparr>)"
      by (rule plugin_ok_frame [OF g(1)]) simp
    then have t: "plugin_ok E c ?t" by simp
    obtain r u where start: "cmd_start E loading ?t = (r, u)" by fastforce
    have u: "plugin_ok E c u" "services u = services ?t"
      "if neg r then neg (loader_thid u) else r = 0 \<and> \<not> neg (loader_thid u) \<and> loader_start_status u = 0"
      using cmd_start_ok [OF t _ assms(4) start] s(2) by auto
    have fields: "netctl_fields u = netctl_fields s" "all_is_up u = all_is_up s" "net_connected u"
      using servicesD [OF u(2)] by (simp_all add: netctl_fields_def)
    show ?thesis
    proof (cases "neg r")
      case True
      obtain h where h: "ftpvita_fini E (ftpd u) = Some h" "plugin_ok E c (u\<lparr>ftpd := h\<rparr>)" "\<not> ftp_initialized h"
        using fini_ok [OF u(1)] by blast
      let ?v = "u\<lparr>net_connected := False, ftpd := h\<rparr>"
      have "?v = u\<lparr>ftpd := h, net_connected := False\<rparr>" by simp
      then have "plugin_ok E c ?v" using h(2) by (metis plugin_ok_upd(1))
      moreover have "start_services E starting loading s = Some (- 1, ?v)"
        using init False start True h(1) by (simp add: start_services_def Let_def)
      ultimately show ?thesis using h(3) u(3) True fields assms(2)
        by (intro exI [of _ "- 1"] exI [of _ ?v]) (simp add: services_ok_def netctl_fields_def)
    next
      case up: False
      have "start_services E starting loading s = Some (0, u\<lparr>all_is_up := True\<rparr>)"
        using init False start up by (simp add: start_services_def Let_def)
      then show ?thesis using u up fields by (auto simp: services_ok_def netctl_fields_def)
    qed
  qed
qed

lemma stop_services_ok:
  assumes "services_ok E c s"
  shows "\<exists>t. stop_services E s = Some t \<and> services_ok E c t \<and> netctl_fields t = netctl_fields s \<and> \<not> all_is_up t \<and> \<not> net_connected t"
proof (cases "all_is_up s")
  case False
  with assms show ?thesis
    by (intro exI [of _ "s\<lparr>net_connected := False\<rparr>"]) (simp add: stop_services_def services_ok_def netctl_fields_def)
next
  case True
  let ?s = "s\<lparr>net_connected := False\<rparr>"
  let ?t = "cmd_end E ?s"
  have "plugin_ok E c ?s" using assms by (simp add: services_ok_def)
  note t = cmd_end_ok [OF this]
  then obtain f where f: "ftpvita_fini E (ftpd ?t) = Some f" "plugin_ok E c (?t\<lparr>ftpd := f\<rparr>)" "\<not> ftp_initialized f"
    using fini_ok by blast
  have "netctl_fields ?t = netctl_fields s" "\<not> net_connected ?t" using t servicesD [of ?t ?s] by (simp_all add: netctl_fields_def)
  with f t True show ?thesis
    by (intro exI [of _ "?t\<lparr>ftpd := f, all_is_up := False\<rparr>"]) (simp add: stop_services_def services_ok_def netctl_fields_def)
qed

section \<open>The loop and the end of the network thread\<close>

lemma netctl_fields_upd [simp]:
  "netctl_fields (tell E n s) = netctl_fields s" "netctl_fields (s\<lparr>desired_connected := b\<rparr>) = netctl_fields s"
  "netctl_fields (s\<lparr>run := b\<rparr>) = netctl_fields s" "all_is_up (tell E n s) = all_is_up s"
  by (simp_all add: netctl_fields_def tell_eq)

lemma netctl_cb_simps [simp]:
  "services_ok E c (fold netctl_cb es s) = services_ok E c s" "netctl_fields (fold netctl_cb es s) = netctl_fields s"
  by (induction es arbitrary: s) (simp_all add: netctl_cb_def)

lemma net_turn_ok:
  assumes "services_ok E c s" and "listener starting" and "\<forall>i. bystander E (loading i)"
  shows "\<exists>t. net_turn E starting loading s = Some t \<and> services_ok E c t \<and> netctl_fields t = netctl_fields s"
proof -
  obtain r u where a: "ask E (Net sceNetCtlCheckCallback) s = (r, u)" by fastforce
  let ?u = "fold netctl_cb (netctl_events r) u"
  have u: "services_ok E c ?u" "netctl_fields ?u = netctl_fields s" using assms(1) by (simp_all add: ask_tellD [OF a])
  show ?thesis
    using start_services_ok [OF u(1) _ assms(2,3)] stop_services_ok [OF u(1)] u a by (auto simp: net_turn_def Let_def)
qed

lemma net_loop_ok:
  assumes "net_loop E starting loading meanwhile s = Some t" and "services_ok E c s" and "listener starting" and "\<forall>i. bystander E (loading i)"
    and "bystander E meanwhile"
  shows "services_ok E c t \<and> netctl_fields t = netctl_fields s \<and> \<not> run t"
  using assms
proof (induction rule: net_loop.raw_induct [rotated, consumes 1])
  case (1 net_loop E starting loading meanwhile s t)
  show ?case
  proof (cases "run s")
    case False
    with 1 show ?thesis by simp
  next
    case True
    obtain u where u: "net_turn E starting loading s = Some u" "services_ok E c u" "netctl_fields u = netctl_fields s"
      using net_turn_ok [OF 1(3-5)] by blast
    let ?v = "meanwhile (tell E (Kernel (sceKernelDelayThread (1000 * 1000))) u)"
    have v: "services_ok E c ?v" using services_ok_bystander [OF 1(6), of c] u(2) by simp
    have "netctl_fields ?v = netctl_fields s"
      using services_ok_bystander [OF 1(6), of c "tell E (Kernel (sceKernelDelayThread (1000 * 1000))) u"] u(2,3) by simp
    moreover have "net_loop E starting loading meanwhile ?v = Some t" using 1(2) True u(1) by simp
    from 1(1) [OF this v 1(4-6)] have "services_ok E c t \<and> netctl_fields t = netctl_fields ?v \<and> \<not> run t" .
    ultimately show ?thesis by simp
  qed
qed

lemma unregister_ok:
  assumes "services_ok E c s"
  shows "services_ok E c (unregister_callback E s) \<and> neg (netctl_cb_id (unregister_callback E s)) \<and>
    net_thid (unregister_callback E s) = net_thid s \<and> netctl_initialized (unregister_callback E s) = netctl_initialized s \<and>
    all_is_up (unregister_callback E s) = all_is_up s"
proof (cases "neg (netctl_cb_id s)")
  case True
  with assms show ?thesis by (simp add: unregister_callback_def)
next
  case False
  let ?t = "(tell E (Net (sceNetCtlInetUnregisterCallback (netctl_cb_id s))) s)\<lparr>netctl_cb_id := - 1\<rparr>"
  have "plugin_ok E c ?t"
    by (rule plugin_okI [of E c s])
      (use assms False in \<open>auto simp: services_ok_def plugin_ok_slots cmd_extra_def cmd_owned_def net_owned_def delta_def tell_eq ftp_core_def exec_eq\<close>)
  with assms False show ?thesis by (simp add: unregister_callback_def services_ok_def tell_eq)
qed

lemma exit_netctl_ok:
  assumes "services_ok E c s"
  shows "services_ok E c (exit_netctl E s) \<and> \<not> netctl_initialized (exit_netctl E s) \<and> net_thid (exit_netctl E s) = net_thid s \<and>
    netctl_cb_id (exit_netctl E s) = netctl_cb_id s \<and> all_is_up (exit_netctl E s) = all_is_up s"
proof (cases "netctl_initialized s")
  case False
  with assms show ?thesis by (simp add: exit_netctl_def)
next
  case True
  let ?t = "(tell E (Net sceNetCtlTerm) s)\<lparr>netctl_initialized := False\<rparr>"
  have "plugin_ok E c ?t"
    by (rule plugin_okI [of E c s])
      (use assms True in \<open>auto simp: services_ok_def plugin_ok_slots cmd_extra_def cmd_owned_def net_owned_def delta_def tell_eq ftp_core_def exec_eq\<close>)
  with assms True show ?thesis by (simp add: exit_netctl_def services_ok_def tell_eq)
qed

lemma net_finish_ok:
  assumes "services_ok E c s"
  shows "\<exists>t. net_finish E s = Some t \<and> services_ok E c t \<and> \<not> all_is_up t \<and> \<not> netctl_initialized t \<and> neg (netctl_cb_id t) \<and> net_thid t = net_thid s"
proof -
  obtain t where t: "stop_services E s = Some t" "services_ok E c t" "netctl_fields t = netctl_fields s" "\<not> all_is_up t"
    using stop_services_ok [OF assms] by blast
  with unregister_ok [OF t(2)] exit_netctl_ok [of E c "unregister_callback E t"] show ?thesis
    by (simp add: net_finish_def netctl_fields_def)
qed

text \<open>The system gives callbacks identifiers that are not negative.\<close>

definition callback_ids_ok :: "'w env \<Rightarrow> bool" where
  "callback_ids_ok E \<longleftrightarrow> (\<forall>w. let r = fst (sys E (Net sceNetCtlInetRegisterCallback) w) in neg (rc r) \<or> \<not> neg (out r 0))"

lemma sample_connection_ok:
  "sample_connection E s = (r, t) \<Longrightarrow> services_ok E c s \<Longrightarrow> services_ok E c t"
  "sample_connection E s = (r, t) \<Longrightarrow> netctl_fields t = netctl_fields s \<and> all_is_up t = all_is_up s"
  by (auto simp: sample_connection_def dest!: ask_tellD split: prod.splits)

lemma netctl_initialized_ok:
  assumes "services_ok E c s" and "\<not> netctl_initialized s" and "ask E (Net sceNetCtlInit) s = (r, u)"
  shows "services_ok E c (u\<lparr>netctl_initialized := (rc r = 0)\<rparr>)"
proof -
  have u: "u = tell E (Net sceNetCtlInit) s" "fst (ask E (Net sceNetCtlInit) s) = r" using assms(3) by (simp_all add: ask_tellD)
  have "plugin_ok E c (u\<lparr>netctl_initialized := (rc r = 0)\<rparr>)"
    by (rule plugin_okI [of E c s])
      (use assms(1,2) u in \<open>auto simp: services_ok_def plugin_ok_slots cmd_extra_def cmd_owned_def net_owned_def delta_def tell_eq ask_eq ftp_core_def exec_def syscall_def split: prod.splits\<close>)
  with assms(1) u(1) show ?thesis by (simp add: services_ok_def tell_eq)
qed

lemma callback_registered_ok:
  assumes "services_ok E c s" and "neg (netctl_cb_id s)" and "ask E (Net sceNetCtlInetRegisterCallback) s = (r, u)" and "callback_ids_ok E"
  shows "if neg (rc r) then services_ok E c u else services_ok E c (u\<lparr>netctl_cb_id := out r 0\<rparr>)"
proof -
  have u: "u = tell E (Net sceNetCtlInetRegisterCallback) s" "fst (ask E (Net sceNetCtlInetRegisterCallback) s) = r"
    using assms(3) by (simp_all add: ask_tellD)
  have id: "\<not> neg (rc r) \<Longrightarrow> \<not> neg (out r 0)"
    using assms(4) [unfolded callback_ids_ok_def Let_def, THEN spec, of "world (ftpd s)"] u(2)
    by (simp add: ask_def syscall_def split: prod.splits)
  have s: "plugin_ok E c s" "slots_ok s" using assms(1) by (auto simp: services_ok_def intro: plugin_ok_slots)
  let ?t = "u\<lparr>netctl_cb_id := out r 0\<rparr>"
  have extra: "cmd_extra u x = cmd_extra s x + delta (Net sceNetCtlInetRegisterCallback, r) x" for x using u by simp
  show ?thesis
  proof (cases "neg (rc r)")
    case True
    have "plugin_ok E c u"
      by (rule plugin_okI [OF s(1)]) (use True s(2) in \<open>simp_all add: extra delta_def, simp_all add: u(1)\<close>)
    then show ?thesis using True assms(1) by (simp add: services_ok_def u(1) tell_eq)
  next
    case False
    have owned: "net_owned ?t x = net_owned s x + of_bool (x = Callback (out r 0))" for x
      using assms(2) id [OF False] by (simp add: net_owned_def u(1) tell_eq)
    have "cmd_extra ?t x = cmd_extra u x" for x by (simp add: cmd_extra_def cmd_owned_def)
    then have "cmd_extra ?t x - net_owned ?t x = cmd_extra s x - net_owned s x" for x
      using False by (simp add: extra owned delta_def)
    then have "plugin_ok E c ?t"
      by (intro plugin_okI [OF s(1)]) (use s(2) in \<open>simp_all add: u(1)\<close>)
    then show ?thesis using False assms(1) by (simp add: services_ok_def u(1) tell_eq)
  qed
qed

text \<open>The network thread holds nothing of NetCtl.\<close>

definition netctl_clean :: "'w plugin \<Rightarrow> bool" where
  "netctl_clean s \<longleftrightarrow> \<not> netctl_initialized s \<and> neg (netctl_cb_id s)"

lemma net_thread_ok:
  assumes "services_ok E c s" and "\<not> all_is_up s" and "netctl_clean s" and "listener starting" and "\<forall>i. bystander E (loading i)"
    and "bystander E meanwhile" and "callback_ids_ok E" and "net_thread E starting loading meanwhile s = Some (ret, t)"
  shows "services_ok E c t \<and> \<not> all_is_up t \<and> netctl_clean t \<and> net_thid t = net_thid s"
proof -
  let ?s1 = "meanwhile (tell E (Kernel (sceKernelDelayThread (3 * 1000 * 1000))) s)"
  have s1: "services_ok E c ?s1" "netctl_fields ?s1 = netctl_fields s" "\<not> all_is_up ?s1"
    using services_ok_bystander [OF assms(6), of c "tell E (Kernel (sceKernelDelayThread (3 * 1000 * 1000))) s"] assms(1,2) by simp_all
  obtain r2 u2 where 2: "ask E (Net sceNetCtlInit) ?s1 = (r2, u2)" by fastforce
  let ?s2 = "u2\<lparr>netctl_initialized := (rc r2 = 0)\<rparr>"
  have clean1: "\<not> netctl_initialized ?s1" "neg (netctl_cb_id ?s1)" "net_thid ?s1 = net_thid s"
    using s1(2) assms(3) by (simp_all add: netctl_fields_def netctl_clean_def)
  have u2: "netctl_fields u2 = netctl_fields s" "\<not> all_is_up u2" using s1 by (simp_all add: ask_tellD [OF 2])
  have s2: "services_ok E c ?s2" using netctl_initialized_ok [OF s1(1) clean1(1) 2] .
  show ?thesis
  proof (cases "neg (rc r2) \<and> rc r2 \<noteq> NET_CTL_ERROR_NOT_TERMINATED")
    case True
    have "rc r2 \<noteq> 0" using True by auto
    then have "?s2 = u2" using u2(1) assms(3) by (simp add: netctl_fields_def netctl_clean_def)
    with True assms(3,8) 2 s2 u2 show ?thesis by (simp add: net_thread_def Let_def netctl_clean_def netctl_fields_def)
  next
    case False
    obtain r3 s3 where 3: "sample_connection E ?s2 = (r3, s3)" by fastforce
    have s3: "services_ok E c s3" "neg (netctl_cb_id s3)" "net_thid s3 = net_thid s" "\<not> all_is_up s3"
      using sample_connection_ok [OF 3] s2 u2 assms(3) by (simp_all add: netctl_fields_def netctl_clean_def)
    obtain r4 u4 where 4: "ask E (Net sceNetCtlInetRegisterCallback) s3 = (r4, u4)" by fastforce
    have u4: "netctl_fields u4 = netctl_fields s3" "\<not> all_is_up u4" using s3(4) by (simp_all add: ask_tellD [OF 4])
    note reg = callback_registered_ok [OF s3(1,2) 4 assms(7)]
    show ?thesis
    proof (cases "neg (rc r4)")
      case True
      then have "t = exit_netctl E u4" using assms(8) 2 3 4 False by (auto simp: net_thread_def Let_def split: if_splits)
      with exit_netctl_ok [of E c u4] reg True u4 s3 show ?thesis by (simp add: netctl_clean_def netctl_fields_def)
    next
      case registered: False
      let ?s4 = "u4\<lparr>netctl_cb_id := out r4 0\<rparr>"
      have s4: "services_ok E c ?s4" "net_thid ?s4 = net_thid s" using reg registered u4 s3 by (simp_all add: netctl_fields_def)
      obtain r5 s5 where 5: "sample_connection E ?s4 = (r5, s5)" by fastforce
      have s5: "services_ok E c s5" "netctl_fields s5 = netctl_fields ?s4" using sample_connection_ok [OF 5] s4 by auto
      obtain s6 where 6: "net_loop E starting loading meanwhile s5 = Some s6" "net_finish E s6 = Some t"
        using assms(8) 2 3 4 5 False registered by (auto simp: net_thread_def Let_def Option.bind_eq_Some_conv split: if_splits)
      have s6: "services_ok E c s6" "net_thid s6 = net_thid s"
        using net_loop_ok [OF 6(1) s5(1) assms(4-6)] s5(2) s4(2) by (simp_all add: netctl_fields_def)
      from net_finish_ok [OF s6(1)] 6(2) s6(2) show ?thesis by (auto simp: netctl_clean_def)
    qed
  qed
qed

end
