(* ===== verification/Plugin_Threads.thy ===== *)
theory Plugin_Threads
  imports Plugin_Lifecycle
begin

text \<open>
  The threads beside the network thread, as a transition system on the state of the plugin: the threads of the FTP
  server, the thread of the command server, and the module's stop. Every step keeps \<open>plugin_ok\<close> and the globals of the
  services, so any number of them is something that the network thread can rely on (\<open>bystander\<close>).
\<close>

section \<open>Steps\<close>

text \<open>
  The threads of the FTP server make their steps; while the server is not initialized no client arrives, but the clients
  that a shutdown has detached still finish their commands and leave. The command thread listens, serves a client, or
  ends; and the module is told to stop. Threads interleave between clients and between commands.
\<close>

inductive plugin_step :: "'w env \<Rightarrow> (u32 \<Rightarrow> 'w ftp \<Rightarrow> 'w ftp option) \<Rightarrow> 'w plugin \<Rightarrow> 'w plugin \<Rightarrow> bool" for E custom where
  ftp: "ftp_step E custom (ftpd s) f \<Longrightarrow> ftp_initialized (ftpd s) \<or> dom (client_heap f) \<subseteq> dom (client_heap (ftpd s)) \<Longrightarrow>
     plugin_step E custom s (s\<lparr>ftpd := f\<rparr>)"
| listen: "\<not> neg (loader_thid s) \<Longrightarrow> loader_start_status s = CMD_START_PENDING \<Longrightarrow> neg (loader_sockfd s) \<Longrightarrow>
     cmd_listen E s = (ok, t) \<Longrightarrow> plugin_step E custom s t"
| serve: "\<not> neg (loader_thid s) \<Longrightarrow> loader_start_status s = 0 \<Longrightarrow> neg (active_client_sockfd s) \<Longrightarrow> run s \<Longrightarrow> net_connected s \<Longrightarrow>
     ask E (Net (sceNetAccept (loader_sockfd s))) s = (r, u) \<Longrightarrow> \<not> neg (rc r) \<Longrightarrow> serve_client E (rc r) u = Some t \<Longrightarrow>
     plugin_step E custom s t"
| exit: "\<not> neg (loader_thid s) \<Longrightarrow> plugin_step E custom s (cmd_exit_thread E s)"
| stop: "plugin_step E custom s (s\<lparr>run := False\<rparr>)"

inductive_cases plugin_stepE: "plugin_step E custom s t"

text \<open>What a step of another thread does to the network thread's view.\<close>

definition unseen :: "'w plugin \<Rightarrow> 'w plugin \<Rightarrow> bool" where
  "unseen s t \<longleftrightarrow> services t = services s \<and> loader_thid t = loader_thid s"

text \<open>What the plugin relies on from the system and from the application that registered commands.\<close>

definition platform_ok :: "'w env \<Rightarrow> (u32 \<Rightarrow> 'w ftp \<Rightarrow> 'w ftp option) \<Rightarrow> bool" where
  "platform_ok E custom \<longleftrightarrow> 514 \<le> PATH_MAX E \<and> custom_ok E custom \<and> names_ok E"

lemma ftp_step_plugin:
  assumes "plugin_ok E c s" and "ftp_step E custom (ftpd s) f"
    and "ftp_initialized (ftpd s) \<or> dom (client_heap f) \<subseteq> dom (client_heap (ftpd s))" and "platform_ok E custom"
  shows "plugin_ok E c (s\<lparr>ftpd := f\<rparr>) \<and> unseen s (s\<lparr>ftpd := f\<rparr>)"
proof -
  obtain ps where ok: "heap_ok E (ftpd s)" "registry (ftpd s) ps" "ftp_initialized (ftpd s) \<or> ps = []"
    using assms(1) by (auto simp: plugin_ok_def)
  have f: "step_ok E (ftpd s) f" "ftp_globals f = ftp_globals (ftpd s)"
    using ftp_step_keeps [OF assms(2) ok(1)] assms(4) by (simp_all add: platform_ok_def)
  have same: "server_fields f = server_fields (ftpd s)" "server_sockfd f = server_sockfd (ftpd s)" using f(2) by (simp_all add: ftp_globals_def)
  have g: "server_owned f x = server_owned (ftpd s) x" "ftp_initialized f = ftp_initialized (ftpd s)"
    "client_list_mtx f = client_list_mtx (ftpd s)" "server_clean f = server_clean (ftpd s)" for x
    using same by (auto simp: server_fields_def server_owned_def server_clean_def)
  obtain qs where qs: "registry f qs" "set qs \<subseteq> set ps \<union> (dom (client_heap f) - dom (client_heap (ftpd s)))" "heap_ok E f"
    using f(1) ok(2) unfolding step_ok_def by blast
  have list: "ftp_initialized f \<or> qs = []" using assms(3) ok(3) qs(2) g(2) by (metis Diff_eq_empty_iff list.set(1) set_empty2 subset_empty Un_empty_left)
  have "plugin_extra (s\<lparr>ftpd := f\<rparr>) x = plugin_extra s x" for x
  proof -
    have "unaccounted_for f x = unaccounted_for (ftpd s) x" using f(1) by (simp add: step_ok_def)
    then show ?thesis using g(1) [of x] unfolding plugin_extra_ftpd by (simp add: server_extra_def unaccounted_for_def)
  qed
  then have "plugin_ok E c (s\<lparr>ftpd := f\<rparr>)" using assms(1) g(2-4) qs(1,3) list by (auto simp: plugin_ok_def)
  then show ?thesis using same by (simp add: unseen_def services_def)
qed

lemma beside_plugin:
  assumes "plugin_ok E c s" and "beside s t" and "slots_ok t" and "loader_thid t = loader_thid s"
  shows "plugin_ok E c t \<and> unseen s t"
  using plugin_ok_beside [OF assms(1-3)] services_beside [OF assms(2)] assms(4) by (simp add: unseen_def)

lemma listen_plugin:
  assumes "plugin_ok E c s" and "loader_start_status s = CMD_START_PENDING" and "\<not> neg (loader_thid s)" and "neg (loader_sockfd s)"
    and "cmd_listen E s = (ok, t)"
  shows "plugin_ok E c t \<and> unseen s t"
proof -
  note l = cmd_listen_ok [OF assms(4,5)]
  have "slots_ok s" using plugin_ok_slots [OF assms(1)] .
  then have "neg (active_client_sockfd s)" using assms(2) by (simp add: slots_ok_def)
  moreover have "loader_start_status t = 0 \<or> neg (loader_start_status t)"
    using assms(5) by (auto simp: cmd_listen_def Let_def split: prod.splits if_splits)
  ultimately have "slots_ok t" using l assms(3) by (auto simp: slots_ok_def)
  with beside_plugin [OF assms(1)] l show ?thesis by blast
qed

lemma serve_plugin:
  assumes "plugin_ok E c s" and "loader_start_status s = 0" and "\<not> neg (loader_thid s)" and "neg (active_client_sockfd s)"
    and "ask E (Net (sceNetAccept (loader_sockfd s))) s = (r, u)" and "\<not> neg (rc r)" and "serve_client E (rc r) u = Some t" and "names_ok E"
  shows "plugin_ok E c t \<and> unseen s t"
proof -
  obtain ps where reg: "registry (ftpd s) ps" using assms(1) by (auto simp: plugin_ok_def)
  have "loader_ok s s" using assms(4) by (simp add: loader_ok_def)
  from cmd_turn_ok [OF this reg assms(8,5-7)] have t: "beside s t" "neg (active_client_sockfd t)" "loader_fields t = loader_fields s"
    by (simp_all add: loader_ok_def)
  then have "slots_ok t" using assms(2,3) by (simp add: slots_ok_def loader_fields_def)
  then show ?thesis using beside_plugin [OF assms(1) t(1)] t(3) by (simp add: loader_fields_def)
qed

lemma exit_plugin:
  assumes "plugin_ok E c s" and "\<not> neg (loader_thid s)"
  shows "plugin_ok E c (cmd_exit_thread E s) \<and> unseen s (cmd_exit_thread E s)"
proof -
  have "slots_ok s" using plugin_ok_slots [OF assms(1)] .
  then have "slots_ok (cmd_exit_thread E s)" using assms(2) by (auto simp: cmd_exit_thread_def Let_def slots_ok_def)
  moreover have "loader_thid (cmd_exit_thread E s) = loader_thid s" by (simp add: cmd_exit_thread_def Let_def)
  ultimately show ?thesis using beside_plugin [OF assms(1)] beside_exit [OF beside_refl, of s E] by blast
qed

lemma plugin_step_ok:
  assumes "plugin_step E custom s t" and "plugin_ok E c s" and "platform_ok E custom"
  shows "plugin_ok E c t \<and> unseen s t"
  using assms(1)
proof cases
  case (ftp f)
  then show ?thesis using ftp_step_plugin [OF assms(2) _ _ assms(3)] by blast
next
  case (listen ok)
  then show ?thesis using listen_plugin [OF assms(2)] by blast
next
  case (serve r u)
  then show ?thesis using serve_plugin [OF assms(2)] assms(3) unfolding platform_ok_def by blast
next
  case exit
  then show ?thesis using exit_plugin [OF assms(2)] by blast
next
  case stop
  then show ?thesis using assms(2) by (simp add: unseen_def services_def)
qed

lemma plugin_run_ok:
  assumes "(plugin_step E custom)\<^sup>*\<^sup>* s t" and "plugin_ok E c s" and "platform_ok E custom"
  shows "plugin_ok E c t \<and> unseen s t"
  using assms(1)
proof induction
  case base
  show ?case using assms(2) by (simp add: unseen_def)
next
  case (step t u)
  then show ?case using plugin_step_ok [OF step(2) _ assms(3), of c] by (auto simp: unseen_def)
qed

text \<open>Hence what the other threads do while the network thread waits is any number of these steps.\<close>

definition other_threads :: "'w env \<Rightarrow> (u32 \<Rightarrow> 'w ftp \<Rightarrow> 'w ftp option) \<Rightarrow> ('w plugin \<Rightarrow> 'w plugin) \<Rightarrow> bool" where
  "other_threads E custom m \<longleftrightarrow> (\<forall>s. (plugin_step E custom)\<^sup>*\<^sup>* s (m s))"

lemma other_threads_bystander: "other_threads E custom m \<Longrightarrow> platform_ok E custom \<Longrightarrow> bystander E m"
  using plugin_run_ok by (fastforce simp: other_threads_def bystander_def unseen_def)

lemma other_threads_idle: "other_threads E custom (\<lambda>s. s)"
  by (simp add: other_threads_def)

lemma other_threads_stop: "other_threads E custom (\<lambda>s. s\<lparr>run := False\<rparr>)"
  by (auto simp: other_threads_def intro: plugin_step.stop)

end
