(* ===== verification/Plugin_Properties.thy ===== *)
theory Plugin_Properties
  imports Plugin_Threads Cmd_Properties
begin

text \<open>
  The properties of the plugin's life: starting and stopping the services, the network thread, the module's entry
  points, and the threads beside them.
\<close>

section \<open>What the network thread relies on\<close>


lemma companion_ok: "plugin_ok E (plugin_extra (companion w)) (companion w)"
proof -
  have "client_heap (ftpd (companion w)) = (\<lambda>_. None)" "ftp_initialized (ftpd (companion w))" "client_list_mtx (ftpd (companion w)) = 2"
    by (simp_all add: companion_def script_ftp_def)
  then show ?thesis using companion_registry [of w] by (auto simp: plugin_ok_def heap_ok_def slots_ok_def companion_def)
qed

text \<open>An application whose commands do nothing.\<close>

lemma install_platform: "platform_ok install_env (\<lambda>_ s. Some s)"
  using install_env_names by (simp add: platform_ok_def custom_ok_def may_end_def ends_def command_post_def install_env_def script_env_def)


section \<open>Starting the services\<close>

lemma services_down:
  assumes "plugin_ok E c s" and "neg (loader_thid s)" and "\<not> ftp_initialized (ftpd s)"
  shows "server_owned (ftpd s) x = 0" "cmd_owned s x = 0" "balance (calls s) x - clients_owned (ftpd s) x = c x + net_owned s x"
proof -
  have ok: "slots_ok s" "plugin_extra s x = c x" using assms(1) by (simp_all add: plugin_ok_def)
  show *: "cmd_owned s x = 0" using assms(2) ok(1) by (simp add: slots_ok_def cmd_owned_def holds_def)
  show "server_owned (ftpd s) x = 0" using assms(1,3) by (simp add: plugin_ok_def server_clean_def server_owned_def)
  with * ok(2) show "balance (calls s) x - clients_owned (ftpd s) x = c x + net_owned s x" by (simp add: plugin_extra_def cmd_extra_def)
qed


text \<open>The plugin before its services start, with a script for the start of the FTP server.\<close>

definition down_plugin :: "ret list \<Rightarrow> ret list plugin" where
  "down_plugin w = (companion w)\<lparr>ftpd := stopped_server\<lparr>world := w, client_list := 0, number_clients := 0\<rparr>, loader_thid := - 1,
     netctl_cb_id := - 1, netctl_initialized := False\<rparr>"

definition ftp_start_session :: "ret list" where
  "ftp_start_session = [answer 0, answer 0, answer_text ''10.0.0.2'', answer 2, answer 3, answer 0, answer 0]"

lemma down_plugin_simps [simp]:
  "loader_thid (down_plugin w) = - 1" "\<not> ftp_initialized (ftpd (down_plugin w))" "\<not> all_is_up (down_plugin w)" "run (down_plugin w)"
  "calls (down_plugin w) = []" "netctl_clean (down_plugin w)" "net_thid (down_plugin w) = 8" "client_heap (ftpd (down_plugin w)) = (\<lambda>_. None)"
  "world (ftpd (down_plugin w)) = w"
  by (simp_all add: down_plugin_def companion_def stopped_server_def script_ftp_def netctl_clean_def)

lemma down_plugin_ok: "plugin_ok E (plugin_extra (down_plugin w)) (down_plugin w)"
proof -
  have "registry (ftpd (down_plugin w)) []"
    using companion_registry [of w] by (simp add: registry_def down_plugin_def companion_def stopped_server_def script_ftp_def)
  moreover from this have "heap_ok E (ftpd (down_plugin w))" by (auto simp: heap_ok_def)
  ultimately show ?thesis
    by (auto simp: plugin_ok_def slots_ok_def) (simp_all add: down_plugin_def companion_def stopped_server_def script_ftp_def server_clean_def)
qed

lemma listener_prompt: "listener prompt_thread"
  using prompt_thread_ok by (simp add: listener_def prompt_thread_def list_fields_def)

lemma add_devices_world: "world (add_devices f) = world f \<and> ftp_initialized (add_devices f) = ftp_initialized f"
proof -
  have "world (fold (\<lambda>d f. snd (ftpvita_add_device d f)) ds f) = world f \<and>
      ftp_initialized (fold (\<lambda>d f. snd (ftpvita_add_device d f)) ds f) = ftp_initialized f" for ds
    by (induction ds arbitrary: f) (simp_all add: ftpvita_add_device_def split: option.split)
  then show ?thesis by (simp add: add_devices_def)
qed

text \<open>The FTP server starts, the command thread cannot be created, and the FTP server is shut down again.\<close>

lemma start_without_loader:
  assumes "start_services install_env prompt_thread loading (down_plugin ftp_start_session) = Some (ret, t)"
  shows "ret = - 1"
proof -
  let ?f = "ftpvita_set_file_buf_size (64 * 1024) (ftpd (down_plugin ftp_start_session))"
  obtain addr g where g: "ftpvita_init install_env prompt_thread ?f = ((0, addr), g)" "world g = []"
    using prompt_start [of ?f install_env] install_syscall by (auto simp: ftpvita_set_file_buf_size_def ftp_start_session_def)
  have loader: "fst (cmd_start install_env loading s) = - 1" if "world (ftpd s) = []" "neg (loader_thid s)" for s
    using that by (simp add: cmd_start_def install_ask script_ask answer_def Let_def)
  let ?t = "(down_plugin ftp_start_session)\<lparr>ftpd := add_devices g, net_connected := True\<rparr>"
  obtain u where "cmd_start install_env loading ?t = (- 1, u)"
    using loader [of ?t] g(2) by (cases "cmd_start install_env loading ?t") (simp add: add_devices_world)
  then show ?thesis using assms g by (auto simp: start_services_def Let_def Option.bind_eq_Some_conv)
qed


section \<open>The network thread\<close>


text \<open>The module is stopped during the first delay; the callback is registered with identifier 0 all the same.\<close>

definition callback_env :: "ret list env" where
  "callback_env = install_env\<lparr>sys := (\<lambda>c w. if c = Net sceNetCtlInetRegisterCallback then (answer 0, w) else sys install_env c w)\<rparr>"

lemma callback_syscall:
  "syscall callback_env c s = (if c = Net sceNetCtlInetRegisterCallback then (answer 0, s\<lparr>trace := trace s @ [(c, answer 0)]\<rparr>)
     else syscall install_env c s)"
  by (simp add: syscall_def callback_env_def)

lemma callback_ask:
  "ask callback_env c s = (if c = Net sceNetCtlInetRegisterCallback then (answer 0, s\<lparr>ftpd := (ftpd s)\<lparr>trace := calls s @ [(c, answer 0)]\<rparr>\<rparr>)
     else ask install_env c s)"
  by (simp add: ask_def callback_syscall)

lemma callback_platform: "platform_ok callback_env (\<lambda>_ s. Some s)"
  using install_platform
  by (simp add: platform_ok_def names_ok_def custom_ok_def may_end_def ends_def command_post_def callback_env_def)

lemma net_thread_stopped:
  "\<exists>t. net_thread callback_env prompt_thread (\<lambda>_ s. s) (\<lambda>s. s\<lparr>run := False\<rparr>) (down_plugin [answer 0, answer 0, answer 0, answer 0]) =
     Some (0, t) \<and> length (calls t) = 7"
  by (simp add: net_thread_def callback_ask install_ask script_ask sample_connection_def net_loop.simps net_finish_def stop_services_def
      unregister_callback_def exit_netctl_def tell_def Let_def answer_def)


section \<open>The end of the loop\<close>

text \<open>The first rounds of the loop, whether or not it is to stop.\<close>

fun net_rounds :: "'w env \<Rightarrow> (nat \<Rightarrow> 'w ftp \<Rightarrow> 'w ftp) \<Rightarrow> (nat \<Rightarrow> 'w plugin \<Rightarrow> 'w plugin) \<Rightarrow>
    ('w plugin \<Rightarrow> 'w plugin) \<Rightarrow> nat \<Rightarrow> 'w plugin \<Rightarrow> 'w plugin option" where
  "net_rounds E starting loading meanwhile 0 s = Some s"
| "net_rounds E starting loading meanwhile (Suc n) s =
     do { s \<leftarrow> net_turn E starting loading s;
          net_rounds E starting loading meanwhile n (meanwhile (tell E (Kernel (sceKernelDelayThread (1000 * 1000))) s)) }"

lemma net_rounds_total:
  assumes "services_ok E c s" and "listener starting" and "\<forall>i. bystander E (loading i)" and "bystander E meanwhile"
  shows "\<exists>t. net_rounds E starting loading meanwhile n s = Some t"
  using assms(1)
proof (induction n arbitrary: s)
  case (Suc n)
  obtain u where u: "net_turn E starting loading s = Some u" "services_ok E c u" using net_turn_ok [OF Suc.prems assms(2,3)] by blast
  have "services_ok E c (meanwhile (tell E (Kernel (sceKernelDelayThread (1000 * 1000))) u))"
    using services_ok_bystander [OF assms(4)] u(2) by simp
  from Suc.IH [OF this] u(1) show ?case by simp
qed simp

lemma net_loop_rounds:
  assumes "net_loop E starting loading meanwhile s = Some t"
  shows "\<exists>n. net_rounds E starting loading meanwhile n s = Some t \<and> \<not> run t"
  using assms
proof (induction rule: net_loop.raw_induct [rotated, consumes 1])
  case (1 net_loop E starting loading meanwhile s t)
  show ?case
  proof (cases "run s")
    case False
    with 1(2) show ?thesis by (intro exI [of _ 0]) simp
  next
    case True
    then obtain u where u: "net_turn E starting loading s = Some u"
      "net_loop E starting loading meanwhile (meanwhile (tell E (Kernel (sceKernelDelayThread (1000 * 1000))) u)) = Some t"
      using 1(2) by (auto simp: Option.bind_eq_Some_conv)
    from 1(1) [OF u(2)] obtain n where
      "net_rounds E starting loading meanwhile n (meanwhile (tell E (Kernel (sceKernelDelayThread (1000 * 1000))) u)) = Some t" "\<not> run t"
      by blast
    with u(1) show ?thesis by (intro exI [of _ "Suc n"]) simp
  qed
qed

lemma rounds_net_loop:
  assumes "net_rounds E starting loading meanwhile n s = Some t" and "\<not> run t"
    and "\<forall>m < n. run (the (net_rounds E starting loading meanwhile m s))"
  shows "net_loop E starting loading meanwhile s = Some t"
  using assms
proof (induction n arbitrary: s)
  case 0
  then show ?case by (simp add: net_loop.simps)
next
  case (Suc n)
  obtain u where u: "net_turn E starting loading s = Some u" using Suc.prems(1) by (auto simp: Option.bind_eq_Some_conv)
  let ?v = "meanwhile (tell E (Kernel (sceKernelDelayThread (1000 * 1000))) u)"
  have "net_loop E starting loading meanwhile ?v = Some t"
  proof (rule Suc.IH)
    show "\<forall>m < n. run (the (net_rounds E starting loading meanwhile m ?v))" using Suc.prems(3) u by fastforce
  qed (use Suc.prems u in simp_all)
  moreover have "run s" using Suc.prems(3) by fastforce
  ultimately show ?case using u by (simp add: net_loop.simps [of _ _ _ _ s])
qed



section \<open>The module\<close>

lemma tell_plugin_fields [simp]:
  "ftp_initialized (ftpd (tell E n s)) = ftp_initialized (ftpd s)" "run (tell E n s) = run s" "net_thid (tell E n s) = net_thid s" "netctl_clean (tell E n s) = netctl_clean s"
  by (simp_all add: tell_eq netctl_clean_def)

lemma net_start_books:
  assumes "neg (net_thid s)" and "net_start E s = (ret, t)"
  shows "run t = run s \<and> (if neg ret then neg (net_thid t) \<and> (\<forall>x. balance (calls t) x = balance (calls s) x)
    else \<not> neg (net_thid t) \<and> (\<forall>x. balance (calls t) x = balance (calls s) x + of_bool (x = Thread (net_thid t))))"
proof -
  obtain r u where 1: "ask E (Kernel (sceKernelCreateThread ''vitacompanion_net_thread'')) s = (r, u)" by fastforce
  let ?u = "u\<lparr>net_thid := rc r\<rparr>"
  obtain q v where 2: "ask E (Kernel (sceKernelStartThread (rc r))) ?u = (q, v)" by fastforce
  have u: "run u = run s" "balance (calls u) x = balance (calls s) x + of_bool (\<not> neg (rc r) \<and> x = Thread (rc r))" for x
    using 1 by (auto simp: ask_tellD [OF 1] delta_def dest: arg_cong [where f = fst])
  have v: "run v = run s" "net_thid v = rc r" "balance (calls v) x = balance (calls u) x" for x
    using u(1) by (simp_all add: ask_tellD [OF 2])
  show ?thesis using assms 1 2 u v by (auto simp: net_start_def Let_def not_le delta_def split: if_splits)
qed

text \<open>C39: the module starts or leaves nothing. When the network thread does not exist, \<open>module_start\<close> succeeds only
  with the memory pool initialized, the network thread created and started, and the flag of its loop set; on each failure the
  thread and the pool are given back and the loop's flag is not left set.\<close>

theorem module_start_all_or_nothing:
  assumes "neg (net_thid s)" and "module_start E s = (res, t)"
  shows "if res = SCE_KERNEL_START_SUCCESS
    then run t \<and> \<not> neg (net_thid t) \<and>
      (\<forall>x. balance (calls t) x = balance (calls s) x + of_bool (x = Pool) + of_bool (x = Thread (net_thid t)))
    else neg (net_thid t) \<and> (run t \<longrightarrow> run s) \<and> (\<forall>x. balance (calls t) x = balance (calls s) x)"
proof -
  obtain r u where 1: "ask E (Kernel (taipool_init (1 * 1024 * 1024))) s = (r, u)" by fastforce
  let ?u = "u\<lparr>run := True\<rparr>"
  obtain ret v where 2: "net_start E ?u = (ret, v)" by fastforce
  have u: "net_thid u = net_thid s" "run u = run s"
    "balance (calls u) x = balance (calls s) x + of_bool (\<not> neg (rc r) \<and> x = Pool)" for x
    using 1 by (auto simp: ask_tellD [OF 1] delta_def dest: arg_cong [where f = fst])
  have v: "run v" "if neg ret then neg (net_thid v) \<and> (\<forall>x. balance (calls v) x = balance (calls u) x)
    else \<not> neg (net_thid v) \<and> (\<forall>x. balance (calls v) x = balance (calls u) x + of_bool (x = Thread (net_thid v)))"
    using net_start_books [OF _ 2] u(1) assms(1) by simp_all
  show ?thesis using assms 1 2 u v by (auto simp: module_start_def delta_def split: if_splits)
qed

theorem module_start_all_or_nothing_witness:
  "\<exists>t. module_start script_env ((down_plugin [answer 0, answer 8, answer (- 1), answer 0, answer 0])\<lparr>net_thid := - 1, run := False\<rparr>) =
     (SCE_KERNEL_START_FAILED, t) \<and> length (calls t) = 5 \<and> \<not> run t \<and> (\<forall>x. balance (calls t) x = 0)"
proof -
  let ?s = "(down_plugin [answer 0, answer 8, answer (- 1), answer 0, answer 0])\<lparr>net_thid := - 1, run := False\<rparr>"
  obtain t where t: "module_start script_env ?s = (SCE_KERNEL_START_FAILED, t)" "length (calls t) = 5" "\<not> run t"
    by (simp add: module_start_def net_start_def script_ask tell_def Let_def answer_def)
  have "neg (net_thid ?s)" by simp
  from module_start_all_or_nothing [OF this t(1)] t show ?thesis by simp
qed

lemma net_thread_deleted:
  assumes "services_ok E c s" and "\<not> neg (net_thid s)"
  shows "services_ok E c ((tell E (Kernel (sceKernelDeleteThread (net_thid s))) s)\<lparr>net_thid := - 1\<rparr>)"
proof -
  let ?t = "(tell E (Kernel (sceKernelDeleteThread (net_thid s))) s)\<lparr>net_thid := - 1\<rparr>"
  have s: "plugin_ok E c s" "slots_ok s" using assms(1) by (auto simp: services_ok_def intro: plugin_ok_slots)
  have "net_owned ?t x = net_owned s x - of_bool (x = Thread (net_thid s))" for x
    using assms(2) by (simp add: net_owned_def tell_eq)
  moreover have "cmd_extra ?t x = cmd_extra (tell E (Kernel (sceKernelDeleteThread (net_thid s))) s) x" for x
    by (simp add: cmd_extra_def cmd_owned_def)
  ultimately have "cmd_extra ?t x - net_owned ?t x = cmd_extra s x - net_owned s x" for x by (simp add: delta_def)
  then have "plugin_ok E c ?t" by (intro plugin_okI [OF s(1)]) (use s(2) in simp_all)
  then show ?thesis using assms(1) by (simp add: services_ok_def tell_eq)
qed

lemma net_finish_run: "net_finish E s = Some t \<Longrightarrow> run t = run s"
  by (auto simp: net_finish_def stop_services_def cmd_end_def Let_def Option.bind_eq_Some_conv delete_loader_def close_socket_slot_def
      set_loader_def set_active_def tell_eq unregister_callback_def exit_netctl_def split: if_splits)



section \<open>A start without an FTP server\<close>

text \<open>A command thread that reports at once that it listens.\<close>

definition prompt_loader :: "nat \<Rightarrow> ret list plugin \<Rightarrow> ret list plugin" where
  "prompt_loader i s = s\<lparr>loader_start_status := 0\<rparr>"

text \<open>A positive result of \<open>sceNetShowNetstat\<close> is returned by \<open>ftpvita_init\<close> as its error, but \<open>start_services\<close> tests for
  negative results only: the services are marked as up without an FTP server.\<close>

lemma positive_netstat_starts_without_ftp:
  "\<exists>t. start_services script_env prompt_thread prompt_loader (down_plugin [answer 1, answer 4, answer 0]) = Some (0, t) \<and>
     all_is_up t \<and> \<not> ftp_initialized (ftpd t)"
proof -
  have [simp]: "world (add_devices f) = world f" "ftp_initialized (add_devices f) = ftp_initialized f" for f :: "ret list ftp"
    by (simp_all add: add_devices_world)
  have [simp]: "SCE_NET_ERROR_ENOTINIT script_env = - 2" "rc (answer r) = r" for r by (simp_all add: script_env_def answer_def)
  have ready: "await_loader script_env prompt_loader n s = s" if "loader_start_status s = 0" for n s
    using that by (cases n) simp_all
  have await: "await_loader script_env prompt_loader 2000 s = prompt_loader 1999 (tell script_env (Kernel (sceKernelDelayThread 1000)) s)"
    if "loader_start_status s = CMD_START_PENDING" for s
    using await_loader.simps(2) [of script_env prompt_loader 1999 s] that by (simp add: ready prompt_loader_def)
  show ?thesis
    by (simp add: start_services_def ftpvita_init_def init_net_def script_ask script_syscall cmd_start_def await prompt_loader_def Let_def
        ftpvita_set_file_buf_size_def)
qed

end
